(* ===== verification/Prelude.thy ===== *)
theory Prelude
  imports Complex_Main "HOL-Library.Product_Lexorder"
begin

section \<open>Prelude: machine integers, list operations and shared automation\<close>

text \<open>
  What every component uses: the fixed-width unsigned integers of the Rust source, its
  iterator operations on vectors, and the collections of rewrite rules the component
  proofs rest on.

  An unsigned integer of \<open>w\<close> bits is a natural number below \<open>2 ^ w\<close>.  The operators of the
  release build wrap around, and the named operations (\<open>saturating_add\<close>,
  \<open>saturating_sub\<close>, \<open>checked_add\<close>, \<open>wrapping_add\<close>) do what their names say.  Saturating
  subtraction is subtraction on the natural numbers.
\<close>

named_theorems machine_simps \<open>unfolding of the fixed-width operations\<close>
named_theorems layout_simps \<open>rewrite rules of the tiling layout\<close>

type_synonym u16 = nat
type_synonym u32 = nat
type_synonym u64 = nat
type_synonym usize = nat
type_synonym pane_id = nat

subsection \<open>Fixed-width arithmetic\<close>

definition u16_max :: nat where
  "u16_max = 65535"

definition u32_max :: nat where
  "u32_max = 4294967295"

definition u64_max :: nat where
  "u64_max = 18446744073709551615"

definition wadd16 :: "u16 \<Rightarrow> u16 \<Rightarrow> u16" where
  "wadd16 a b = (a + b) mod 65536"

definition sat_add :: "nat \<Rightarrow> nat \<Rightarrow> nat \<Rightarrow> nat" where
  "sat_add cap a b = min cap (a + b)"

definition sat_mul :: "nat \<Rightarrow> nat \<Rightarrow> nat \<Rightarrow> nat" where
  "sat_mul cap a b = min cap (a * b)"

definition wadd32 :: "u32 \<Rightarrow> u32 \<Rightarrow> u32" where
  "wadd32 a b = (a + b) mod 4294967296"

definition wadd64 :: "u64 \<Rightarrow> u64 \<Rightarrow> u64" where
  "wadd64 a b = (a + b) mod 18446744073709551616"

definition checked_add :: "nat \<Rightarrow> nat \<Rightarrow> nat \<Rightarrow> nat option" where
  "checked_add cap a b = (if a + b \<le> cap then Some (a + b) else None)"

definition checked_mul :: "nat \<Rightarrow> nat \<Rightarrow> nat \<Rightarrow> nat option" where
  "checked_mul cap a b = (if a * b \<le> cap then Some (a * b) else None)"

definition abs_diff :: "nat \<Rightarrow> nat \<Rightarrow> nat" where
  "abs_diff a b = (if a \<le> b then b - a else a - b)"

lemmas [machine_simps] =
  u16_max_def u32_max_def u64_max_def sat_add_def sat_mul_def checked_add_def
  checked_mul_def abs_diff_def

lemma wadd16_exact [simp]: "a + b \<le> 65535 \<Longrightarrow> wadd16 a b = a + b"
  by (simp add: wadd16_def)

lemma wadd64_exact [simp]: "a + b \<le> u64_max \<Longrightarrow> wadd64 a b = a + b"
  by (simp add: wadd64_def u64_max_def)

lemma checked_add_Some_iff: "checked_add cap a b = Some c \<longleftrightarrow> c = a + b \<and> a + b \<le> cap"
  by (auto simp: checked_add_def)

lemma checked_mul_Some_iff: "checked_mul cap a b = Some c \<longleftrightarrow> c = a * b \<and> a * b \<le> cap"
  by (auto simp: checked_mul_def)

subsection \<open>Decimal output\<close>

fun show_nat :: "nat \<Rightarrow> string" where
  "show_nat n = (if n < 10 then [char_of (48 + n)] else show_nat (n div 10) @ [char_of (48 + n mod 10)])"

declare show_nat.simps [simp del]

subsection \<open>Iterator operations\<close>

text \<open>
  \<open>Iterator::position\<close>: the index of the first element that satisfies a predicate.
\<close>

fun position :: "('a \<Rightarrow> bool) \<Rightarrow> 'a list \<Rightarrow> nat option" where
  "position P [] = None"
| "position P (x # xs) = (if P x then Some 0 else map_option Suc (position P xs))"

lemma position_None_iff: "position P xs = None \<longleftrightarrow> (\<forall>x\<in>set xs. \<not> P x)"
  by (induction xs) auto

lemma position_SomeD:
  "position P xs = Some i \<Longrightarrow> i < length xs \<and> P (xs ! i) \<and> (\<forall>j<i. \<not> P (xs ! j))"
proof (induction xs arbitrary: i)
  case Nil
  then show ?case by simp
next
  case (Cons x xs)
  then show ?case
    by (cases i) (auto split: if_splits simp: less_Suc_eq_0_disj)
qed

lemma position_Some_ex: "x \<in> set xs \<Longrightarrow> P x \<Longrightarrow> \<exists>i. position P xs = Some i"
  using position_None_iff [of P xs] by (cases "position P xs") auto

lemma position_append: "\<forall>x\<in>set xs. \<not> P x \<Longrightarrow> P y \<Longrightarrow> position P (xs @ y # ys) = Some (length xs)"
  by (induction xs) auto

text \<open>
  \<open>Iterator::min_by_key\<close>: of several elements with the least key the first is returned.
\<close>

fun min_by_key :: "('a \<Rightarrow> 'k::linorder) \<Rightarrow> 'a list \<Rightarrow> 'a option" where
  "min_by_key key [] = None"
| "min_by_key key (x # xs) =
     (case min_by_key key xs of
        None \<Rightarrow> Some x
      | Some y \<Rightarrow> if key y < key x then Some y else Some x)"

lemma min_by_key_None_iff [simp]: "min_by_key key xs = None \<longleftrightarrow> xs = []"
  by (cases xs) (auto split: option.splits)

lemma min_by_key_SomeD:
  "min_by_key key xs = Some x \<Longrightarrow> x \<in> set xs \<and> (\<forall>y\<in>set xs. key x \<le> key y)"
proof (induction xs arbitrary: x)
  case Nil
  then show ?case by simp
next
  case (Cons a xs)
  show ?case
  proof (cases "min_by_key key xs")
    case None
    with Cons.prems show ?thesis by auto
  next
    case (Some y)
    with Cons.IH have "y \<in> set xs" and "\<forall>z\<in>set xs. key y \<le> key z" by auto
    with Some Cons.prems show ?thesis by (fastforce split: if_splits)
  qed
qed

lemma find_SomeD: "List.find P xs = Some x \<Longrightarrow> x \<in> set xs \<and> P x"
  by (induction xs) (auto split: if_splits)

text \<open>\<open>Vec::insert\<close> at an index that is at most the length.\<close>

definition vec_insert :: "nat \<Rightarrow> 'a \<Rightarrow> 'a list \<Rightarrow> 'a list" where
  "vec_insert i x xs = take i xs @ x # drop i xs"


subsection \<open>Step relations with an invariant\<close>

text \<open>
  The contract of a component that is driven by a sequence of operations: every step keeps
  its invariant.  What holds after any number of steps is proved once here.
\<close>

locale kept_by_steps =
  fixes step :: "'s \<Rightarrow> 's \<Rightarrow> bool" and inv :: "'s \<Rightarrow> bool"
  assumes step_keeps: "inv s \<Longrightarrow> step s t \<Longrightarrow> inv t"
begin

lemma run_keeps: "step\<^sup>*\<^sup>* s t \<Longrightarrow> inv s \<Longrightarrow> inv t"
  by (induction rule: rtranclp_induct) (auto intro: step_keeps)

lemma run_from_init_keeps:
  "(\<And>s. init s \<Longrightarrow> inv s) \<Longrightarrow> init s \<Longrightarrow> step\<^sup>*\<^sup>* s t \<Longrightarrow> inv t"
  using run_keeps by blast

end

text \<open>
  A component that refines an abstract one: under its invariant each step is some steps of the
  abstract component.  What the abstract steps keep then holds of the component.
\<close>

locale simulation = kept_by_steps step inv
  for step :: "'s \<Rightarrow> 's \<Rightarrow> bool" and inv :: "'s \<Rightarrow> bool" +
  fixes abstract_step :: "'a \<Rightarrow> 'a \<Rightarrow> bool" and abs :: "'s \<Rightarrow> 'a"
  assumes step_refines: "inv s \<Longrightarrow> step s t \<Longrightarrow> abstract_step\<^sup>*\<^sup>* (abs s) (abs t)"
begin

lemma run_refines: "step\<^sup>*\<^sup>* s t \<Longrightarrow> inv s \<Longrightarrow> abstract_step\<^sup>*\<^sup>* (abs s) (abs t)"
proof (induction rule: rtranclp_induct)
  case (step t u)
  then show ?case using step_refines [of t u] run_keeps [of s t] by (meson rtranclp_trans)
qed simp

end

end
