(* ===== verification/Float32.thy ===== *)
theory Float32
  imports Prelude "HOL-Library.Log_Nat"
begin

section \<open>Single precision floating point\<close>

text \<open>
  The split ratios of the layout are \<open>f32\<close> values.  A value is not a number, an infinity
  with its sign, or a finite rational; \<open>f32_rnd\<close> rounds a rational to the nearest
  representable one (24 bits of significand, least exponent -149, ties to even), so
  literals, products and sums are the ones the machine computes.  The two zeros are one
  value: no operation of the source tells them apart.
\<close>

datatype f32 = F32NaN | F32Inf bool | F32 rat

definition pow2 :: "int \<Rightarrow> rat" where
  "pow2 e = (if 0 \<le> e then 2 ^ nat e else 1 / 2 ^ nat (- e))"

definition flog2 :: "rat \<Rightarrow> int" where
  "flog2 q = (case quotient_of q of (n, d) \<Rightarrow>
     (let k = bitlen n - bitlen d in if pow2 k \<le> q then k else k - 1))"

definition round_half_even :: "rat \<Rightarrow> int" where
  "round_half_even x =
     (let f = \<lfloor>x\<rfloor>; d = x - of_int f in
      if d < 1 / 2 then f else if 1 / 2 < d then f + 1 else if even f then f else f + 1)"

definition f32_rnd :: "rat \<Rightarrow> f32" where
  "f32_rnd q =
     (if q = 0 then F32 0
      else let e = max (- 149) (flog2 \<bar>q\<bar> - 23);
               r = of_int (round_half_even (q / pow2 e)) * pow2 e
           in if 2 ^ 128 \<le> \<bar>r\<bar> then F32Inf (q < 0) else F32 r)"

fun f32_neg :: "f32 \<Rightarrow> f32" where
  "f32_neg F32NaN = F32NaN"
| "f32_neg (F32Inf s) = F32Inf (\<not> s)"
| "f32_neg (F32 q) = F32 (- q)"

fun f32_add :: "f32 \<Rightarrow> f32 \<Rightarrow> f32" where
  "f32_add (F32 p) (F32 q) = f32_rnd (p + q)"
| "f32_add (F32Inf s) (F32Inf t) = (if s = t then F32Inf s else F32NaN)"
| "f32_add (F32Inf s) (F32 _) = F32Inf s"
| "f32_add (F32 _) (F32Inf s) = F32Inf s"
| "f32_add F32NaN _ = F32NaN"
| "f32_add _ F32NaN = F32NaN"

fun f32_mul :: "f32 \<Rightarrow> f32 \<Rightarrow> f32" where
  "f32_mul (F32 p) (F32 q) = f32_rnd (p * q)"
| "f32_mul (F32Inf s) (F32Inf t) = F32Inf (s \<noteq> t)"
| "f32_mul (F32Inf s) (F32 q) = (if q = 0 then F32NaN else F32Inf (s \<noteq> (q < 0)))"
| "f32_mul (F32 q) (F32Inf s) = (if q = 0 then F32NaN else F32Inf (s \<noteq> (q < 0)))"
| "f32_mul F32NaN _ = F32NaN"
| "f32_mul _ F32NaN = F32NaN"

fun f32_lt :: "f32 \<Rightarrow> f32 \<Rightarrow> bool" where
  "f32_lt (F32 p) (F32 q) = (p < q)"
| "f32_lt (F32Inf s) (F32 _) = s"
| "f32_lt (F32 _) (F32Inf t) = (\<not> t)"
| "f32_lt (F32Inf s) (F32Inf t) = (s \<and> \<not> t)"
| "f32_lt _ _ = False"

text \<open>Equality of floats: no value equals \<open>NaN\<close>.\<close>

fun f32_eq :: "f32 \<Rightarrow> f32 \<Rightarrow> bool" where
  "f32_eq F32NaN _ = False"
| "f32_eq x y = (x = y)"

fun f32_is_finite :: "f32 \<Rightarrow> bool" where
  "f32_is_finite (F32 _) = True"
| "f32_is_finite _ = False"

definition f32_clamp :: "f32 \<Rightarrow> f32 \<Rightarrow> f32 \<Rightarrow> f32" where
  "f32_clamp x lo hi = (if f32_lt x lo then lo else if f32_lt hi x then hi else x)"

text \<open>\<open>f32::round\<close> rounds half away from zero; the \<open>as u16\<close> cast truncates and saturates.\<close>

fun f32_round :: "f32 \<Rightarrow> f32" where
  "f32_round (F32 q) =
     F32 (if 0 \<le> q then of_int \<lfloor>q + 1 / 2\<rfloor> else - of_int \<lfloor>1 / 2 - q\<rfloor>)"
| "f32_round x = x"

fun f32_as_u16 :: "f32 \<Rightarrow> u16" where
  "f32_as_u16 F32NaN = 0"
| "f32_as_u16 (F32Inf s) = (if s then 0 else 65535)"
| "f32_as_u16 (F32 q) = (if q \<le> 0 then 0 else if 65535 \<le> q then 65535 else nat \<lfloor>q\<rfloor>)"

definition f32_of_u16 :: "u16 \<Rightarrow> f32" where
  "f32_of_u16 w = F32 (of_nat w)"

subsection \<open>Powers of two and the binary exponent\<close>

lemma pow2_pos [simp]: "0 < pow2 e"
  by (simp add: pow2_def)

lemma pow2_mult_neg: "pow2 e * pow2 (- e) = 1"
  by (simp add: pow2_def)

lemma pow2_nonpos_integer: "e \<le> 0 \<Longrightarrow> of_nat w / pow2 e = of_int (int w * 2 ^ nat (- e))"
  by (cases "e = 0") (simp_all add: pow2_def)

lemma round_half_even_le: "x \<le> of_int n \<Longrightarrow> round_half_even x \<le> n"
proof -
  assume le: "x \<le> of_int n"
  then have fl: "\<lfloor>x\<rfloor> \<le> n" by (simp add: floor_le_iff)
  show ?thesis
  proof (cases "\<lfloor>x\<rfloor> = n")
    case True
    then have "x - of_int \<lfloor>x\<rfloor> = 0" using le of_int_floor_le [of x] by simp
    with True show ?thesis by (simp add: round_half_even_def Let_def)
  next
    case False
    with fl show ?thesis by (auto simp: round_half_even_def Let_def)
  qed
qed

lemma round_half_even_nonneg: "0 \<le> x \<Longrightarrow> 0 \<le> round_half_even x"
proof -
  assume "0 \<le> x"
  then have "0 \<le> \<lfloor>x\<rfloor>" by simp
  then show ?thesis by (auto simp: round_half_even_def Let_def)
qed


lemma pow2_mono: "a \<le> b \<Longrightarrow> pow2 a \<le> pow2 b"
proof (cases "0 \<le> a")
  case True
  moreover assume "a \<le> b"
  ultimately show ?thesis by (simp add: pow2_def nat_mono power_increasing)
next
  case False
  assume ab: "a \<le> b"
  show ?thesis
  proof (cases "0 \<le> b")
    case True
    have "1 / (2::rat) ^ nat (- a) \<le> 1" by simp
    also have "(1::rat) \<le> 2 ^ nat b" by simp
    finally show ?thesis using False True by (simp add: pow2_def)
  next
    case neg: False
    have "(2::rat) ^ nat (- b) \<le> 2 ^ nat (- a)"
      using ab by (intro power_increasing) auto
    then show ?thesis using False neg by (simp add: pow2_def frac_le)
  qed
qed

lemma flog2_le:
  assumes "0 < q" and "q \<le> 65535"
  shows "flog2 q \<le> 15"
proof -
  obtain n d where nd: "quotient_of q = (n, d)" by (cases "quotient_of q")
  then have d: "0 < d" and q: "q = of_int n / of_int d"
    by (simp_all add: quotient_of_denom_pos quotient_of_div)
  have "of_int n \<le> (of_int (65535 * d) :: rat)"
    using assms(2) d unfolding q by (simp add: divide_le_eq mult.commute)
  then have "n \<le> 65535 * d" by (simp only: of_int_le_iff)
  also have "\<dots> < 65536 * d" using d by simp
  also have "\<dots> \<le> 65536 * 2 ^ nat (bitlen d)"
    using bitlen_bounds [OF d] by simp
  also have "\<dots> = (2::int) ^ nat (bitlen d + 16)"
    using bitlen_nonneg [of d] by (simp add: nat_add_distrib power_add)
  finally have "bitlen n \<le> bitlen d + 16"
    using bitlen_nonneg [of d] by (simp add: bitlen_le_iff_power)
  then have k: "bitlen n - bitlen d \<le> 16" by simp
  show ?thesis
  proof (cases "bitlen n - bitlen d \<le> 15")
    case True
    then show ?thesis by (simp add: flog2_def nd Let_def)
  next
    case False
    with k have k16: "bitlen n - bitlen d = 16" by simp
    have "\<not> pow2 16 \<le> q" using assms(2) by (simp add: pow2_def)
    then show ?thesis by (simp add: flog2_def nd Let_def k16)
  qed
qed

text \<open>
  Rounding a non-negative rational that is at most a 16-bit integer stays between zero
  and that integer: the integer is representable.
\<close>

lemma f32_rnd_bounds:
  assumes "0 \<le> q" and "q \<le> of_nat w" and "w \<le> 65535"
  shows "\<exists>r. f32_rnd q = F32 r \<and> 0 \<le> r \<and> r \<le> of_nat w"
proof (cases "q = 0")
  case True
  then show ?thesis by (simp add: f32_rnd_def)
next
  case False
  with assms have q: "0 < q" "q \<le> 65535" by (auto intro: order_trans)
  define e where "e = max (- 149) (flog2 \<bar>q\<bar> - 23)"
  have e: "e \<le> 0" using flog2_le [OF q] q by (simp add: e_def)
  define m where "m = round_half_even (q / pow2 e)"
  have "q / pow2 e \<le> of_nat w / pow2 e" using assms(2) by (simp add: divide_right_mono order_less_imp_le)
  then have "m \<le> int w * 2 ^ nat (- e)"
    unfolding m_def by (intro round_half_even_le) (simp only: pow2_nonpos_integer [OF e])
  then have "(of_int m :: rat) \<le> of_int (int w * 2 ^ nat (- e))" by (simp only: of_int_le_iff)
  then have "of_int m \<le> of_nat w / pow2 e" by (simp only: pow2_nonpos_integer [OF e])
  then have up: "of_int m * pow2 e \<le> of_nat w" by (simp add: pos_le_divide_eq)
  have lo: "0 \<le> of_int m * pow2 e"
    using q by (simp add: m_def round_half_even_nonneg order_less_imp_le)
  have "(of_nat w :: rat) \<le> of_nat 65535" using assms(3) by (simp only: of_nat_le_iff)
  with up have "of_int m * pow2 e \<le> (65535::rat)" by simp
  then have "\<bar>of_int m * pow2 e\<bar> < (2::rat) ^ 128" using lo by simp
  then have "f32_rnd q = F32 (of_int m * pow2 e)"
    using False unfolding f32_rnd_def Let_def e_def [symmetric] m_def [symmetric] by simp
  then show ?thesis using lo up by blast
qed

definition ratio_fits :: "f32 \<Rightarrow> bool" where
  "ratio_fits r = (case r of F32NaN \<Rightarrow> True | F32Inf s \<Rightarrow> s | F32 q \<Rightarrow> q \<le> 1)"


lemma f32_rnd_neg:
  assumes "q < 0"
  shows "f32_rnd q = F32Inf True \<or> (\<exists>r. f32_rnd q = F32 r \<and> r \<le> 0)"
proof -
  define e where "e = max (- 149) (flog2 \<bar>q\<bar> - 23)"
  have "q / pow2 e \<le> of_int 0" using assms by (simp add: divide_le_0_iff order_less_imp_le)
  then have "round_half_even (q / pow2 e) \<le> 0" by (rule round_half_even_le)
  then have "of_int (round_half_even (q / pow2 e)) * pow2 e \<le> 0"
    by (simp add: mult_nonpos_nonneg order_less_imp_le)
  then show ?thesis
    using assms unfolding f32_rnd_def Let_def e_def [symmetric] by simp
qed

lemma f32_as_u16_round_le:
  "0 \<le> r \<Longrightarrow> r \<le> of_nat w \<Longrightarrow> f32_as_u16 (f32_round (F32 r)) \<le> w"
proof -
  assume r: "0 \<le> r" "r \<le> of_nat w"
  have "\<lfloor>r + 1 / 2\<rfloor> \<le> int w"
  proof -
    have "r + 1 / 2 < of_int (int w + 1)" using r by simp
    then show ?thesis by (simp add: floor_le_iff)
  qed
  moreover have "f32_as_u16 (f32_round (F32 r)) \<le> nat \<lfloor>r + 1 / 2\<rfloor>"
    using r by (simp add: le_nat_iff)
  ultimately show ?thesis by linarith
qed

lemma f32_as_u16_round_neg: "r \<le> 0 \<Longrightarrow> f32_as_u16 (f32_round (F32 r)) = 0"
  by (cases "r = 0") auto

lemma scaled_u16_le:
  assumes "ratio_fits r" and "w \<le> 65535"
  shows "f32_as_u16 (f32_round (f32_mul (f32_of_u16 w) r)) \<le> w"
proof (cases r)
  case F32NaN
  then show ?thesis by (simp add: f32_of_u16_def)
next
  case (F32Inf s)
  then show ?thesis using assms(1) by (simp add: ratio_fits_def f32_of_u16_def)
next
  case (F32 q)
  with assms(1) have q: "q \<le> 1" by (simp add: ratio_fits_def)
  show ?thesis
  proof (cases "0 \<le> of_nat w * q")
    case True
    have "of_nat w * q \<le> of_nat w * 1" using q by (intro mult_left_mono) auto
    then have "of_nat w * q \<le> of_nat w" by simp
    from f32_rnd_bounds [OF True this assms(2)] F32 show ?thesis
      by (auto simp add: f32_of_u16_def simp del: f32_round.simps f32_as_u16.simps
            intro: f32_as_u16_round_le)
  next
    case False
    with f32_rnd_neg [of "of_nat w * q"] F32 show ?thesis
      by (auto simp add: f32_of_u16_def f32_as_u16_round_neg simp del: f32_round.simps(1))
  qed
qed

lemma ratio_fits_clamp:
  "f32_lt hi (F32 1) \<Longrightarrow> f32_lt lo (F32 1) \<Longrightarrow> ratio_fits (f32_clamp x lo hi)"
  by (cases x; cases lo; cases hi)
     (auto simp: f32_clamp_def ratio_fits_def split: if_splits)

end
