(* ===== verification/Layout.thy ===== *)
theory Layout
  imports Float32
begin

section \<open>The tiling layout of a tab\<close>

text \<open>
  \<open>src/src/layout.rs\<close>: a binary space partition whose leaves are panes, the focused pane
  and the pane that was focused before it.  The rectangle and direction types are those of
  the terminal toolkit the program links; its constructor \<open>Rect::new\<close> is the parameter
  \<open>mk\<close> of every definition that builds a rectangle, and \<open>rect_new_ok\<close> is the documented
  behaviour the geometry relies on (a rectangle that ends inside the 16-bit plane is built
  as given).  Coordinates are 16-bit; \<open>+\<close> wraps as in the release build.  A pane's snapshot
  leaves out the border flags, which the layout always sets to none.
\<close>

subsection \<open>Data\<close>

record rect =
  rx :: u16
  ry :: u16
  rwidth :: u16
  rheight :: u16

type_synonym rect_ctor = "u16 \<Rightarrow> u16 \<Rightarrow> u16 \<Rightarrow> u16 \<Rightarrow> rect"

datatype direction = Horizontal | Vertical

datatype nav_direction = NavLeft | NavRight | NavUp | NavDown

record pane_info =
  pi_id :: pane_id
  pi_rect :: rect
  pi_inner_rect :: rect
  pi_scrollbar_rect :: "rect option"
  pi_is_focused :: bool

record split_border =
  sb_pos :: u16
  sb_direction :: direction
  sb_ratio :: f32
  sb_area :: rect
  sb_path :: "bool list"

datatype node = Pane pane_id | Split direction f32 node node

record tile_layout =
  tl_root :: node
  tl_focus :: pane_id
  tl_prev_focus :: "pane_id option"

text \<open>The global pane counter is passed explicitly.\<close>

definition pane_alloc :: "u32 \<Rightarrow> pane_id \<times> u32" where
  "pane_alloc next = (next, wadd32 next 1)"

subsection \<open>Tree operations\<close>

fun count_panes :: "node \<Rightarrow> nat" where
  "count_panes (Pane _) = 1"
| "count_panes (Split _ _ a b) = count_panes a + count_panes b"

fun collect_ids :: "node \<Rightarrow> pane_id list" where
  "collect_ids (Pane i) = [i]"
| "collect_ids (Split _ _ a b) = collect_ids a @ collect_ids b"

fun split_rect :: "rect_ctor \<Rightarrow> rect \<Rightarrow> direction \<Rightarrow> f32 \<Rightarrow> rect \<times> rect" where
  "split_rect mk area Horizontal ratio =
     (let first_w = f32_as_u16 (f32_round (f32_mul (f32_of_u16 (rwidth area)) ratio));
          second_w = rwidth area - first_w
      in (mk (rx area) (ry area) first_w (rheight area),
          mk (wadd16 (rx area) first_w) (ry area) second_w (rheight area)))"
| "split_rect mk area Vertical ratio =
     (let first_h = f32_as_u16 (f32_round (f32_mul (f32_of_u16 (rheight area)) ratio));
          second_h = rheight area - first_h
      in (mk (rx area) (ry area) (rwidth area) first_h,
          mk (rx area) (wadd16 (ry area) first_h) (rwidth area) second_h))"

fun collect_panes :: "rect_ctor \<Rightarrow> node \<Rightarrow> rect \<Rightarrow> pane_id \<Rightarrow> pane_info list" where
  "collect_panes mk (Pane i) area foc =
     [\<lparr>pi_id = i, pi_rect = area, pi_inner_rect = area, pi_scrollbar_rect = None,
       pi_is_focused = (i = foc)\<rparr>]"
| "collect_panes mk (Split d ratio a b) area foc =
     (case split_rect mk area d ratio of
        (ra, rb) \<Rightarrow> collect_panes mk a ra foc @ collect_panes mk b rb foc)"

fun collect_splits :: "rect_ctor \<Rightarrow> node \<Rightarrow> rect \<Rightarrow> bool list \<Rightarrow> split_border list" where
  "collect_splits mk (Pane _) area path = []"
| "collect_splits mk (Split d ratio a b) area path =
     (case split_rect mk area d ratio of
        (ra, rb) \<Rightarrow>
          \<lparr>sb_pos = (case d of Horizontal \<Rightarrow> wadd16 (rx ra) (rwidth ra)
                             | Vertical \<Rightarrow> wadd16 (ry ra) (rheight ra)),
           sb_direction = d, sb_ratio = ratio, sb_area = area, sb_path = path\<rparr>
          # collect_splits mk a ra (path @ [False])
          @ collect_splits mk b rb (path @ [True]))"

fun split_ratios_from :: "node \<Rightarrow> bool list \<Rightarrow> (bool list \<times> f32) list" where
  "split_ratios_from (Pane _) path = []"
| "split_ratios_from (Split _ ratio a b) path =
     (path, ratio) # split_ratios_from a (path @ [False]) @ split_ratios_from b (path @ [True])"

definition split_ratios :: "node \<Rightarrow> (bool list \<times> f32) list" where
  "split_ratios n = split_ratios_from n []"

fun swap_pane_ids :: "node \<Rightarrow> pane_id \<Rightarrow> pane_id \<Rightarrow> node" where
  "swap_pane_ids (Pane i) x y = (if i = x then Pane y else if i = y then Pane x else Pane i)"
| "swap_pane_ids (Split d r a b) x y = Split d r (swap_pane_ids a x y) (swap_pane_ids b x y)"

text \<open>
  \<open>find_pane_mut\<close> returns a mutable reference to the first leaf with the target id, which
  its callers overwrite.  The model does both: the tree with that leaf replaced.
\<close>

fun find_pane_mut :: "node \<Rightarrow> pane_id \<Rightarrow> node \<Rightarrow> node option" where
  "find_pane_mut (Pane i) target new = (if i = target then Some new else None)"
| "find_pane_mut (Split d r a b) target new =
     (case find_pane_mut a target new of
        Some a' \<Rightarrow> Some (Split d r a' b)
      | None \<Rightarrow> map_option (Split d r a) (find_pane_mut b target new))"

definition split_node :: "pane_id \<Rightarrow> direction \<Rightarrow> pane_id \<Rightarrow> f32 \<Rightarrow> node" where
  "split_node target d new_id ratio = Split d ratio (Pane target) (Pane new_id)"

definition min_ratio :: f32 where
  "min_ratio = f32_rnd (1 / 10)"

definition max_ratio :: f32 where
  "max_ratio = f32_rnd (9 / 10)"

definition valid_split_ratio :: "f32 \<Rightarrow> f32" where
  "valid_split_ratio r =
     (if f32_is_finite r then f32_clamp r min_ratio max_ratio else f32_rnd (1 / 2))"

fun remove_pane :: "node \<Rightarrow> pane_id \<Rightarrow> node option" where
  "remove_pane (Pane i) target = (if i = target then None else Some (Pane i))"
| "remove_pane (Split d r a b) target =
     (case (remove_pane a target, remove_pane b target) of
        (None, Some s) \<Rightarrow> Some s
      | (Some f, None) \<Rightarrow> Some f
      | (Some f, Some s) \<Rightarrow> Some (Split d r f s)
      | (None, None) \<Rightarrow> None)"

fun set_ratio_at :: "node \<Rightarrow> bool list \<Rightarrow> f32 \<Rightarrow> bool \<times> node" where
  "set_ratio_at (Pane i) path r' = (False, Pane i)"
| "set_ratio_at (Split d r a b) [] r' = (True, Split d r' a b)"
| "set_ratio_at (Split d r a b) (p # path) r' =
     (if p then (case set_ratio_at b path r' of (ok, b') \<Rightarrow> (ok, Split d r a b'))
      else (case set_ratio_at a path r' of (ok, a') \<Rightarrow> (ok, Split d r a' b)))"

fun get_ratio_at :: "node \<Rightarrow> bool list \<Rightarrow> f32 option" where
  "get_ratio_at (Pane _) path = None"
| "get_ratio_at (Split d r a b) [] = Some r"
| "get_ratio_at (Split d r a b) (p # path) =
     (if p then get_ratio_at b path else get_ratio_at a path)"

subsection \<open>Ranges, edges and directional navigation\<close>

definition ranges_overlap :: "u16 \<Rightarrow> u16 \<Rightarrow> u16 \<Rightarrow> u16 \<Rightarrow> bool" where
  "ranges_overlap a_start a_len b_start b_len \<longleftrightarrow>
     a_start < wadd16 b_start b_len \<and> b_start < wadd16 a_start a_len"

definition range_overlap_amount :: "u16 \<Rightarrow> u16 \<Rightarrow> u16 \<Rightarrow> u16 \<Rightarrow> u16" where
  "range_overlap_amount a_start a_len b_start b_len =
     (let a_end = sat_add u16_max a_start a_len; b_end = sat_add u16_max b_start b_len
      in min a_end b_end - max a_start b_start)"

definition range_center_distance :: "u16 \<Rightarrow> u16 \<Rightarrow> u16 \<Rightarrow> u16 \<Rightarrow> u16" where
  "range_center_distance a_start a_len b_start b_len =
     (let a_center = sat_add u16_max (sat_mul u16_max a_start 2) a_len;
          b_center = sat_add u16_max (sat_mul u16_max b_start 2) b_len
      in abs_diff a_center b_center)"

fun nav_candidate :: "nav_direction \<Rightarrow> rect \<Rightarrow> rect \<Rightarrow> bool" where
  "nav_candidate NavLeft fr r \<longleftrightarrow>
     wadd16 (rx r) (rwidth r) \<le> rx fr \<and> ranges_overlap (ry r) (rheight r) (ry fr) (rheight fr)"
| "nav_candidate NavRight fr r \<longleftrightarrow>
     wadd16 (rx fr) (rwidth fr) \<le> rx r \<and> ranges_overlap (ry r) (rheight r) (ry fr) (rheight fr)"
| "nav_candidate NavUp fr r \<longleftrightarrow>
     wadd16 (ry r) (rheight r) \<le> ry fr \<and> ranges_overlap (rx r) (rwidth r) (rx fr) (rwidth fr)"
| "nav_candidate NavDown fr r \<longleftrightarrow>
     wadd16 (ry fr) (rheight fr) \<le> ry r \<and> ranges_overlap (rx r) (rwidth r) (rx fr) (rwidth fr)"

fun nav_edge_distance :: "nav_direction \<Rightarrow> rect \<Rightarrow> rect \<Rightarrow> u16" where
  "nav_edge_distance NavLeft fr r = rx fr - wadd16 (rx r) (rwidth r)"
| "nav_edge_distance NavRight fr r = rx r - wadd16 (rx fr) (rwidth fr)"
| "nav_edge_distance NavUp fr r = ry fr - wadd16 (ry r) (rheight r)"
| "nav_edge_distance NavDown fr r = ry r - wadd16 (ry fr) (rheight fr)"

fun nav_overlap :: "nav_direction \<Rightarrow> rect \<Rightarrow> rect \<Rightarrow> u16" where
  "nav_overlap NavLeft fr r = range_overlap_amount (ry r) (rheight r) (ry fr) (rheight fr)"
| "nav_overlap NavRight fr r = range_overlap_amount (ry r) (rheight r) (ry fr) (rheight fr)"
| "nav_overlap NavUp fr r = range_overlap_amount (rx r) (rwidth r) (rx fr) (rwidth fr)"
| "nav_overlap NavDown fr r = range_overlap_amount (rx r) (rwidth r) (rx fr) (rwidth fr)"

fun nav_center_distance :: "nav_direction \<Rightarrow> rect \<Rightarrow> rect \<Rightarrow> u16" where
  "nav_center_distance NavLeft fr r = range_center_distance (ry r) (rheight r) (ry fr) (rheight fr)"
| "nav_center_distance NavRight fr r = range_center_distance (ry r) (rheight r) (ry fr) (rheight fr)"
| "nav_center_distance NavUp fr r = range_center_distance (rx r) (rwidth r) (rx fr) (rwidth fr)"
| "nav_center_distance NavDown fr r = range_center_distance (rx r) (rwidth r) (rx fr) (rwidth fr)"

definition nav_key :: "nav_direction \<Rightarrow> rect \<Rightarrow> nat \<times> pane_info \<Rightarrow> nat \<times> int \<times> nat \<times> nat" where
  "nav_key d fr = (\<lambda>(index, p).
     (nav_edge_distance d fr (pi_rect p), - int (nav_overlap d fr (pi_rect p)),
      nav_center_distance d fr (pi_rect p), index))"

definition find_in_direction :: "pane_info \<Rightarrow> nav_direction \<Rightarrow> pane_info list \<Rightarrow> pane_id option" where
  "find_in_direction focused d ps =
     map_option (\<lambda>(_, p). pi_id p)
       (min_by_key (nav_key d (pi_rect focused))
         (filter (\<lambda>(_, p). nav_candidate d (pi_rect focused) (pi_rect p))
           (filter (\<lambda>(_, p). pi_id p \<noteq> pi_id focused) (List.enumerate 0 ps))))"

fun split_edge_distance :: "split_border \<Rightarrow> rect \<Rightarrow> nav_direction \<Rightarrow> nat" where
  "split_edge_distance s f NavLeft = abs_diff (sb_pos s) (rx f)"
| "split_edge_distance s f NavRight = abs_diff (sb_pos s) (wadd16 (rx f) (rwidth f))"
| "split_edge_distance s f NavUp = abs_diff (sb_pos s) (ry f)"
| "split_edge_distance s f NavDown = abs_diff (sb_pos s) (wadd16 (ry f) (rheight f))"

definition split_on_requested_edge :: "split_border \<Rightarrow> rect \<Rightarrow> nav_direction \<Rightarrow> bool" where
  "split_on_requested_edge s f nav \<longleftrightarrow> split_edge_distance s f nav \<le> 1"

fun split_area_overlaps_focused_pane :: "split_border \<Rightarrow> rect \<Rightarrow> nav_direction \<Rightarrow> bool" where
  "split_area_overlaps_focused_pane s f NavLeft =
     ranges_overlap (ry (sb_area s)) (rheight (sb_area s)) (ry f) (rheight f)"
| "split_area_overlaps_focused_pane s f NavRight =
     ranges_overlap (ry (sb_area s)) (rheight (sb_area s)) (ry f) (rheight f)"
| "split_area_overlaps_focused_pane s f NavUp =
     ranges_overlap (rx (sb_area s)) (rwidth (sb_area s)) (rx f) (rwidth f)"
| "split_area_overlaps_focused_pane s f NavDown =
     ranges_overlap (rx (sb_area s)) (rwidth (sb_area s)) (rx f) (rwidth f)"

definition nearest_resize_split ::
    "split_border list \<Rightarrow> direction \<Rightarrow> rect \<Rightarrow> nav_direction \<Rightarrow> split_border option" where
  "nearest_resize_split ss d f nav =
     min_by_key (\<lambda>s. split_edge_distance s f nav)
       (filter (\<lambda>s. split_on_requested_edge s f nav)
         (filter (\<lambda>s. split_area_overlaps_focused_pane s f nav)
           (filter (\<lambda>s. sb_direction s = d) ss)))"

fun opposite_direction :: "nav_direction \<Rightarrow> nav_direction" where
  "opposite_direction NavLeft = NavRight"
| "opposite_direction NavRight = NavLeft"
| "opposite_direction NavUp = NavDown"
| "opposite_direction NavDown = NavUp"

subsection \<open>The layout's operations\<close>

definition tile_new :: "u32 \<Rightarrow> (tile_layout \<times> pane_id) \<times> u32" where
  "tile_new next = (case pane_alloc next of (root_id, next') \<Rightarrow>
     ((\<lparr>tl_root = Pane root_id, tl_focus = root_id, tl_prev_focus = None\<rparr>, root_id), next'))"

definition set_focus :: "tile_layout \<Rightarrow> pane_id \<Rightarrow> tile_layout" where
  "set_focus l i =
     (if i \<noteq> tl_focus l then l\<lparr>tl_prev_focus := Some (tl_focus l), tl_focus := i\<rparr> else l)"

definition pane_count :: "tile_layout \<Rightarrow> nat" where
  "pane_count l = count_panes (tl_root l)"

definition pane_ids :: "tile_layout \<Rightarrow> pane_id list" where
  "pane_ids l = collect_ids (tl_root l)"

definition panes :: "rect_ctor \<Rightarrow> tile_layout \<Rightarrow> rect \<Rightarrow> pane_info list" where
  "panes mk l area = collect_panes mk (tl_root l) area (tl_focus l)"

definition splits :: "rect_ctor \<Rightarrow> tile_layout \<Rightarrow> rect \<Rightarrow> split_border list" where
  "splits mk l area = collect_splits mk (tl_root l) area []"

definition panes_after_split ::
    "rect_ctor \<Rightarrow> tile_layout \<Rightarrow> rect \<Rightarrow> pane_id \<Rightarrow> direction \<Rightarrow> f32 \<Rightarrow> (pane_info list \<times> nat) option" where
  "panes_after_split mk l area target d ratio =
     (let ps = panes mk l area in
      case position (\<lambda>p. pi_id p = target) ps of
        None \<Rightarrow> None
      | Some index \<Rightarrow>
          (case split_rect mk (pi_rect (ps ! index)) d (valid_split_ratio ratio) of
             (first, second) \<Rightarrow>
               let ps' = ps[index := (ps ! index)\<lparr>pi_rect := first, pi_inner_rect := first\<rparr>];
                   new_pane = (ps' ! index)\<lparr>pi_rect := second, pi_inner_rect := second,
                                            pi_is_focused := False\<rparr>
               in Some (vec_insert (index + 1) new_pane ps', index + 1)))"

definition split_pane ::
    "u32 \<Rightarrow> tile_layout \<Rightarrow> pane_id \<Rightarrow> direction \<Rightarrow> f32 \<Rightarrow> (pane_id option \<times> tile_layout) \<times> u32" where
  "split_pane next l target d ratio =
     (case pane_alloc next of (new_id, next') \<Rightarrow>
        (case find_pane_mut (tl_root l) target (split_node target d new_id (valid_split_ratio ratio)) of
           None \<Rightarrow> ((None, l), next)
         | Some root' \<Rightarrow> ((Some new_id, l\<lparr>tl_root := root'\<rparr>), next')))"

definition insert_pane_near ::
    "tile_layout \<Rightarrow> pane_id \<Rightarrow> pane_id \<Rightarrow> direction \<Rightarrow> f32 \<Rightarrow> bool \<Rightarrow> bool \<times> tile_layout" where
  "insert_pane_near l target moved d ratio foc =
     (if target = moved then (False, l)
      else if moved \<in> set (pane_ids l) then (False, l)
      else case find_pane_mut (tl_root l) target (split_node target d moved (valid_split_ratio ratio)) of
             None \<Rightarrow> (False, l)
           | Some root' \<Rightarrow>
               (True, if foc then set_focus (l\<lparr>tl_root := root'\<rparr>) moved else l\<lparr>tl_root := root'\<rparr>))"

text \<open>
  \<open>close_focused\<close> unwraps the position of the focused pane: \<open>None\<close> is that panic.  While the
  tree is taken apart the layout holds a placeholder pane 0, which stays when the removal
  leaves nothing.
\<close>

definition close_focused :: "tile_layout \<Rightarrow> (bool \<times> tile_layout) option" where
  "close_focused l =
     (if pane_count l \<le> 1 then Some (False, l)
      else let target = tl_focus l; ids = pane_ids l in
        case position (\<lambda>i. i = target) ids of
          None \<Rightarrow> None
        | Some pos \<Rightarrow>
            let ordered = (if pos + 1 < length ids then ids ! (pos + 1) else ids ! (pos - 1));
                new_focus = (case tl_prev_focus l of
                    Some prev \<Rightarrow> if prev \<noteq> target \<and> prev \<in> set ids then prev else ordered
                  | None \<Rightarrow> ordered)
            in case remove_pane (tl_root l) target of
                 Some new_root \<Rightarrow>
                   Some (True, l\<lparr>tl_root := new_root, tl_focus := new_focus, tl_prev_focus := None\<rparr>)
               | None \<Rightarrow> Some (False, l\<lparr>tl_root := Pane 0\<rparr>))"

definition close_pane :: "tile_layout \<Rightarrow> pane_id \<Rightarrow> (bool \<times> tile_layout) option" where
  "close_pane l i =
     (if tl_focus l = i then close_focused l
      else if pane_count l \<le> 1 \<or> i \<notin> set (pane_ids l) then Some (False, l)
      else case remove_pane (tl_root l) i of
             None \<Rightarrow> Some (False, l\<lparr>tl_root := Pane 0\<rparr>)
           | Some new_root \<Rightarrow>
               Some (True, l\<lparr>tl_root := new_root,
                 tl_prev_focus := (if tl_prev_focus l = Some i then None else tl_prev_focus l)\<rparr>))"

definition focus_pane :: "tile_layout \<Rightarrow> pane_id \<Rightarrow> tile_layout" where
  "focus_pane l i = (if i \<in> set (pane_ids l) then set_focus l i else l)"

definition swap_panes :: "tile_layout \<Rightarrow> pane_id \<Rightarrow> pane_id \<Rightarrow> bool \<times> tile_layout" where
  "swap_panes l first second =
     (if first = second then (False, l)
      else if first \<notin> set (pane_ids l) \<or> second \<notin> set (pane_ids l) then (False, l)
      else (True, l\<lparr>tl_root := swap_pane_ids (tl_root l) first second\<rparr>))"

definition layout_set_ratio_at :: "tile_layout \<Rightarrow> bool list \<Rightarrow> f32 \<Rightarrow> bool \<times> tile_layout" where
  "layout_set_ratio_at l path ratio =
     (case set_ratio_at (tl_root l) path (f32_clamp ratio min_ratio max_ratio) of
        (ok, root') \<Rightarrow> (ok, l\<lparr>tl_root := root'\<rparr>))"

definition resize_focused :: "rect_ctor \<Rightarrow> tile_layout \<Rightarrow> nav_direction \<Rightarrow> f32 \<Rightarrow> rect \<Rightarrow> tile_layout" where
  "resize_focused mk l nav delta area =
     (case List.find pi_is_focused (panes mk l area) of
        None \<Rightarrow> l
      | Some focused \<Rightarrow>
          let ss = splits mk l area;
              target_dir = (if nav = NavLeft \<or> nav = NavRight then Horizontal else Vertical);
              grows = (nav = NavRight \<or> nav = NavDown);
              best = (case nearest_resize_split ss target_dir (pi_rect focused) nav of
                  Some s \<Rightarrow> Some s
                | None \<Rightarrow> nearest_resize_split ss target_dir (pi_rect focused) (opposite_direction nav))
          in case best of
               None \<Rightarrow> l
             | Some s \<Rightarrow>
                 let current = (case get_ratio_at (tl_root l) (sb_path s) of Some r \<Rightarrow> r | None \<Rightarrow> f32_rnd (1 / 2));
                     adj = (if grows then delta else f32_neg delta)
                 in snd (layout_set_ratio_at l (sb_path s) (f32_add current adj)))"

text \<open>Equality of the two ratio lists is that of vectors of pairs with float equality.\<close>

definition split_ratios_eq :: "(bool list \<times> f32) list \<Rightarrow> (bool list \<times> f32) list \<Rightarrow> bool" where
  "split_ratios_eq = list_all2 (\<lambda>(p, r) (q, s). p = q \<and> f32_eq r s)"

definition resize_pane ::
    "rect_ctor \<Rightarrow> tile_layout \<Rightarrow> pane_id \<Rightarrow> nav_direction \<Rightarrow> f32 \<Rightarrow> rect \<Rightarrow> bool \<times> tile_layout" where
  "resize_pane mk l i nav delta area =
     (if i \<notin> set (pane_ids l) then (False, l)
      else let before = split_ratios (tl_root l);
               l' = (resize_focused mk (l\<lparr>tl_focus := i\<rparr>) nav delta area)\<lparr>tl_focus := tl_focus l\<rparr>
           in (\<not> split_ratios_eq (split_ratios (tl_root l')) before, l'))"

definition tile_from_saved :: "node \<Rightarrow> pane_id \<Rightarrow> tile_layout" where
  "tile_from_saved n foc = \<lparr>tl_root = n, tl_focus = foc, tl_prev_focus = None\<rparr>"


section \<open>Facts about the layout\<close>

subsection \<open>Identifiers under the tree operations\<close>

lemma count_panes_length: "count_panes n = length (collect_ids n)"
  by (induction n) auto

lemma collect_ids_not_Nil [simp]: "collect_ids n \<noteq> []"
  by (induction n) auto

lemma collect_panes_ids [layout_simps]: "map pi_id (collect_panes mk n area foc) = collect_ids n"
  by (induction n arbitrary: area) (auto split: prod.splits)

lemma collect_panes_focused:
  "p \<in> set (collect_panes mk n area foc) \<Longrightarrow> pi_is_focused p \<longleftrightarrow> pi_id p = foc"
  by (induction n arbitrary: area) (auto split: prod.splits)

lemma find_pane_mut_None_iff: "find_pane_mut n target new = None \<longleftrightarrow> target \<notin> set (collect_ids n)"
  by (induction n) (auto split: option.splits)

text \<open>The replaced leaf's identifier gives way, in place, to those of the new subtree.\<close>

lemma find_pane_mut_ids:
  "find_pane_mut n target new = Some n' \<Longrightarrow>
     \<exists>xs ys. collect_ids n = xs @ target # ys \<and> target \<notin> set xs \<and>
             collect_ids n' = xs @ collect_ids new @ ys"
proof (induction n arbitrary: n')
  case (Pane i)
  then show ?case by (auto split: if_splits intro!: exI [of _ "[]"])
next
  case (Split d r a b)
  show ?case
  proof (cases "find_pane_mut a target new")
    case None
    with Split.prems obtain b' where b': "find_pane_mut b target new = Some b'"
      and n': "n' = Split d r a b'" by auto
    from Split.IH(2) [OF b'] obtain xs ys where
      "collect_ids b = xs @ target # ys" "target \<notin> set xs" "collect_ids b' = xs @ collect_ids new @ ys"
      by blast
    moreover from None have "target \<notin> set (collect_ids a)" by (simp add: find_pane_mut_None_iff)
    ultimately show ?thesis
      by (intro exI [of _ "collect_ids a @ xs"] exI [of _ ys]) (simp add: n')
  next
    case (Some a')
    with Split.prems have n': "n' = Split d r a' b" by simp
    from Split.IH(1) [OF Some] obtain xs ys where
      "collect_ids a = xs @ target # ys" "target \<notin> set xs" "collect_ids a' = xs @ collect_ids new @ ys"
      by blast
    then show ?thesis
      by (intro exI [of _ xs] exI [of _ "ys @ collect_ids b"]) (simp add: n')
  qed
qed

lemma remove_pane_ids:
  "(case remove_pane n target of None \<Rightarrow> [] | Some n' \<Rightarrow> collect_ids n')
     = filter (\<lambda>i. i \<noteq> target) (collect_ids n)"
  by (induction n) (auto split: option.splits)

lemma remove_pane_None_iff: "remove_pane n target = None \<longleftrightarrow> set (collect_ids n) = {target}"
proof -
  have "remove_pane n target = None \<longleftrightarrow> filter (\<lambda>i. i \<noteq> target) (collect_ids n) = []"
    using remove_pane_ids [of n target] by (auto split: option.splits)
  also have "\<dots> \<longleftrightarrow> set (collect_ids n) = {target}"
    using collect_ids_not_Nil [of n] by (cases "collect_ids n") (auto simp: filter_empty_conv)
  finally show ?thesis .
qed

lemma remove_pane_Some_ids:
  "remove_pane n target = Some n' \<Longrightarrow> collect_ids n' = filter (\<lambda>i. i \<noteq> target) (collect_ids n)"
  using remove_pane_ids [of n target] by simp

lemma remove_pane_absent: "target \<notin> set (collect_ids n) \<Longrightarrow> remove_pane n target = Some n"
  by (induction n) auto

lemma swap_pane_ids_ids:
  "collect_ids (swap_pane_ids n x y) =
     map (\<lambda>i. if i = x then y else if i = y then x else i) (collect_ids n)"
  by (induction n) auto

lemma swap_pane_ids_twice: "swap_pane_ids (swap_pane_ids n x y) x y = n"
  by (induction n) auto

lemma set_ratio_at_ids [simp]: "collect_ids (snd (set_ratio_at n path r)) = collect_ids n"
  by (induction n path r rule: set_ratio_at.induct) (auto split: prod.splits)

subsection \<open>Paths and ratios\<close>

lemma set_ratio_at_ok_iff: "fst (set_ratio_at n path r) \<longleftrightarrow> get_ratio_at n path \<noteq> None"
  by (induction n path r rule: set_ratio_at.induct) (auto split: prod.splits)

lemma get_set_ratio_at:
  "get_ratio_at (snd (set_ratio_at n path r)) q =
     (if q = path \<and> get_ratio_at n path \<noteq> None then Some r else get_ratio_at n q)"
proof (induction n path r arbitrary: q rule: set_ratio_at.induct)
  case (1 i path r')
  then show ?case by simp
next
  case (2 d r a b r')
  then show ?case by (cases q) auto
next
  case (3 d r a b p path r')
  show ?case
  proof (cases q)
    case Nil
    then show ?thesis by (auto split: prod.splits)
  next
    case (Cons q0 qs)
    then show ?thesis using 3 by (cases p) (auto split: prod.splits)
  qed
qed

lemma set_ratio_at_fail: "\<not> fst (set_ratio_at n path r) \<Longrightarrow> snd (set_ratio_at n path r) = n"
  by (induction n path r rule: set_ratio_at.induct) (auto split: prod.splits if_splits)

text \<open>A split's path, read from the root, leads to its ratio.\<close>

lemma collect_splits_path:
  "s \<in> set (collect_splits mk n area pre) \<Longrightarrow>
     \<exists>q. sb_path s = pre @ q \<and> get_ratio_at n q = Some (sb_ratio s)"
proof (induction n arbitrary: area pre)
  case (Pane i)
  then show ?case by simp
next
  case (Split d r a b)
  obtain ra rb where sp: "split_rect mk area d r = (ra, rb)" by (cases "split_rect mk area d r")
  with Split.prems consider "sb_path s = pre" "sb_ratio s = r"
    | "s \<in> set (collect_splits mk a ra (pre @ [False]))"
    | "s \<in> set (collect_splits mk b rb (pre @ [True]))" by auto
  then show ?case
  proof cases
    case 1
    then show ?thesis by (intro exI [of _ "[]"]) simp
  next
    case 2
    from Split.IH(1) [OF this] show ?thesis by force
  next
    case 3
    from Split.IH(2) [OF this] show ?thesis by force
  qed
qed

lemma split_ratios_from_mem:
  "(q, r) \<in> set (split_ratios_from n pre) \<longleftrightarrow> (\<exists>p. q = pre @ p \<and> get_ratio_at n p = Some r)"
proof (induction n arbitrary: pre)
  case (Pane i)
  then show ?case by simp
next
  case (Split d r' a b)
  have "(\<exists>p. q = pre @ p \<and> get_ratio_at (Split d r' a b) p = Some r) \<longleftrightarrow>
      (q = pre \<and> r = r') \<or> (\<exists>p. q = pre @ False # p \<and> get_ratio_at a p = Some r)
        \<or> (\<exists>p. q = pre @ True # p \<and> get_ratio_at b p = Some r)"
    (is "?L \<longleftrightarrow> ?R")
  proof
    assume ?L
    then obtain p where p: "q = pre @ p" "get_ratio_at (Split d r' a b) p = Some r" by blast
    then show ?R by (cases p) (auto split: if_splits)
  next
    assume ?R
    then show ?L
      by (elim disjE exE conjE)
         (auto intro: exI [of _ "[]"] exI [of _ "False # _"] exI [of _ "True # _"])
  qed
  then show ?case using Split.IH by auto
qed


subsection \<open>Geometry\<close>

definition rect_new_ok :: "rect_ctor \<Rightarrow> bool" where
  "rect_new_ok mk \<longleftrightarrow>
     (\<forall>x y w h. x + w \<le> 65535 \<longrightarrow> y + h \<le> 65535 \<longrightarrow>
        mk x y w h = \<lparr>rx = x, ry = y, rwidth = w, rheight = h\<rparr>)"

definition rect_ok :: "rect \<Rightarrow> bool" where
  "rect_ok r \<longleftrightarrow> rx r + rwidth r \<le> 65535 \<and> ry r + rheight r \<le> 65535"

definition in_rect :: "nat \<times> nat \<Rightarrow> rect \<Rightarrow> bool" where
  "in_rect c r \<longleftrightarrow> rx r \<le> fst c \<and> fst c < rx r + rwidth r \<and>
                  ry r \<le> snd c \<and> snd c < ry r + rheight r"

fun ratios_fit :: "node \<Rightarrow> bool" where
  "ratios_fit (Pane _) = True"
| "ratios_fit (Split _ r a b) = (ratio_fits r \<and> ratios_fit a \<and> ratios_fit b)"

text \<open>
  A split cuts the area in two: both halves stay inside the plane, together they hold
  exactly the cells of the area, and no cell is in both.
\<close>

lemma split_rect_partition:
  assumes "rect_new_ok mk" and "rect_ok area" and "ratio_fits r"
    and "split_rect mk area d r = (a, b)"
  shows "rect_ok a" and "rect_ok b"
    and "in_rect c area \<longleftrightarrow> in_rect c a \<or> in_rect c b"
    and "\<not> (in_rect c a \<and> in_rect c b)"
proof -
  have mk: "mk x y w h = \<lparr>rx = x, ry = y, rwidth = w, rheight = h\<rparr>"
    if "x + w \<le> 65535" and "y + h \<le> 65535" for x y w h
    using assms(1) that by (simp add: rect_new_ok_def)
  have *: "rect_ok a \<and> rect_ok b \<and> (in_rect c area \<longleftrightarrow> in_rect c a \<or> in_rect c b)
      \<and> \<not> (in_rect c a \<and> in_rect c b)"
  proof (cases d)
    case Horizontal
    define w where "w = f32_as_u16 (f32_round (f32_mul (f32_of_u16 (rwidth area)) r))"
    have w: "w \<le> rwidth area"
      unfolding w_def using assms(2,3) by (intro scaled_u16_le) (auto simp: rect_ok_def)
    with assms(2,4) Horizontal show ?thesis
      by (auto simp: rect_ok_def in_rect_def Let_def w_def [symmetric] mk)
  next
    case Vertical
    define h where "h = f32_as_u16 (f32_round (f32_mul (f32_of_u16 (rheight area)) r))"
    have h: "h \<le> rheight area"
      unfolding h_def using assms(2,3) by (intro scaled_u16_le) (auto simp: rect_ok_def)
    with assms(2,4) Vertical show ?thesis
      by (auto simp: rect_ok_def in_rect_def Let_def h_def [symmetric] mk)
  qed
  then show "rect_ok a" "rect_ok b" "in_rect c area \<longleftrightarrow> in_rect c a \<or> in_rect c b"
    "\<not> (in_rect c a \<and> in_rect c b)" by blast+
qed

lemma collect_panes_partition:
  assumes "rect_new_ok mk"
  shows "rect_ok area \<Longrightarrow> ratios_fit n \<Longrightarrow>
    length (filter (\<lambda>p. in_rect c (pi_rect p)) (collect_panes mk n area foc)) =
      (if in_rect c area then 1 else 0)"
proof (induction n arbitrary: area)
  case (Pane i)
  then show ?case by simp
next
  case (Split d r a b)
  obtain ra rb where sp: "split_rect mk area d r = (ra, rb)" by (cases "split_rect mk area d r")
  have r: "ratio_fits r" using Split.prems by simp
  note part = split_rect_partition [OF assms Split.prems(1) r sp]
  have "length (filter (\<lambda>p. in_rect c (pi_rect p)) (collect_panes mk a ra foc)) = (if in_rect c ra then 1 else 0)"
    using Split.IH(1) [OF part(1)] Split.prems(2) by simp
  moreover have "length (filter (\<lambda>p. in_rect c (pi_rect p)) (collect_panes mk b rb foc)) = (if in_rect c rb then 1 else 0)"
    using Split.IH(2) [OF part(2)] Split.prems(2) by simp
  ultimately show ?case using part(3,4) [of c] by (auto simp: sp)
qed

subsection \<open>Ratios stay in range\<close>

lemma min_ratio_value: "min_ratio = F32 (13421773 / 134217728)"
  by code_simp

lemma max_ratio_value: "max_ratio = F32 (7549747 / 8388608)"
  by code_simp

lemma half_ratio_value: "f32_rnd (1 / 2) = F32 (1 / 2)"
  by code_simp

lemmas ratio_values = min_ratio_value max_ratio_value half_ratio_value

lemma valid_split_ratio_fits: "ratio_fits (valid_split_ratio r)"
  by (cases r) (auto simp: valid_split_ratio_def ratio_values f32_clamp_def ratio_fits_def)

lemma set_ratio_at_fits:
  "ratios_fit n \<Longrightarrow> ratio_fits r \<Longrightarrow> ratios_fit (snd (set_ratio_at n path r))"
  by (induction n path r rule: set_ratio_at.induct) (auto split: prod.splits)

lemma find_pane_mut_fits:
  "find_pane_mut n target new = Some n' \<Longrightarrow> ratios_fit n \<Longrightarrow> ratios_fit new \<Longrightarrow> ratios_fit n'"
  by (induction n arbitrary: n') (auto split: if_splits option.splits)

lemma remove_pane_fits: "remove_pane n target = Some n' \<Longrightarrow> ratios_fit n \<Longrightarrow> ratios_fit n'"
  by (induction n arbitrary: n') (auto split: if_splits option.splits)

lemma swap_pane_ids_fits [simp]: "ratios_fit (swap_pane_ids n x y) = ratios_fit n"
  by (induction n) auto


subsection \<open>The invariant of a layout\<close>

text \<open>
  Identifiers are distinct, the focused pane is in the tree, the previous focus is another
  pane of the tree, and every ratio cuts its area.
\<close>

definition layout_inv :: "tile_layout \<Rightarrow> bool" where
  "layout_inv l \<longleftrightarrow> distinct (pane_ids l) \<and> tl_focus l \<in> set (pane_ids l) \<and>
     (\<forall>p. tl_prev_focus l = Some p \<longrightarrow> p \<noteq> tl_focus l \<and> p \<in> set (pane_ids l)) \<and>
     ratios_fit (tl_root l)"

lemma tile_new_inv: "layout_inv (fst (fst (tile_new c)))"
  by (simp add: tile_new_def pane_alloc_def layout_inv_def pane_ids_def)

lemma set_focus_ids [simp]: "pane_ids (set_focus l i) = pane_ids l"
  by (simp add: set_focus_def pane_ids_def)

lemma set_focus_root [simp]: "tl_root (set_focus l i) = tl_root l"
  by (simp add: set_focus_def)

lemma set_focus_inv: "layout_inv l \<Longrightarrow> i \<in> set (pane_ids l) \<Longrightarrow> layout_inv (set_focus l i)"
  by (auto simp: layout_inv_def set_focus_def pane_ids_def)

lemma focus_pane_inv: "layout_inv l \<Longrightarrow> layout_inv (focus_pane l i)"
  by (simp add: focus_pane_def set_focus_inv)

text \<open>Replacing one leaf by a split of it and a pane that is new to the tree.\<close>

lemma replace_leaf_inv:
  assumes "layout_inv l" and "new \<notin> set (pane_ids l)"
    and "find_pane_mut (tl_root l) target (split_node target d new (valid_split_ratio ratio)) = Some root'"
  shows "layout_inv (l\<lparr>tl_root := root'\<rparr>)"
    and "set (collect_ids root') = insert new (set (pane_ids l))"
proof -
  from find_pane_mut_ids [OF assms(3)] obtain xs ys where
    ids: "pane_ids l = xs @ target # ys" and ids': "collect_ids root' = xs @ target # new # ys"
    by (auto simp: split_node_def pane_ids_def)
  have "ratios_fit root'"
    using find_pane_mut_fits [OF assms(3)] assms(1)
    by (simp add: split_node_def valid_split_ratio_fits layout_inv_def)
  with assms(1,2) ids ids' show "layout_inv (l\<lparr>tl_root := root'\<rparr>)"
    by (auto simp: layout_inv_def pane_ids_def)
  show "set (collect_ids root') = insert new (set (pane_ids l))" using ids ids' by auto
qed

lemma split_pane_cases:
  assumes "split_pane c l target d ratio = ((res, l'), c')"
  obtains "target \<notin> set (pane_ids l)" "res = None" "l' = l" "c' = c"
  | root' where "target \<in> set (pane_ids l)" "res = Some c" "c' = wadd32 c 1"
      "find_pane_mut (tl_root l) target (split_node target d c (valid_split_ratio ratio)) = Some root'"
      "l' = l\<lparr>tl_root := root'\<rparr>"
proof (cases "find_pane_mut (tl_root l) target (split_node target d c (valid_split_ratio ratio))")
  case None
  then have "target \<notin> set (pane_ids l)" by (simp add: find_pane_mut_None_iff pane_ids_def)
  moreover from None assms have "res = None" "l' = l" "c' = c"
    by (simp_all add: split_pane_def pane_alloc_def)
  ultimately show ?thesis by (rule that(1))
next
  case (Some root')
  then have "target \<in> set (pane_ids l)"
    using find_pane_mut_None_iff [of "tl_root l" target "split_node target d c (valid_split_ratio ratio)"]
    by (simp add: pane_ids_def)
  moreover from Some assms have "res = Some c" "c' = wadd32 c 1" "l' = l\<lparr>tl_root := root'\<rparr>"
    by (simp_all add: split_pane_def pane_alloc_def)
  ultimately show ?thesis using Some by (intro that(2))
qed

lemma split_pane_inv:
  assumes "split_pane c l target d ratio = ((res, l'), c')" and "layout_inv l" and "c \<notin> set (pane_ids l)"
  shows "layout_inv l' \<and>
    set (pane_ids l') = (case res of None \<Rightarrow> set (pane_ids l) | Some i \<Rightarrow> insert i (set (pane_ids l)))"
  using assms(1)
proof (cases rule: split_pane_cases)
  case 1
  with assms(2) show ?thesis by simp
next
  case (2 root')
  with replace_leaf_inv [OF assms(2,3) 2(4)] show ?thesis by (simp add: pane_ids_def)
qed

lemma insert_pane_near_cases:
  assumes "insert_pane_near l target moved d ratio foc = (ok, l')"
  obtains "\<not> ok" "l' = l"
  | root' where "ok" "moved \<notin> set (pane_ids l)"
      "find_pane_mut (tl_root l) target (split_node target d moved (valid_split_ratio ratio)) = Some root'"
      "l' = (if foc then set_focus (l\<lparr>tl_root := root'\<rparr>) moved else l\<lparr>tl_root := root'\<rparr>)"
  using assms by (auto simp: insert_pane_near_def split: if_splits option.splits)

lemma insert_pane_near_inv:
  assumes "insert_pane_near l target moved d ratio foc = (ok, l')" and "layout_inv l"
  shows "layout_inv l' \<and>
    set (pane_ids l') = (if ok then insert moved (set (pane_ids l)) else set (pane_ids l))"
  using assms(1)
proof (cases rule: insert_pane_near_cases)
  case 1
  with assms(2) show ?thesis by simp
next
  case (2 root')
  note rep = replace_leaf_inv [OF assms(2) 2(2,3)]
  have "moved \<in> set (pane_ids (l\<lparr>tl_root := root'\<rparr>))" using rep(2) by (simp add: pane_ids_def)
  with rep(1) have "layout_inv l'" unfolding 2(4) by (simp add: set_focus_inv)
  moreover have "set (pane_ids l') = insert moved (set (pane_ids l))"
    unfolding 2(4) using rep(2) by (simp add: pane_ids_def)
  ultimately show ?thesis using 2(1) by simp
qed

definition swap_id :: "pane_id \<Rightarrow> pane_id \<Rightarrow> pane_id \<Rightarrow> pane_id" where
  "swap_id x y i = (if i = x then y else if i = y then x else i)"

lemma swap_id_inj: "inj_on (swap_id x y) S"
  by (auto simp: inj_on_def swap_id_def split: if_splits)

lemma swap_id_image: "x \<in> S \<Longrightarrow> y \<in> S \<Longrightarrow> swap_id x y ` S = S"
  by (auto simp: image_iff swap_id_def)

lemma swap_pane_ids_map: "collect_ids (swap_pane_ids n x y) = map (swap_id x y) (collect_ids n)"
  by (simp add: swap_pane_ids_ids swap_id_def [abs_def])

lemma swap_panes_ids: "set (pane_ids (snd (swap_panes l x y))) = set (pane_ids l)"
  by (simp add: swap_panes_def pane_ids_def swap_pane_ids_map swap_id_image)

lemma swap_panes_inv: "layout_inv l \<Longrightarrow> layout_inv (snd (swap_panes l x y))"
  by (simp add: swap_panes_def layout_inv_def pane_ids_def swap_pane_ids_map distinct_map
      swap_id_inj swap_id_image)


lemma remove_pane_exists:
  assumes "distinct (collect_ids n)" and "1 < count_panes n"
  obtains n' where "remove_pane n target = Some n'"
proof (cases "remove_pane n target")
  case None
  then have "set (collect_ids n) = {target}" by (simp add: remove_pane_None_iff)
  then have "length (collect_ids n) = 1" using assms(1) distinct_card by fastforce
  with assms(2) show ?thesis by (simp add: count_panes_length)
next
  case (Some n')
  then show ?thesis by (rule that)
qed

text \<open>
  Closing the focused pane of a layout with several panes never panics: the focus moves to
  another pane of the tree, the one it came from when that pane is still open.
\<close>

lemma close_focused_result:
  assumes inv: "layout_inv l" and many: "1 < pane_count l"
  obtains root' foc where
    "close_focused l = Some (True, l\<lparr>tl_root := root', tl_focus := foc, tl_prev_focus := None\<rparr>)"
    "remove_pane (tl_root l) (tl_focus l) = Some root'"
    "foc \<in> set (pane_ids l)" "foc \<noteq> tl_focus l"
    "\<And>p. tl_prev_focus l = Some p \<Longrightarrow> foc = p"
proof -
  let ?ids = "pane_ids l"
  have len: "1 < length ?ids" using many by (simp add: pane_count_def pane_ids_def count_panes_length)
  have dist: "distinct ?ids" and foc_in: "tl_focus l \<in> set ?ids" using inv by (simp_all add: layout_inv_def)
  obtain pos where pos: "position (\<lambda>i. i = tl_focus l) ?ids = Some pos"
    using position_Some_ex [OF foc_in, of "\<lambda>i. i = tl_focus l"] by auto
  then have p1: "pos < length ?ids" and p2: "?ids ! pos = tl_focus l" using position_SomeD by fastforce+
  define ordered where "ordered = (if pos + 1 < length ?ids then ?ids ! (pos + 1) else ?ids ! (pos - 1))"
  have "ordered \<in> set ?ids" using len p1 by (auto simp: ordered_def)
  moreover have "ordered \<noteq> tl_focus l"
    using len p1 dist unfolding p2 [symmetric] by (auto simp: ordered_def nth_eq_iff_index_eq)
  ultimately have ord: "ordered \<in> set ?ids" "ordered \<noteq> tl_focus l" by auto
  obtain root' where root': "remove_pane (tl_root l) (tl_focus l) = Some root'"
    using remove_pane_exists dist many by (auto simp: pane_ids_def pane_count_def)
  define foc where "foc = (case tl_prev_focus l of Some p \<Rightarrow> p | None \<Rightarrow> ordered)"
  have "close_focused l = Some (True, l\<lparr>tl_root := root', tl_focus := foc, tl_prev_focus := None\<rparr>)"
    using inv many pos root'
    by (cases "tl_prev_focus l")
       (auto simp: close_focused_def Let_def foc_def ordered_def layout_inv_def)
  moreover have "foc \<in> set ?ids" "foc \<noteq> tl_focus l"
    using inv ord by (auto simp: foc_def layout_inv_def split: option.splits)
  ultimately show ?thesis using root' by (intro that) (auto simp: foc_def)
qed

lemma close_focused_inv:
  assumes inv: "layout_inv l"
  obtains ok l' where "close_focused l = Some (ok, l')" "layout_inv l'"
    "ok \<longleftrightarrow> 1 < pane_count l"
    "pane_ids l' = (if ok then filter (\<lambda>i. i \<noteq> tl_focus l) (pane_ids l) else pane_ids l)"
proof (cases "1 < pane_count l")
  case True
  from close_focused_result [OF inv True] obtain root' foc where
    c: "close_focused l = Some (True, l\<lparr>tl_root := root', tl_focus := foc, tl_prev_focus := None\<rparr>)"
    and r: "remove_pane (tl_root l) (tl_focus l) = Some root'"
    and f: "foc \<in> set (pane_ids l)" "foc \<noteq> tl_focus l" by metis
  let ?l' = "l\<lparr>tl_root := root', tl_focus := foc, tl_prev_focus := None\<rparr>"
  have ids: "pane_ids ?l' = filter (\<lambda>i. i \<noteq> tl_focus l) (pane_ids l)"
    using remove_pane_Some_ids [OF r] by (simp add: pane_ids_def)
  have "layout_inv ?l'"
    using inv f remove_pane_fits [OF r] ids unfolding layout_inv_def by simp
  with c ids True show ?thesis by (intro that) auto
next
  case False
  then have "close_focused l = Some (False, l)" by (simp add: close_focused_def)
  with inv False show ?thesis by (intro that) auto
qed

lemma close_pane_inv:
  assumes inv: "layout_inv l"
  obtains ok l' where "close_pane l i = Some (ok, l')" "layout_inv l'"
    "ok \<longleftrightarrow> 1 < pane_count l \<and> i \<in> set (pane_ids l)"
    "pane_ids l' = (if ok then filter (\<lambda>j. j \<noteq> i) (pane_ids l) else pane_ids l)"
proof (cases "tl_focus l = i")
  case True
  from inv have "i \<in> set (pane_ids l)" unfolding layout_inv_def True [symmetric] by simp
  from close_focused_inv [OF inv] obtain ok l' where
    c: "close_focused l = Some (ok, l')" and "layout_inv l'" "ok \<longleftrightarrow> 1 < pane_count l"
    "pane_ids l' = (if ok then filter (\<lambda>i. i \<noteq> tl_focus l) (pane_ids l) else pane_ids l)" .
  with True \<open>i \<in> set (pane_ids l)\<close> show ?thesis by (intro that) (auto simp: close_pane_def)
next
  case other: False
  show ?thesis
  proof (cases "1 < pane_count l \<and> i \<in> set (pane_ids l)")
    case False
    then have "close_pane l i = Some (False, l)" using other by (auto simp: close_pane_def)
    with inv False show ?thesis by (intro that) auto
  next
    case True
    obtain root' where r: "remove_pane (tl_root l) i = Some root'"
      using remove_pane_exists inv True by (auto simp: layout_inv_def pane_ids_def pane_count_def)
    let ?l' = "l\<lparr>tl_root := root',
      tl_prev_focus := (if tl_prev_focus l = Some i then None else tl_prev_focus l)\<rparr>"
    have c: "close_pane l i = Some (True, ?l')" using other True r by (simp add: close_pane_def)
    have ids: "pane_ids ?l' = filter (\<lambda>j. j \<noteq> i) (pane_ids l)"
      using remove_pane_Some_ids [OF r] by (simp add: pane_ids_def)
    have "layout_inv ?l'"
      using inv other remove_pane_fits [OF r] ids unfolding layout_inv_def by auto
    with c ids True show ?thesis by (intro that) auto
  qed
qed

lemma layout_set_ratio_at_eq:
  "layout_set_ratio_at l path r =
     (fst (set_ratio_at (tl_root l) path (f32_clamp r min_ratio max_ratio)),
      l\<lparr>tl_root := snd (set_ratio_at (tl_root l) path (f32_clamp r min_ratio max_ratio))\<rparr>)"
  by (simp add: layout_set_ratio_at_def split: prod.split)

lemma layout_set_ratio_at_frame [simp]:
  "pane_ids (snd (layout_set_ratio_at l path r)) = pane_ids l"
  "tl_focus (snd (layout_set_ratio_at l path r)) = tl_focus l"
  "tl_prev_focus (snd (layout_set_ratio_at l path r)) = tl_prev_focus l"
  by (simp_all add: layout_set_ratio_at_eq pane_ids_def)

lemma layout_set_ratio_at_fits:
  "ratios_fit (tl_root l) \<Longrightarrow> ratios_fit (tl_root (snd (layout_set_ratio_at l path r)))"
  by (simp add: layout_set_ratio_at_eq set_ratio_at_fits ratio_fits_clamp ratio_values)

text \<open>A resize changes one ratio or nothing: identifiers and focus stay.\<close>

lemma resize_focused_changes:
  "resize_focused mk l nav delta area = l \<or>
   (\<exists>path r. resize_focused mk l nav delta area = snd (layout_set_ratio_at l path r))"
  unfolding resize_focused_def Let_def
  by (split option.split, intro conjI impI allI, rule disjI1, rule refl,
      split option.split, intro conjI impI allI, rule disjI1, rule refl,
      rule disjI2, intro exI, rule refl)

lemma resize_focused_cases:
  obtains "resize_focused mk l nav delta area = l"
  | path r where "resize_focused mk l nav delta area = snd (layout_set_ratio_at l path r)"
  using resize_focused_changes [of mk l nav delta area] by (elim disjE exE)

lemma resize_focused_frame [simp]:
  "pane_ids (resize_focused mk l nav delta area) = pane_ids l"
  "tl_focus (resize_focused mk l nav delta area) = tl_focus l"
  "tl_prev_focus (resize_focused mk l nav delta area) = tl_prev_focus l"
  by (rule resize_focused_cases [of mk l nav delta area]; simp)+

lemma resize_focused_fits:
  "ratios_fit (tl_root l) \<Longrightarrow> ratios_fit (tl_root (resize_focused mk l nav delta area))"
  by (rule resize_focused_cases [of mk l nav delta area]) (simp_all add: layout_set_ratio_at_fits)

lemma resize_pane_frame [simp]:
  "pane_ids (snd (resize_pane mk l i nav delta area)) = pane_ids l"
  "tl_focus (snd (resize_pane mk l i nav delta area)) = tl_focus l"
  "tl_prev_focus (snd (resize_pane mk l i nav delta area)) = tl_prev_focus l"
  using resize_focused_frame(1) [of mk "l\<lparr>tl_focus := i\<rparr>" nav delta area]
  by (simp_all add: resize_pane_def Let_def pane_ids_def)

lemma resize_pane_fits:
  "ratios_fit (tl_root l) \<Longrightarrow> ratios_fit (tl_root (snd (resize_pane mk l i nav delta area)))"
  by (simp add: resize_pane_def Let_def resize_focused_fits)

lemma layout_inv_frame:
  assumes "pane_ids l' = pane_ids l" "tl_focus l' = tl_focus l" "tl_prev_focus l' = tl_prev_focus l"
    and "ratios_fit (tl_root l) \<Longrightarrow> ratios_fit (tl_root l')"
  shows "layout_inv l \<Longrightarrow> layout_inv l'"
  using assms by (simp add: layout_inv_def)

lemma layout_set_ratio_at_inv: "layout_inv l \<Longrightarrow> layout_inv (snd (layout_set_ratio_at l path r))"
  by (rule layout_inv_frame) (simp_all add: layout_set_ratio_at_fits)

lemma resize_focused_inv: "layout_inv l \<Longrightarrow> layout_inv (resize_focused mk l nav delta area)"
  by (rule layout_inv_frame) (simp_all add: resize_focused_fits)

lemma resize_pane_inv: "layout_inv l \<Longrightarrow> layout_inv (snd (resize_pane mk l i nav delta area))"
  by (rule layout_inv_frame) (simp_all add: resize_pane_fits)

subsection \<open>Runs of operations\<close>

text \<open>
  One rule per operation of the layout, over the layout and the global pane counter.  A
  split takes the counter's value, which is below its maximum (the counter has not wrapped
  around); a pane that is moved in was allocated before.
\<close>

inductive layout_step :: "rect_ctor \<Rightarrow> tile_layout \<times> u32 \<Rightarrow> tile_layout \<times> u32 \<Rightarrow> bool"
  for mk :: rect_ctor where
  step_split: "c < u32_max \<Longrightarrow> split_pane c l target d ratio = ((res, l'), c') \<Longrightarrow>
     layout_step mk (l, c) (l', c')"
| step_insert: "moved < c \<Longrightarrow> insert_pane_near l target moved d ratio foc = (ok, l') \<Longrightarrow>
     layout_step mk (l, c) (l', c)"
| step_close: "close_pane l i = Some (ok, l') \<Longrightarrow> layout_step mk (l, c) (l', c)"
| step_focus: "layout_step mk (l, c) (focus_pane l i, c)"
| step_swap: "layout_step mk (l, c) (snd (swap_panes l x y), c)"
| step_ratio: "layout_step mk (l, c) (snd (layout_set_ratio_at l path r), c)"
| step_resize: "layout_step mk (l, c) (snd (resize_pane mk l i nav delta area), c)"

definition counted_inv :: "tile_layout \<times> u32 \<Rightarrow> bool" where
  "counted_inv s \<longleftrightarrow> layout_inv (fst s) \<and> (\<forall>i\<in>set (pane_ids (fst s)). i < snd s)"

lemma layout_step_inv:
  assumes "counted_inv s" and "layout_step mk s t"
  shows "counted_inv t"
  using assms(2)
proof (cases rule: layout_step.cases)
  case (step_split c l target d ratio res l' c')
  with assms(1) have inv: "layout_inv l" and below: "\<forall>i\<in>set (pane_ids l). i < c"
    by (simp_all add: counted_inv_def)
  then have "c \<notin> set (pane_ids l)" by auto
  note new = split_pane_inv [OF step_split(4) inv this]
  show ?thesis
    using step_split(4)
  proof (cases rule: split_pane_cases)
    case 1
    with step_split(2) new below show ?thesis by (simp add: counted_inv_def)
  next
    case (2 root')
    with step_split(2,3) new below show ?thesis
      by (auto simp: counted_inv_def wadd32_def u32_max_def)
  qed
next
  case (step_insert moved c l target d ratio foc ok l')
  with assms(1) insert_pane_near_inv [OF step_insert(4)] show ?thesis
    by (auto simp: counted_inv_def)
next
  case (step_close l i ok l' c)
  with assms(1) have inv: "layout_inv l" by (simp add: counted_inv_def)
  obtain ok' l'' where r: "close_pane l i = Some (ok', l'')" "layout_inv l''"
    "pane_ids l'' = (if ok' then filter (\<lambda>j. j \<noteq> i) (pane_ids l) else pane_ids l)"
    by (rule close_pane_inv [OF inv, of i])
  with step_close have "l'' = l'" by simp
  with r step_close(1,2) assms(1) show ?thesis by (auto simp: counted_inv_def)
next
  case (step_focus l c i)
  with assms(1) show ?thesis by (simp add: counted_inv_def focus_pane_inv) (simp add: focus_pane_def)
next
  case (step_swap l c x y)
  with assms(1) show ?thesis by (simp add: counted_inv_def swap_panes_inv swap_panes_ids)
next
  case (step_ratio l c path r)
  with assms(1) show ?thesis by (simp add: counted_inv_def layout_set_ratio_at_inv)
next
  case (step_resize l c i nav delta area)
  with assms(1) show ?thesis by (simp add: counted_inv_def resize_pane_inv)
qed

interpretation layout_run: kept_by_steps "layout_step mk" counted_inv
  by unfold_locales (rule layout_step_inv)

lemma tile_new_counted: "c < u32_max \<Longrightarrow> tile_new c = ((l, i), c') \<Longrightarrow> counted_inv (l, c')"
  using tile_new_inv [of c]
  by (auto simp: counted_inv_def tile_new_def pane_alloc_def wadd32_def u32_max_def pane_ids_def)

subsection \<open>Splitting: the predicted and the actual geometry\<close>

lemma find_pane_mut_panes:
  "find_pane_mut n target new = Some n' \<Longrightarrow>
    \<exists>xs area' ys. collect_panes mk n area foc = xs @ collect_panes mk (Pane target) area' foc @ ys
      \<and> (\<forall>x\<in>set xs. pi_id x \<noteq> target)
      \<and> collect_panes mk n' area foc = xs @ collect_panes mk new area' foc @ ys"
proof (induction n arbitrary: n' area)
  case (Pane i)
  then show ?case
    by (intro exI [of _ "[]"] exI [of _ area] exI [of _ "[]"]) (auto split: if_splits)
next
  case (Split d r a b)
  obtain ra rb where sp: "split_rect mk area d r = (ra, rb)" by (cases "split_rect mk area d r")
  show ?case
  proof (cases "find_pane_mut a target new")
    case None
    with Split.prems obtain b' where b': "find_pane_mut b target new = Some b'"
      and n': "n' = Split d r a b'" by auto
    from Split.IH(2) [OF b', of rb] obtain xs area' ys where *:
      "collect_panes mk b rb foc = xs @ collect_panes mk (Pane target) area' foc @ ys"
      "\<forall>x\<in>set xs. pi_id x \<noteq> target"
      "collect_panes mk b' rb foc = xs @ collect_panes mk new area' foc @ ys" by blast
    from None have "target \<notin> set (map pi_id (collect_panes mk a ra foc))"
      by (simp add: find_pane_mut_None_iff collect_panes_ids)
    with * show ?thesis
      by (intro exI [of _ "collect_panes mk a ra foc @ xs"] exI [of _ area'] exI [of _ ys])
         (auto simp: n' sp)
  next
    case (Some a')
    with Split.prems have n': "n' = Split d r a' b" by simp
    from Split.IH(1) [OF Some, of ra] obtain xs area' ys where
      "collect_panes mk a ra foc = xs @ collect_panes mk (Pane target) area' foc @ ys"
      "\<forall>x\<in>set xs. pi_id x \<noteq> target"
      "collect_panes mk a' ra foc = xs @ collect_panes mk new area' foc @ ys" by blast
    then show ?thesis
      by (intro exI [of _ xs] exI [of _ area'] exI [of _ "ys @ collect_panes mk b rb foc"])
         (auto simp: n' sp)
  qed
qed

lemma panes_after_split_eq:
  assumes inv: "layout_inv l" and fresh: "c \<notin> set (pane_ids l)"
    and sp: "split_pane c l target d ratio = ((Some new, l'), c')"
  shows "\<exists>ps k. panes_after_split mk l area target d ratio = Some (ps, k) \<and> k < length ps \<and>
    pi_id (ps ! k) = target \<and> panes mk l' area = ps[k := (ps ! k)\<lparr>pi_id := new\<rparr>]"
proof -
  from sp obtain root' where new: "new = c" and l': "l' = l\<lparr>tl_root := root'\<rparr>"
    and f: "find_pane_mut (tl_root l) target (split_node target d c (valid_split_ratio ratio)) = Some root'"
    by (cases rule: split_pane_cases) auto
  from find_pane_mut_panes [OF f, of mk area "tl_focus l"] obtain xs area' ys where
    before: "panes mk l area = xs @ collect_panes mk (Pane target) area' (tl_focus l) @ ys"
    and xs: "\<forall>x\<in>set xs. pi_id x \<noteq> target"
    and after: "panes mk l' area = xs @ collect_panes mk (split_node target d c (valid_split_ratio ratio)) area' (tl_focus l) @ ys"
    unfolding panes_def l' by auto
  obtain r1 r2 where s: "split_rect mk area' d (valid_split_ratio ratio) = (r1, r2)"
    by (cases "split_rect mk area' d (valid_split_ratio ratio)")
  have foc: "tl_focus l \<noteq> c" using inv fresh by (auto simp: layout_inv_def)
  have "position (\<lambda>p. pi_id p = target) (panes mk l area) = Some (length xs)"
    unfolding before using xs by (simp add: position_append)
  then show ?thesis
    using s foc unfolding panes_after_split_def after new before
    by (auto simp: Let_def vec_insert_def split_node_def nth_append list_update_append)
qed


lemma remove_after_split:
  "find_pane_mut n target (split_node target d new r) = Some n' \<Longrightarrow>
   new \<notin> set (collect_ids n) \<Longrightarrow> remove_pane n' new = Some n"
proof (induction n arbitrary: n')
  case (Pane i)
  then show ?case by (auto simp: split_node_def split: if_splits)
next
  case (Split e q a b)
  then show ?case by (auto simp: remove_pane_absent split: option.splits)
qed

lemma enumerate_mem_iff: "(k, p) \<in> set (List.enumerate 0 ps) \<longleftrightarrow> k < length ps \<and> p = ps ! k"
  by (auto simp: in_set_enumerate_eq)

lemma f32_eq_imp: "f32_eq x y \<Longrightarrow> x = y"
  by (cases x) auto

lemma split_ratios_eq_imp: "split_ratios_eq xs ys \<Longrightarrow> xs = ys"
  unfolding split_ratios_eq_def
  by (induction rule: list_all2_induct) (auto dest: f32_eq_imp)

fun no_nan :: "node \<Rightarrow> bool" where
  "no_nan (Pane _) = True"
| "no_nan (Split _ r a b) = (r \<noteq> F32NaN \<and> no_nan a \<and> no_nan b)"

lemma f32_eq_refl: "x \<noteq> F32NaN \<Longrightarrow> f32_eq x x"
  by (cases x) auto

lemma split_ratios_eq_refl: "no_nan n \<Longrightarrow> split_ratios_eq (split_ratios_from n pre) (split_ratios_from n pre)"
  unfolding split_ratios_eq_def
  by (induction n arbitrary: pre) (auto intro: list_all2_appendI f32_eq_refl)

lemma split_ratios_from_length_set_ratio_at [simp]:
  "length (split_ratios_from (snd (set_ratio_at n path r)) pre) = length (split_ratios_from n pre)"
  by (induction n path r arbitrary: pre rule: set_ratio_at.induct) (auto split: prod.splits)

lemma set_ratio_at_unchanged:
  "split_ratios_from (snd (set_ratio_at n path r)) pre = split_ratios_from n pre \<Longrightarrow>
   snd (set_ratio_at n path r) = n"
proof (induction n path r arbitrary: pre rule: set_ratio_at.induct)
  case (3 d r a b p path r')
  show ?case
  proof (cases p)
    case True
    with 3(3) 3(1) [OF True, of "pre @ [True]"] show ?thesis by (auto split: prod.splits)
  next
    case False
    obtain ok a' where a': "set_ratio_at a path r' = (ok, a')" by (cases "set_ratio_at a path r'")
    have "length (split_ratios_from a' (pre @ [False])) = length (split_ratios_from a (pre @ [False]))"
      using split_ratios_from_length_set_ratio_at [of a path r'] by (simp add: a')
    with False 3(3) have "split_ratios_from a' (pre @ [False]) = split_ratios_from a (pre @ [False])"
      by (simp add: a')
    with 3(2) [OF False, of "pre @ [False]"] False show ?thesis by (simp add: a')
  qed
qed auto

lemma resize_pane_cases:
  assumes "resize_pane mk l i nav delta area = (ok, l')"
  obtains "i \<notin> set (pane_ids l)" "\<not> ok" "l' = l"
  | "i \<in> set (pane_ids l)" "l' = l"
      "ok \<longleftrightarrow> \<not> split_ratios_eq (split_ratios (tl_root l)) (split_ratios (tl_root l))"
  | path r where "i \<in> set (pane_ids l)"
      "l' = l\<lparr>tl_root := snd (set_ratio_at (tl_root l) path (f32_clamp r min_ratio max_ratio))\<rparr>"
      "ok \<longleftrightarrow> \<not> split_ratios_eq (split_ratios (tl_root l')) (split_ratios (tl_root l))"
proof (cases "i \<in> set (pane_ids l)")
  case False
  with assms have "\<not> ok" "l' = l" by (simp_all add: resize_pane_def)
  with False show ?thesis by (rule that(1))
next
  case True
  then have eq: "l' = (resize_focused mk (l\<lparr>tl_focus := i\<rparr>) nav delta area)\<lparr>tl_focus := tl_focus l\<rparr>"
    "ok \<longleftrightarrow> \<not> split_ratios_eq (split_ratios (tl_root l')) (split_ratios (tl_root l))"
    using assms by (auto simp: resize_pane_def Let_def)
  show ?thesis
  proof (rule resize_focused_cases [of mk "l\<lparr>tl_focus := i\<rparr>" nav delta area])
    assume "resize_focused mk (l\<lparr>tl_focus := i\<rparr>) nav delta area = l\<lparr>tl_focus := i\<rparr>"
    with eq have "l' = l" by simp
    with eq(2) True show ?thesis by (intro that(2)) simp_all
  next
    fix path r
    assume "resize_focused mk (l\<lparr>tl_focus := i\<rparr>) nav delta area =
      snd (layout_set_ratio_at (l\<lparr>tl_focus := i\<rparr>) path r)"
    with eq(1) have "l' = l\<lparr>tl_root := snd (set_ratio_at (tl_root l) path (f32_clamp r min_ratio max_ratio))\<rparr>"
      by (simp add: layout_set_ratio_at_eq)
    with eq(2) True show ?thesis by (intro that(3))
  qed
qed

section \<open>Properties of the layout\<close>

definition plain_rect :: rect_ctor where
  "plain_rect x y w h = \<lparr>rx = x, ry = y, rwidth = w, rheight = h\<rparr>"

lemma plain_rect_ok [simp]: "rect_new_ok plain_rect"
  by (simp add: rect_new_ok_def plain_rect_def)

definition pair_layout :: tile_layout where
  "pair_layout = \<lparr>tl_root = Split Horizontal (f32_rnd (1 / 2)) (Pane 1) (Pane 2), tl_focus = 1,
     tl_prev_focus = Some 2\<rparr>"

lemma half_of_80: "f32_as_u16 (f32_round (f32_mul (f32_of_u16 80) (F32 (1 / 2)))) = 40"
  by code_simp

lemma pair_layout_panes:
  "panes plain_rect pair_layout (plain_rect 0 0 80 24) =
    [\<lparr>pi_id = 1, pi_rect = plain_rect 0 0 40 24, pi_inner_rect = plain_rect 0 0 40 24,
      pi_scrollbar_rect = None, pi_is_focused = True\<rparr>,
     \<lparr>pi_id = 2, pi_rect = plain_rect 40 0 40 24, pi_inner_rect = plain_rect 40 0 40 24,
      pi_scrollbar_rect = None, pi_is_focused = False\<rparr>]"
  by (simp add: panes_def pair_layout_def half_ratio_value half_of_80 plain_rect_def)

lemma pair_layout_splits:
  "splits plain_rect pair_layout (plain_rect 0 0 80 24) =
    [\<lparr>sb_pos = 40, sb_direction = Horizontal, sb_ratio = F32 (1 / 2), sb_area = plain_rect 0 0 80 24, sb_path = []\<rparr>]"
  by (simp add: splits_def pair_layout_def half_ratio_value half_of_80 plain_rect_def)

lemma pair_layout_inv [simp]: "layout_inv pair_layout"
  by (simp add: pair_layout_def layout_inv_def pane_ids_def half_ratio_value ratio_fits_def)

text \<open>
  C1. Whatever sequence of splits, insertions, closes, focus moves, swaps, ratio changes and
  resizes a new layout goes through, its pane identifiers stay distinct, the focused pane
  and the remembered previous pane are panes of the tree (and different ones), and every
  ratio divides its area.
\<close>

theorem layout_run_wellformed:
  assumes "c < u32_max" and "tile_new c = ((l, i), c1)" and "(layout_step mk)\<^sup>*\<^sup>* (l, c1) (l', c2)"
  shows "layout_inv l'"
  using layout_run.run_keeps [OF assms(3) tile_new_counted [OF assms(1,2)]]
  by (simp add: counted_inv_def)

theorem layout_run_wellformed_witness:
  "layout_inv \<lparr>tl_root = Split Horizontal (F32 (1 / 2)) (Pane 1) (Pane 2), tl_focus = 1, tl_prev_focus = None\<rparr>"
proof -
  let ?l = "\<lparr>tl_root = Pane 1, tl_focus = 1, tl_prev_focus = None\<rparr>"
  let ?l' = "\<lparr>tl_root = Split Horizontal (F32 (1 / 2)) (Pane 1) (Pane 2), tl_focus = 1, tl_prev_focus = None\<rparr>"
  have "split_pane 2 ?l 1 Horizontal (F32 (1 / 2)) = ((Some 2, ?l'), 3)"
    by (simp add: split_pane_def pane_alloc_def wadd32_def split_node_def valid_split_ratio_def
        f32_clamp_def ratio_values)
  then have "layout_step plain_rect (?l, 2) (?l', 3)"
    by (intro step_split) (simp_all add: u32_max_def)
  then have run: "(layout_step plain_rect)\<^sup>*\<^sup>* (?l, 2) (?l', 3)" by (rule r_into_rtranclp)
  have new: "tile_new 1 = ((?l, 1), 2)" by (simp add: tile_new_def pane_alloc_def wadd32_def)
  have "(1::nat) < u32_max" by (simp add: u32_max_def)
  from layout_run_wellformed [OF this new run] show ?thesis .
qed

text \<open>
  C2. The panes of a well-formed layout tile the area: every cell of the area lies in the
  rectangle of exactly one pane, and no pane has a cell outside the area.
\<close>

theorem panes_tile_area:
  assumes "rect_new_ok mk" and "rect_ok area" and "layout_inv l"
  shows "length (filter (\<lambda>p. in_rect c (pi_rect p)) (panes mk l area)) = (if in_rect c area then 1 else 0)"
  using collect_panes_partition [OF assms(1,2)] assms(3) by (simp add: panes_def layout_inv_def)

theorem panes_tile_area_witness:
  "length (filter (\<lambda>p. in_rect (7, 3) (pi_rect p)) (panes plain_rect pair_layout (plain_rect 0 0 11 5))) = 1"
proof -
  have "rect_ok (plain_rect 0 0 11 5)" by (simp add: rect_ok_def plain_rect_def)
  from panes_tile_area [OF plain_rect_ok this pair_layout_inv, of "(7, 3)"] show ?thesis
    by (simp add: in_rect_def plain_rect_def)
qed

text \<open>
  C3. The geometry predicted before a split is the geometry the split produces: the
  prediction lists the rectangles of the split layout in the same order, with the target's
  identifier standing in for the new pane at the reported index.
\<close>

theorem panes_after_split_predicts:
  assumes "layout_inv l" and "c \<notin> set (pane_ids l)"
    and "split_pane c l target d ratio = ((Some new, l'), c')"
  shows "\<exists>ps k. panes_after_split mk l area target d ratio = Some (ps, k) \<and> k < length ps \<and>
    pi_id (ps ! k) = target \<and> panes mk l' area = ps[k := (ps ! k)\<lparr>pi_id := new\<rparr>]"
  using assms by (rule panes_after_split_eq)

theorem panes_after_split_predicts_witness:
  "\<exists>l'. split_pane 3 pair_layout 2 Vertical (F32 (1 / 4)) = ((Some 3, l'), 4) \<and>
    (\<exists>ps k. panes_after_split plain_rect pair_layout (plain_rect 0 0 80 24) 2 Vertical (F32 (1 / 4)) = Some (ps, k) \<and>
      k < length ps \<and> pi_id (ps ! k) = 2 \<and>
      panes plain_rect l' (plain_rect 0 0 80 24) = ps[k := (ps ! k)\<lparr>pi_id := 3\<rparr>])"
proof -
  have fresh: "3 \<notin> set (pane_ids pair_layout)" by (simp add: pair_layout_def pane_ids_def)
  obtain l' where sp: "split_pane 3 pair_layout 2 Vertical (F32 (1 / 4)) = ((Some 3, l'), 4)"
    by (simp add: split_pane_def pair_layout_def pane_alloc_def wadd32_def)
  from panes_after_split_predicts [OF pair_layout_inv fresh sp, of plain_rect "plain_rect 0 0 80 24"] sp
  show ?thesis by blast
qed

text \<open>
  C4. Closing the pane a split created undoes the split: the tree and the focus are those
  from before, for any target, direction and ratio.
\<close>

theorem close_undoes_split:
  assumes "layout_inv l" and "c \<notin> set (pane_ids l)"
    and "split_pane c l target d ratio = ((Some new, l'), c')"
  shows "close_pane l' new = Some (True, l)"
proof -
  from assms(3) obtain root' where new: "new = c" and l': "l' = l\<lparr>tl_root := root'\<rparr>"
    and f: "find_pane_mut (tl_root l) target (split_node target d c (valid_split_ratio ratio)) = Some root'"
    by (cases rule: split_pane_cases) auto
  note ids = replace_leaf_inv(2) [OF assms(1,2) f]
  have "remove_pane root' c = Some (tl_root l)"
    using remove_after_split [OF f] assms(2) by (simp add: pane_ids_def)
  moreover have "tl_focus l \<noteq> c" "tl_prev_focus l \<noteq> Some c" "tl_focus l \<in> set (collect_ids root')"
    using assms(1,2) ids by (auto simp: layout_inv_def)
  moreover have "1 < count_panes root'"
  proof -
    have "{c, tl_focus l} \<subseteq> set (collect_ids root')" using ids calculation(4) by simp
    then have "card {c, tl_focus l} \<le> length (collect_ids root')"
      by (meson List.finite_set card_length card_mono order_trans)
    with calculation(2) show ?thesis by (simp add: count_panes_length)
  qed
  ultimately show ?thesis
    using ids by (simp add: close_pane_def l' new pane_count_def pane_ids_def)
qed

theorem close_undoes_split_witness:
  "\<exists>l'. split_pane 3 pair_layout 1 Vertical F32NaN = ((Some 3, l'), 4) \<and> close_pane l' 3 = Some (True, pair_layout)"
proof -
  have fresh: "3 \<notin> set (pane_ids pair_layout)" by (simp add: pair_layout_def pane_ids_def)
  obtain l' where sp: "split_pane 3 pair_layout 1 Vertical F32NaN = ((Some 3, l'), 4)"
    by (simp add: split_pane_def pair_layout_def pane_alloc_def wadd32_def)
  from close_undoes_split [OF pair_layout_inv fresh sp] sp show ?thesis by blast
qed


text \<open>
  Closing the focused pane of a layout with more than one pane succeeds, takes exactly
  that pane out of the order of panes, and leaves the focus on a remaining pane: the one
  that was focused before, whenever one is remembered.
\<close>

theorem close_focused_moves_focus:
  assumes "layout_inv l" and "1 < pane_count l"
  shows "\<exists>l'. close_focused l = Some (True, l') \<and>
    pane_ids l' = filter (\<lambda>i. i \<noteq> tl_focus l) (pane_ids l) \<and>
    tl_focus l' \<in> set (pane_ids l') \<and> tl_prev_focus l' = None \<and>
    (\<forall>p. tl_prev_focus l = Some p \<longrightarrow> tl_focus l' = p)"
proof -
  obtain root' foc where
    c: "close_focused l = Some (True, l\<lparr>tl_root := root', tl_focus := foc, tl_prev_focus := None\<rparr>)"
    and r: "remove_pane (tl_root l) (tl_focus l) = Some root'"
    and f: "foc \<in> set (pane_ids l)" "foc \<noteq> tl_focus l" "\<And>p. tl_prev_focus l = Some p \<Longrightarrow> foc = p"
    using close_focused_result [OF assms] by metis
  from c f remove_pane_Some_ids [OF r] show ?thesis by (simp add: pane_ids_def)
qed

theorem close_focused_moves_focus_witness:
  "\<exists>l'. close_focused pair_layout = Some (True, l') \<and> pane_ids l' = [2] \<and> tl_focus l' = 2"
proof -
  have "1 < pane_count pair_layout" by (simp add: pair_layout_def pane_count_def)
  from close_focused_moves_focus [OF pair_layout_inv this] show ?thesis
    by (auto simp: pair_layout_def pane_ids_def)
qed



text \<open>
  Every divider the layout reports can be dragged: setting the ratio at its path
  succeeds, stores the requested ratio clamped to the allowed range, and changes neither
  another divider's ratio nor the panes.
\<close>

theorem drag_divider_sets_ratio:
  assumes "s \<in> set (splits mk l area)"
  shows "\<exists>l'. layout_set_ratio_at l (sb_path s) r = (True, l') \<and>
    get_ratio_at (tl_root l') (sb_path s) = Some (f32_clamp r min_ratio max_ratio) \<and>
    (\<forall>q. q \<noteq> sb_path s \<longrightarrow> get_ratio_at (tl_root l') q = get_ratio_at (tl_root l) q) \<and>
    pane_ids l' = pane_ids l \<and> tl_focus l' = tl_focus l"
proof -
  from collect_splits_path [of s mk "tl_root l" area "[]"] assms
  have "get_ratio_at (tl_root l) (sb_path s) = Some (sb_ratio s)" by (simp add: splits_def)
  then show ?thesis
    by (simp add: layout_set_ratio_at_eq set_ratio_at_ok_iff get_set_ratio_at pane_ids_def)
qed

theorem drag_divider_sets_ratio_witness:
  "\<exists>l'. layout_set_ratio_at pair_layout [] (F32 5) = (True, l') \<and> get_ratio_at (tl_root l') [] = Some max_ratio"
proof -
  have "\<lparr>sb_pos = 40, sb_direction = Horizontal, sb_ratio = F32 (1 / 2), sb_area = plain_rect 0 0 80 24, sb_path = []\<rparr>
      \<in> set (splits plain_rect pair_layout (plain_rect 0 0 80 24))" by (simp add: pair_layout_splits)
  from drag_divider_sets_ratio [OF this, of "F32 5"] show ?thesis
    by (auto simp: f32_clamp_def ratio_values)
qed

text \<open>
  Resizing a pane of a layout with no undefined ratio reports a change exactly when the
  layout changed; it never touches the focus or the panes, and at most one divider moves.
\<close>

theorem resize_pane_reports_change:
  assumes "no_nan (tl_root l)" and "resize_pane mk l i nav delta area = (ok, l')"
  shows "(ok \<longleftrightarrow> l' \<noteq> l) \<and> pane_ids l' = pane_ids l \<and> tl_focus l' = tl_focus l \<and>
    (\<exists>path. \<forall>q. q \<noteq> path \<longrightarrow> get_ratio_at (tl_root l') q = get_ratio_at (tl_root l) q)"
proof -
  have refl: "split_ratios_eq (split_ratios (tl_root l)) (split_ratios (tl_root l))"
    using split_ratios_eq_refl [OF assms(1)] by (simp add: split_ratios_def)
  from assms(2) show ?thesis
  proof (cases rule: resize_pane_cases)
    case 1
    then show ?thesis by simp
  next
    case 2
    with refl show ?thesis by simp
  next
    case (3 path r)
    let ?root = "snd (set_ratio_at (tl_root l) path (f32_clamp r min_ratio max_ratio))"
    have "split_ratios_eq (split_ratios ?root) (split_ratios (tl_root l)) \<longleftrightarrow> ?root = tl_root l"
      using refl set_ratio_at_unchanged [of "tl_root l" path _ "[]"] split_ratios_eq_imp
      by (metis split_ratios_def)
    moreover have "l' = l \<longleftrightarrow> ?root = tl_root l" unfolding 3(2) by (cases l) auto
    ultimately have "ok \<longleftrightarrow> l' \<noteq> l" using 3(2,3) by simp
    then show ?thesis by (auto simp: 3(2) pane_ids_def get_set_ratio_at intro!: exI [of _ path])
  qed
qed

theorem resize_pane_reports_change_witness:
  "\<exists>l'. resize_pane plain_rect pair_layout 1 NavRight (F32 (1 / 8)) (plain_rect 0 0 80 24) = (True, l') \<and> l' \<noteq> pair_layout"
proof -
  have nan: "no_nan (tl_root pair_layout)" by (simp add: pair_layout_def half_ratio_value)
  have sum: "f32_rnd (5 / 8) = F32 (5 / 8)" by code_simp
  have "pair_layout\<lparr>tl_focus := 1\<rparr> = pair_layout" by (simp add: pair_layout_def)
  moreover have "tl_root (resize_focused plain_rect pair_layout NavRight (F32 (1 / 8)) (plain_rect 0 0 80 24)) =
      Split Horizontal (F32 (5 / 8)) (Pane 1) (Pane 2)"
    unfolding resize_focused_def pair_layout_panes pair_layout_splits
    by (simp add: nearest_resize_split_def plain_rect_def ranges_overlap_def split_on_requested_edge_def
        abs_diff_def layout_set_ratio_at_eq)
       (simp add: pair_layout_def half_ratio_value sum f32_clamp_def ratio_values)
  ultimately have "snd (resize_pane plain_rect pair_layout 1 NavRight (F32 (1 / 8)) (plain_rect 0 0 80 24)) \<noteq> pair_layout"
    by (auto simp: resize_pane_def Let_def pair_layout_def pane_ids_def half_ratio_value
        dest!: arg_cong [of _ _ tl_root])
  moreover obtain ok l' where
    r: "resize_pane plain_rect pair_layout 1 NavRight (F32 (1 / 8)) (plain_rect 0 0 80 24) = (ok, l')"
    by (cases "resize_pane plain_rect pair_layout 1 NavRight (F32 (1 / 8)) (plain_rect 0 0 80 24)")
  ultimately show ?thesis using resize_pane_reports_change [OF nan r] by simp
qed

end
