(* ===== verification/Surface.thy ===== *)
theory Surface
  imports Prelude
begin

section \<open>Rendered pane surfaces\<close>

text \<open>
  The wire types of \<open>src/src/protocol/wire.rs\<close> that describe a rendered surface: cells,
  frames, panes, split handles, the popup and the graphics scene, together with patch rows
  and the messages that carry them.  Strings are character lists, integers natural numbers.
  A result is an error message, a panic (an index or slice out of range) or a value.
\<close>

datatype failure = Err string | Panic

type_synonym 'a result = "failure + 'a"

definition rthen :: "'a result \<Rightarrow> ('a \<Rightarrow> 'b result) \<Rightarrow> 'b result" where
  "rthen r f = (case r of Inl e \<Rightarrow> Inl e | Inr x \<Rightarrow> f x)"

lemma rthen_simps [simp]: "rthen (Inl e) f = Inl e" "rthen (Inr x) f = f x"
  by (simp_all add: rthen_def)

lemma rthen_Inr_iff: "rthen r f = Inr y \<longleftrightarrow> (\<exists>x. r = Inr x \<and> f x = Inr y)"
  by (cases r) auto

record cell_data =
  cd_symbol :: string
  cd_fg :: u32
  cd_bg :: u32
  cd_modifier :: u16
  cd_skip :: bool
  cd_hyperlink :: "u32 option"

record cursor_state =
  cs_x :: u16
  cs_y :: u16
  cs_visible :: bool
  cs_shape :: nat

record frame_data =
  fd_cells :: "cell_data list"
  fd_width :: u16
  fd_height :: u16
  fd_cursor :: "cursor_state option"
  fd_hyperlinks :: "string list"
  fd_graphics :: "nat list"

record surface_rect =
  sr_x :: u16
  sr_y :: u16
  sr_width :: u16
  sr_height :: u16

record scroll_metrics =
  sm_offset_from_bottom :: u64
  sm_max_offset_from_bottom :: u64
  sm_viewport_rows :: u64

record surface_pane =
  sp_pane_id :: string
  sp_content_revision :: u64
  sp_rect :: surface_rect
  sp_inner_rect :: surface_rect
  sp_scrollbar_rect :: "surface_rect option"
  sp_scroll :: "scroll_metrics option"
  sp_focused :: bool
  sp_mouse_reporting :: bool
  sp_sgr_pixel_mouse :: bool
  sp_alternate_screen_active :: bool
  sp_pixel_width :: u32
  sp_pixel_height :: u32

datatype split_direction = SplitHorizontal | SplitVertical

record surface_split =
  ss_direction :: split_direction
  ss_pos :: u16
  ss_area :: surface_rect
  ss_hit_rect :: surface_rect
  ss_path :: "bool list"

datatype graphics_target = TargetPane string | TargetPopup string

datatype graphics_source = SourceTerminal graphics_target u32 | SourcePaneLayer string string

datatype graphics_format = FormatRgb | FormatRgba | FormatPng

record asset_key =
  ak_source :: graphics_source
  ak_image_width :: u32
  ak_image_height :: u32
  ak_format :: graphics_format
  ak_data_len :: u64
  ak_data_fingerprint :: u64

record graphics_asset =
  ga_key :: asset_key
  ga_data :: "nat list"

record graphics_placement =
  gp_asset :: asset_key
  gp_logical_placement_id :: u32
  gp_x :: u16
  gp_y :: u16
  gp_cols :: u32
  gp_rows :: u32
  gp_source_x :: u32
  gp_source_y :: u32
  gp_source_width :: u32
  gp_source_height :: u32
  gp_x_offset :: u32
  gp_y_offset :: u32
  gp_z :: int
  gp_scrollback_offset :: u32

record graphics_scene =
  gs_assets :: "graphics_asset list"
  gs_placements :: "graphics_placement list"
  gs_retained_assets :: "asset_key list"

datatype popup_size = PopupCells u16 | PopupPercent nat

record popup_surface =
  ps_terminal_id :: string
  ps_title :: string
  ps_width :: "popup_size option"
  ps_height :: "popup_size option"
  ps_frame :: frame_data
  ps_mouse_reporting :: bool
  ps_sgr_pixel_mouse :: bool
  ps_pixel_width :: u32
  ps_pixel_height :: u32

record pane_surface =
  pf_boot_id :: string
  pf_projection_revision :: u64
  pf_surface_revision :: u64
  pf_frame :: frame_data
  pf_panes :: "surface_pane list"
  pf_splits :: "surface_split list"
  pf_popup :: "popup_surface option"
  pf_graphics :: graphics_scene

record patch_row =
  pr_x :: u16
  pr_y :: u16
  pr_cells :: "cell_data list"

record surface_patch =
  sq_boot_id :: string
  sq_projection_revision :: u64
  sq_base_surface_revision :: u64
  sq_surface_revision :: u64
  sq_rows :: "patch_row list"
  sq_panes :: "surface_pane list"
  sq_cursor :: "cursor_state option"
  sq_hyperlink_uris :: "string list"

text \<open>The messages of the server that carry a surface; every other one is opaque.\<close>

datatype server_message =
    MsgPaneSurface pane_surface
  | MsgPaneSurfacePatch surface_patch
  | MsgEndpointControl string string
  | MsgOther nat

definition MAX_FRAME_SIZE :: nat where
  "MAX_FRAME_SIZE = 2 * 1024 * 1024"

definition MAX_GRAPHICS_FRAME_SIZE :: nat where
  "MAX_GRAPHICS_FRAME_SIZE = 32 * 1024 * 1024"

subsection \<open>Writing a slice\<close>

text \<open>
  \<open>cells[start..start + row.cells.len()].clone_from_slice(&row.cells)\<close>: a slice that ends
  beyond the vector panics.
\<close>

definition write_slice :: "'a list \<Rightarrow> nat \<Rightarrow> 'a list \<Rightarrow> 'a list result" where
  "write_slice cells start vs =
     (if start + length vs \<le> length cells
      then Inr (take start cells @ vs @ drop (start + length vs) cells) else Inl Panic)"

lemma write_slice_append:
  "length vs = length ws \<Longrightarrow> write_slice (xs @ ws @ ys) (length xs) vs = Inr (xs @ vs @ ys)"
  by (simp add: write_slice_def)

lemma write_slice_length: "write_slice cells start vs = Inr cells' \<Longrightarrow> length cells' = length cells"
  by (auto simp: write_slice_def split: if_splits)

lemma write_slice_nth:
  assumes "write_slice cells start vs = Inr cells'" and "i < length cells"
  shows "cells' ! i = (if start \<le> i \<and> i < start + length vs then vs ! (i - start) else cells ! i)"
proof -
  from assms have "start + length vs \<le> length cells"
    and "cells' = take start cells @ vs @ drop (start + length vs) cells"
    by (auto simp: write_slice_def split: if_splits)
  then show ?thesis using assms(2) by (auto simp: nth_append)
qed

end
