(* ===== verification/SurfaceDelta.thy ===== *)
theory SurfaceDelta
  imports Surface
begin

section \<open>Sparse delivery of a surface\<close>

text \<open>
  \<open>src/src/protocol/surface_delta.rs\<close> and \<open>surface_delta/decode.rs\<close>: the sender compares
  the next surface with the last one, and sends the changed cell spans with the metadata;
  the receiver decodes them under explicit limits before it allocates.

  The binary and base64 codecs are libraries the program links.  They are the parameter
  \<open>w\<close>, one reader (\<open>get\<close>) and one writer (\<open>put\<close>) per primitive over an abstract stream, with
  the sizes the sender asks for.  \<open>wire_ok\<close> is what is documented of them: a reader gives
  back what its writer put in front of the stream.  \<open>usize\<close> has 64 bits.
\<close>

type_synonym ('s, 'a) reader = "'s \<Rightarrow> ('a \<times> 's) result"

record 's wire =
  get_u8 :: "('s, nat) reader"
  get_u16 :: "('s, u16) reader"
  get_u32 :: "('s, u32) reader"
  get_u64 :: "('s, u64) reader"
  get_bool :: "('s, bool) reader"
  get_string :: "('s, string) reader"
  get_bytes :: "nat \<Rightarrow> ('s, nat list) reader"
  get_cell :: "('s, cell_data) reader"
  get_cursor :: "('s, cursor_state option) reader"
  get_pane :: "('s, surface_pane) reader"
  get_rect :: "('s, surface_rect) reader"
  get_direction :: "('s, split_direction) reader"
  get_popup_size :: "('s, popup_size option) reader"
  get_asset_key :: "('s, asset_key) reader"
  get_placement :: "('s, graphics_placement) reader"
  put_u8 :: "nat \<Rightarrow> 's \<Rightarrow> 's"
  put_u16 :: "u16 \<Rightarrow> 's \<Rightarrow> 's"
  put_u32 :: "u32 \<Rightarrow> 's \<Rightarrow> 's"
  put_u64 :: "u64 \<Rightarrow> 's \<Rightarrow> 's"
  put_bool :: "bool \<Rightarrow> 's \<Rightarrow> 's"
  put_string :: "string \<Rightarrow> 's \<Rightarrow> 's"
  put_bytes :: "nat list \<Rightarrow> 's \<Rightarrow> 's"
  put_cell :: "cell_data \<Rightarrow> 's \<Rightarrow> 's"
  put_cursor :: "cursor_state option \<Rightarrow> 's \<Rightarrow> 's"
  put_pane :: "surface_pane \<Rightarrow> 's \<Rightarrow> 's"
  put_rect :: "surface_rect \<Rightarrow> 's \<Rightarrow> 's"
  put_direction :: "split_direction \<Rightarrow> 's \<Rightarrow> 's"
  put_popup_size :: "popup_size option \<Rightarrow> 's \<Rightarrow> 's"
  put_asset_key :: "asset_key \<Rightarrow> 's \<Rightarrow> 's"
  put_placement :: "graphics_placement \<Rightarrow> 's \<Rightarrow> 's"
  stream_end :: "'s"
  at_end :: "'s \<Rightarrow> bool"
  stream_len :: "'s \<Rightarrow> nat"
  b64_encode :: "'s \<Rightarrow> string"
  b64_decode :: "string \<Rightarrow> 's result"
  b64_len :: "nat \<Rightarrow> nat option"
  size_span :: "patch_row \<Rightarrow> nat result"
  size_message :: "server_message \<Rightarrow> nat result"

definition andThen :: "('s, 'a) reader \<Rightarrow> ('a \<Rightarrow> ('s, 'b) reader) \<Rightarrow> ('s, 'b) reader" where
  "andThen r f s = (case r s of Inl e \<Rightarrow> Inl e | Inr (x, s') \<Rightarrow> f x s')"

definition give :: "'a \<Rightarrow> ('s, 'a) reader" where
  "give x s = Inr (x, s)"

definition reject :: "string \<Rightarrow> ('s, 'a) reader" where
  "reject msg s = Inl (Err msg)"

text \<open>The decoder's loop \<open>for _ in 0..count\<close>.\<close>

fun times :: "nat \<Rightarrow> ('s, 'a) reader \<Rightarrow> ('s, 'a list) reader" where
  "times 0 r = give []"
| "times (Suc n) r = andThen r (\<lambda>x. andThen (times n r) (\<lambda>xs. give (x # xs)))"

subsection \<open>Data and limits\<close>

datatype grid_update = GridPatch "patch_row list" | GridReplace "cell_data list"

record surface_delta =
  sd_base_projection_revision :: u64
  sd_base_surface_revision :: u64
  sd_surface :: pane_surface
  sd_rows :: "patch_row list"
  sd_popup_cells :: "grid_update option"

record decode_context =
  dc_expected :: "(u16 \<times> u16) option"
  dc_data_len :: nat

definition DELTA_KIND :: string where
  "DELTA_KIND = ''endpoint.surface-delta.v1''"

definition MAX_SPANS :: nat where "MAX_SPANS = 4096"
definition MAX_GRID_DIMENSION :: nat where "MAX_GRID_DIMENSION = 4096"
definition MAX_GRID_CELLS :: nat where "MAX_GRID_CELLS = 1000000"
definition MAX_PANES :: nat where "MAX_PANES = 4096"
definition MAX_SPLITS :: nat where "MAX_SPLITS = 4096"
definition MAX_SPLIT_PATH :: nat where "MAX_SPLIT_PATH = 4096"
definition MAX_HYPERLINKS :: nat where "MAX_HYPERLINKS = 65536"
definition MAX_ASSETS :: nat where "MAX_ASSETS = 4096"
definition MAX_PLACEMENTS :: nat where "MAX_PLACEMENTS = 65536"
definition MAX_RETAINED_ASSETS :: nat where "MAX_RETAINED_ASSETS = 65536"

subsection \<open>The sender\<close>

fun chunks :: "nat \<Rightarrow> 'a list \<Rightarrow> 'a list list" where
  "chunks n xs = (if n = 0 \<or> xs = [] then [] else take n xs # chunks n (drop n xs))"

declare chunks.simps [simp del]

text \<open>
  The inner loop of \<open>changed_rows\<close> over the rest of one row: the length of the run of
  differing cells, and the spans with the column they start at.  Reading past the old row
  panics (\<open>None\<close>).
\<close>

fun run_length :: "'a list \<Rightarrow> 'a list \<Rightarrow> nat option" where
  "run_length old [] = Some 0"
| "run_length [] (n # ns) = None"
| "run_length (p # ps) (n # ns) = (if p = n then Some 0 else map_option Suc (run_length ps ns))"

function row_spans :: "nat \<Rightarrow> 'a list \<Rightarrow> 'a list \<Rightarrow> (nat \<times> 'a list) list option" where
  "row_spans x old [] = Some []"
| "row_spans x [] (n # ns) = None"
| "row_spans x (p # ps) (n # ns) =
     (if p = n then row_spans (Suc x) ps ns
      else case run_length ps ns of
             None \<Rightarrow> None
           | Some k \<Rightarrow> map_option (Cons (x, n # take k ns)) (row_spans (x + Suc k) (drop k ps) (drop k ns)))"
  by pat_completeness auto
termination
  by (relation "measure (\<lambda>(x, old, new). length new)") auto

fun grid_spans :: "nat \<Rightarrow> cell_data list list \<Rightarrow> cell_data list list \<Rightarrow> patch_row list option" where
  "grid_spans y (old # olds) (new # news) =
     (case row_spans 0 old new of
        None \<Rightarrow> None
      | Some sp \<Rightarrow>
          map_option (\<lambda>rest. map (\<lambda>(x, cs). \<lparr>pr_x = x mod 65536, pr_y = y mod 65536, pr_cells = cs\<rparr>) sp @ rest)
            (grid_spans (Suc y) olds news))"
| "grid_spans y _ _ = Some []"

text \<open>
  Each span is sized before it is kept; the whole attempt is given up (\<open>None\<close>) when there
  are too many spans or the delta can no longer be smaller than the full message.
\<close>

fun keep_spans :: "'s wire \<Rightarrow> nat \<Rightarrow> nat \<Rightarrow> nat \<Rightarrow> patch_row list \<Rightarrow> patch_row list option result" where
  "keep_spans w full_size kept sofar [] = Inr (Some [])"
| "keep_spans w full_size kept sofar (sp # sps) =
     rthen (size_span w sp) (\<lambda>n.
       if kept = MAX_SPANS \<or> (case b64_len w (sofar + n) of None \<Rightarrow> True | Some m \<Rightarrow> full_size \<le> m)
       then Inr None
       else rthen (keep_spans w full_size (Suc kept) (sofar + n) sps) (\<lambda>r.
              Inr (map_option (Cons sp) r)))"

definition changed_rows ::
    "'s wire \<Rightarrow> cell_data list \<Rightarrow> cell_data list \<Rightarrow> u16 \<Rightarrow> nat \<Rightarrow> patch_row list option result" where
  "changed_rows w prev next width full_size =
     (if width = 0 then Inr (Some [])
      else case grid_spans 0 (chunks width prev) (chunks width next) of
             None \<Rightarrow> Inl Panic
           | Some sps \<Rightarrow> keep_spans w full_size 0 0 sps)"

fun apply_rows :: "cell_data list \<Rightarrow> u16 \<Rightarrow> patch_row list \<Rightarrow> cell_data list result" where
  "apply_rows cells width [] = Inr cells"
| "apply_rows cells width (row # rows) =
     rthen (write_slice cells (pr_y row * width + pr_x row) (pr_cells row)) (\<lambda>cells'.
       apply_rows cells' width rows)"

definition checked_grid_size :: "u16 \<Rightarrow> u16 \<Rightarrow> nat result" where
  "checked_grid_size width height =
     (if MAX_GRID_DIMENSION < width \<or> MAX_GRID_DIMENSION < height
      then Inl (Err ''surface dimensions exceed the limit'')
      else if MAX_GRID_CELLS < width * height then Inl (Err ''surface cell count exceeds the limit'')
      else Inr (width * height))"

definition frame_metadata_fits :: "frame_data \<Rightarrow> bool" where
  "frame_metadata_fits f \<longleftrightarrow>
     (case checked_grid_size (fd_width f) (fd_height f) of
        Inl _ \<Rightarrow> False | Inr cells \<Rightarrow> length (fd_cells f) = cells) \<and>
     length (fd_hyperlinks f) \<le> MAX_HYPERLINKS \<and> length (fd_graphics f) \<le> MAX_GRAPHICS_FRAME_SIZE"

definition metadata_fits :: "pane_surface \<Rightarrow> bool" where
  "metadata_fits s \<longleftrightarrow>
     frame_metadata_fits (pf_frame s) \<and> length (pf_panes s) \<le> MAX_PANES \<and>
     length (pf_splits s) \<le> MAX_SPLITS \<and>
     list_all (\<lambda>sp. length (ss_path sp) \<le> MAX_SPLIT_PATH) (pf_splits s) \<and>
     (case pf_popup s of None \<Rightarrow> True | Some p \<Rightarrow> frame_metadata_fits (ps_frame p)) \<and>
     length (gs_assets (pf_graphics s)) \<le> MAX_ASSETS \<and>
     list_all (\<lambda>a. length (ga_data a) \<le> MAX_GRAPHICS_FRAME_SIZE) (gs_assets (pf_graphics s)) \<and>
     length (gs_placements (pf_graphics s)) \<le> MAX_PLACEMENTS \<and>
     length (gs_retained_assets (pf_graphics s)) \<le> MAX_RETAINED_ASSETS"

definition has_graphics :: "graphics_scene \<Rightarrow> bool" where
  "has_graphics g \<longleftrightarrow> gs_assets g \<noteq> [] \<or> gs_placements g \<noteq> [] \<or> gs_retained_assets g \<noteq> []"

subsection \<open>The layout of the encoded delta\<close>

text \<open>
  What the derived serialisers write, field by field: a sequence is its length followed by
  its elements, an option a byte and the value, a variant its index.
\<close>

definition put_list :: "'s wire \<Rightarrow> ('a \<Rightarrow> 's \<Rightarrow> 's) \<Rightarrow> 'a list \<Rightarrow> 's \<Rightarrow> 's" where
  "put_list w put xs s = put_u64 w (length xs) (foldr put xs s)"

definition put_bytes_vec :: "'s wire \<Rightarrow> nat list \<Rightarrow> 's \<Rightarrow> 's" where
  "put_bytes_vec w bs s = put_u64 w (length bs) (put_bytes w bs s)"

definition put_frame :: "'s wire \<Rightarrow> frame_data \<Rightarrow> 's \<Rightarrow> 's" where
  "put_frame w f s =
     put_list w (put_cell w) (fd_cells f) (put_u16 w (fd_width f) (put_u16 w (fd_height f)
       (put_cursor w (fd_cursor f) (put_list w (put_string w) (fd_hyperlinks f)
         (put_bytes_vec w (fd_graphics f) s)))))"

definition put_split :: "'s wire \<Rightarrow> surface_split \<Rightarrow> 's \<Rightarrow> 's" where
  "put_split w sp s =
     put_direction w (ss_direction sp) (put_u16 w (ss_pos sp) (put_rect w (ss_area sp)
       (put_rect w (ss_hit_rect sp) (put_list w (put_bool w) (ss_path sp) s))))"

definition put_popup :: "'s wire \<Rightarrow> popup_surface option \<Rightarrow> 's \<Rightarrow> 's" where
  "put_popup w po s =
     (case po of
        None \<Rightarrow> put_u8 w 0 s
      | Some p \<Rightarrow>
          put_u8 w 1 (put_string w (ps_terminal_id p) (put_string w (ps_title p)
            (put_popup_size w (ps_width p) (put_popup_size w (ps_height p) (put_frame w (ps_frame p)
              (put_bool w (ps_mouse_reporting p) (put_bool w (ps_sgr_pixel_mouse p)
                (put_u32 w (ps_pixel_width p) (put_u32 w (ps_pixel_height p) s))))))))))"

definition put_asset :: "'s wire \<Rightarrow> graphics_asset \<Rightarrow> 's \<Rightarrow> 's" where
  "put_asset w a s = put_asset_key w (ga_key a) (put_bytes_vec w (ga_data a) s)"

definition put_scene :: "'s wire \<Rightarrow> graphics_scene \<Rightarrow> 's \<Rightarrow> 's" where
  "put_scene w g s =
     put_list w (put_asset w) (gs_assets g) (put_list w (put_placement w) (gs_placements g)
       (put_list w (put_asset_key w) (gs_retained_assets g) s))"

definition put_surface :: "'s wire \<Rightarrow> pane_surface \<Rightarrow> 's \<Rightarrow> 's" where
  "put_surface w p s =
     put_string w (pf_boot_id p) (put_u64 w (pf_projection_revision p) (put_u64 w (pf_surface_revision p)
       (put_frame w (pf_frame p) (put_list w (put_pane w) (pf_panes p)
         (put_list w (put_split w) (pf_splits p) (put_popup w (pf_popup p) (put_scene w (pf_graphics p) s)))))))"

definition put_row :: "'s wire \<Rightarrow> patch_row \<Rightarrow> 's \<Rightarrow> 's" where
  "put_row w r s = put_u16 w (pr_x r) (put_u16 w (pr_y r) (put_list w (put_cell w) (pr_cells r) s))"

definition put_popup_update :: "'s wire \<Rightarrow> grid_update option \<Rightarrow> 's \<Rightarrow> 's" where
  "put_popup_update w u s =
     (case u of
        None \<Rightarrow> put_u8 w 0 s
      | Some (GridPatch rows) \<Rightarrow> put_u8 w 1 (put_u32 w 0 (put_list w (put_row w) rows s))
      | Some (GridReplace cells) \<Rightarrow> put_u8 w 1 (put_u32 w 1 (put_list w (put_cell w) cells s)))"

definition put_delta :: "'s wire \<Rightarrow> surface_delta \<Rightarrow> 's \<Rightarrow> 's" where
  "put_delta w d s =
     put_u64 w (sd_base_projection_revision d) (put_u64 w (sd_base_surface_revision d)
       (put_surface w (sd_surface d) (put_list w (put_row w) (sd_rows d)
         (put_popup_update w (sd_popup_cells d) s))))"

text \<open>
  \<open>std::mem::take\<close> moves both cell grids out of the surface while it is encoded, and they
  are put back before the function returns.
\<close>

definition take_cells :: "pane_surface \<Rightarrow> pane_surface" where
  "take_cells s = s\<lparr>pf_frame := (pf_frame s)\<lparr>fd_cells := []\<rparr>,
     pf_popup := map_option (\<lambda>p. p\<lparr>ps_frame := (ps_frame p)\<lparr>fd_cells := []\<rparr>\<rparr>) (pf_popup s)\<rparr>"

definition popup_update :: "'s wire \<Rightarrow> pane_surface \<Rightarrow> pane_surface \<Rightarrow> nat \<Rightarrow> grid_update option option result" where
  "popup_update w prev surface full_size =
     (case pf_popup surface of
        None \<Rightarrow> Inr (Some None)
      | Some popup \<Rightarrow>
          let grid = fd_cells (ps_frame popup) in
          case (case pf_popup prev of
                  None \<Rightarrow> None
                | Some previous \<Rightarrow>
                    if ps_terminal_id previous = ps_terminal_id popup \<and>
                       fd_width (ps_frame previous) = fd_width (ps_frame popup) \<and>
                       fd_height (ps_frame previous) = fd_height (ps_frame popup) \<and>
                       length (fd_cells (ps_frame previous)) = length grid
                    then Some previous else None) of
            Some previous \<Rightarrow>
              rthen (changed_rows w (fd_cells (ps_frame previous)) grid (fd_width (ps_frame popup)) full_size)
                (\<lambda>r. Inr (map_option (\<lambda>rows. Some (GridPatch rows)) r))
          | None \<Rightarrow> Inr (Some (Some (GridReplace grid))))"

definition delta_message :: "'s wire \<Rightarrow> pane_surface \<Rightarrow> server_message \<Rightarrow> server_message option result" where
  "delta_message w prev full =
     (case full of
        MsgPaneSurface surface \<Rightarrow>
          if pf_boot_id prev \<noteq> pf_boot_id surface \<or>
             fd_width (pf_frame prev) \<noteq> fd_width (pf_frame surface) \<or>
             fd_height (pf_frame prev) \<noteq> fd_height (pf_frame surface) \<or>
             length (fd_cells (pf_frame prev)) \<noteq> fd_width (pf_frame surface) * fd_height (pf_frame surface) \<or>
             \<not> metadata_fits surface
          then Inr None
          else rthen (size_message w full) (\<lambda>full_size.
            let cap = (if has_graphics (pf_graphics surface) then MAX_GRAPHICS_FRAME_SIZE else MAX_FRAME_SIZE) in
            rthen (changed_rows w (fd_cells (pf_frame prev)) (fd_cells (pf_frame surface))
                     (fd_width (pf_frame surface)) full_size) (\<lambda>r.
              case r of
                None \<Rightarrow> Inr None
              | Some rows \<Rightarrow>
                  rthen (popup_update w prev surface full_size) (\<lambda>u.
                    case u of
                      None \<Rightarrow> Inr None
                    | Some popup_cells \<Rightarrow>
                        let delta = \<lparr>sd_base_projection_revision = pf_projection_revision prev,
                                     sd_base_surface_revision = pf_surface_revision prev,
                                     sd_surface = take_cells surface, sd_rows = rows,
                                     sd_popup_cells = popup_cells\<rparr>;
                            bytes = put_delta w delta (stream_end w)
                        in case b64_len w (stream_len w bytes) of
                             None \<Rightarrow> Inl (Err ''surface delta size overflow'')
                           | Some encoded_len \<Rightarrow>
                               if cap < encoded_len \<or> full_size \<le> encoded_len then Inr None
                               else let message = MsgEndpointControl DELTA_KIND (b64_encode w bytes)
                                    in rthen (size_message w message) (\<lambda>sz.
                                         Inr (if sz \<le> cap \<and> sz < full_size then Some message else None)))))
      | _ \<Rightarrow> Inr None)"


subsection \<open>The receiver\<close>

definition grid_size_of :: "u16 \<Rightarrow> u16 \<Rightarrow> ('s, nat) reader" where
  "grid_size_of width height s =
     (case checked_grid_size width height of Inl e \<Rightarrow> Inl e | Inr n \<Rightarrow> Inr (n, s))"

definition decode_sequence_len :: "'s wire \<Rightarrow> ('s, nat) reader" where
  "decode_sequence_len w = get_u64 w"

definition decode_count :: "'s wire \<Rightarrow> nat \<Rightarrow> string \<Rightarrow> ('s, nat) reader" where
  "decode_count w cap msg =
     andThen (decode_sequence_len w) (\<lambda>count. if cap < count then reject msg else give count)"

definition decode_bounded_vec :: "'s wire \<Rightarrow> ('s, 'a) reader \<Rightarrow> nat \<Rightarrow> string \<Rightarrow> ('s, 'a list) reader" where
  "decode_bounded_vec w r cap msg = andThen (decode_count w cap msg) (\<lambda>count. times count r)"

definition decode_bytes_vec :: "'s wire \<Rightarrow> nat \<Rightarrow> string \<Rightarrow> ('s, nat list) reader" where
  "decode_bytes_vec w cap msg = andThen (decode_count w cap msg) (get_bytes w)"

definition require_empty_sequence :: "'s wire \<Rightarrow> string \<Rightarrow> ('s, unit) reader" where
  "require_empty_sequence w msg =
     andThen (decode_sequence_len w) (\<lambda>n. if n = 0 then give () else reject msg)"

definition decode_frame :: "'s wire \<Rightarrow> ('s, frame_data) reader" where
  "decode_frame w =
     andThen (require_empty_sequence w ''surface metadata contains main cells'') (\<lambda>_.
     andThen (get_u16 w) (\<lambda>width.
     andThen (get_u16 w) (\<lambda>height.
     andThen (grid_size_of width height) (\<lambda>_.
     andThen (get_cursor w) (\<lambda>cursor.
     andThen (decode_bounded_vec w (get_string w) MAX_HYPERLINKS ''too many hyperlinks'') (\<lambda>hyperlinks.
     andThen (decode_bytes_vec w MAX_GRAPHICS_FRAME_SIZE ''graphics payload too large'') (\<lambda>graphics.
       give \<lparr>fd_cells = [], fd_width = width, fd_height = height, fd_cursor = cursor,
             fd_hyperlinks = hyperlinks, fd_graphics = graphics\<rparr>)))))))"

definition decode_popup :: "'s wire \<Rightarrow> ('s, popup_surface option) reader" where
  "decode_popup w =
     andThen (get_u8 w) (\<lambda>tag.
       if tag = 0 then give None
       else if tag = 1 then
         andThen (get_string w) (\<lambda>terminal_id.
         andThen (get_string w) (\<lambda>title.
         andThen (get_popup_size w) (\<lambda>width.
         andThen (get_popup_size w) (\<lambda>height.
         andThen (decode_frame w) (\<lambda>frame.
         andThen (get_bool w) (\<lambda>mouse_reporting.
         andThen (get_bool w) (\<lambda>sgr_pixel_mouse.
         andThen (get_u32 w) (\<lambda>pixel_width.
         andThen (get_u32 w) (\<lambda>pixel_height.
           give (Some \<lparr>ps_terminal_id = terminal_id, ps_title = title, ps_width = width, ps_height = height,
             ps_frame = frame, ps_mouse_reporting = mouse_reporting, ps_sgr_pixel_mouse = sgr_pixel_mouse,
             ps_pixel_width = pixel_width, ps_pixel_height = pixel_height\<rparr>))))))))))
       else reject ''invalid popup option'')"

definition decode_split :: "'s wire \<Rightarrow> ('s, surface_split) reader" where
  "decode_split w =
     andThen (get_direction w) (\<lambda>direction.
     andThen (get_u16 w) (\<lambda>pos.
     andThen (get_rect w) (\<lambda>area.
     andThen (get_rect w) (\<lambda>hit_rect.
     andThen (decode_bounded_vec w (get_bool w) MAX_SPLIT_PATH ''split path too long'') (\<lambda>path.
       give \<lparr>ss_direction = direction, ss_pos = pos, ss_area = area, ss_hit_rect = hit_rect, ss_path = path\<rparr>)))))"

definition decode_splits :: "'s wire \<Rightarrow> ('s, surface_split list) reader" where
  "decode_splits w = andThen (decode_count w MAX_SPLITS ''too many splits'') (\<lambda>count. times count (decode_split w))"

definition decode_asset :: "'s wire \<Rightarrow> ('s, graphics_asset) reader" where
  "decode_asset w =
     andThen (get_asset_key w) (\<lambda>key.
     andThen (decode_bytes_vec w MAX_GRAPHICS_FRAME_SIZE ''graphics asset payload too large'') (\<lambda>data.
       give \<lparr>ga_key = key, ga_data = data\<rparr>))"

definition decode_graphics_scene :: "'s wire \<Rightarrow> ('s, graphics_scene) reader" where
  "decode_graphics_scene w =
     andThen (andThen (decode_count w MAX_ASSETS ''too many graphics assets'') (\<lambda>n. times n (decode_asset w))) (\<lambda>assets.
     andThen (decode_bounded_vec w (get_placement w) MAX_PLACEMENTS ''too many graphics placements'') (\<lambda>placements.
     andThen (decode_bounded_vec w (get_asset_key w) MAX_RETAINED_ASSETS ''too many retained graphics assets'') (\<lambda>retained.
       give \<lparr>gs_assets = assets, gs_placements = placements, gs_retained_assets = retained\<rparr>)))"

definition decode_surface :: "'s wire \<Rightarrow> ('s, pane_surface \<times> bool) reader" where
  "decode_surface w =
     andThen (get_string w) (\<lambda>boot_id.
     andThen (get_u64 w) (\<lambda>projection_revision.
     andThen (get_u64 w) (\<lambda>surface_revision.
     andThen (decode_frame w) (\<lambda>frame.
     andThen (decode_bounded_vec w (get_pane w) MAX_PANES ''too many panes'') (\<lambda>panes.
     andThen (decode_splits w) (\<lambda>splits.
     andThen (decode_popup w) (\<lambda>popup.
     andThen (decode_graphics_scene w) (\<lambda>graphics.
       give (\<lparr>pf_boot_id = boot_id, pf_projection_revision = projection_revision,
              pf_surface_revision = surface_revision, pf_frame = frame, pf_panes = panes,
              pf_splits = splits, pf_popup = popup, pf_graphics = graphics\<rparr>, has_graphics graphics)))))))))"

text \<open>
  The loop of \<open>decode_rows\<close>: \<open>total_cells\<close> and \<open>previous_end\<close> are its running totals.  The
  products and sums are of values below \<open>2 ^ 32\<close>, so the checked operations on 64 bits
  succeed; their error branches are kept.
\<close>

fun decode_rows_loop ::
    "'s wire \<Rightarrow> u16 \<Rightarrow> u16 \<Rightarrow> nat \<Rightarrow> nat \<Rightarrow> nat \<Rightarrow> nat \<Rightarrow> ('s, patch_row list) reader" where
  "decode_rows_loop w width height budget sofar previous_end 0 = give []"
| "decode_rows_loop w width height budget sofar previous_end (Suc n) =
     andThen (get_u16 w) (\<lambda>x.
     andThen (get_u16 w) (\<lambda>y.
     andThen (decode_sequence_len w) (\<lambda>cells_len.
       if cells_len = 0 \<or> height \<le> y \<or> width \<le> x \<or> width - x < cells_len
       then reject ''surface delta span is outside its row''
       else (case Option.bind (checked_mul u64_max y width) (\<lambda>v. checked_add u64_max v x) of
           None \<Rightarrow> reject ''surface delta span overflow''
         | Some start \<Rightarrow>
             if start < previous_end then reject ''surface delta spans overlap or are not sorted''
             else (case checked_add u64_max sofar cells_len of
                 None \<Rightarrow> reject ''surface delta cell budget overflow''
               | Some sofar' \<Rightarrow>
                   if budget < sofar' then reject ''surface delta cell budget exceeded''
                   else andThen (times cells_len (get_cell w)) (\<lambda>cells.
                        andThen (decode_rows_loop w width height budget sofar' (start + cells_len) n) (\<lambda>rows.
                          give (\<lparr>pr_x = x, pr_y = y, pr_cells = cells\<rparr> # rows))))))))"

definition decode_rows :: "'s wire \<Rightarrow> u16 \<Rightarrow> u16 \<Rightarrow> ('s, patch_row list) reader" where
  "decode_rows w width height =
     andThen (grid_size_of width height) (\<lambda>budget.
     andThen (decode_count w (min MAX_SPANS budget) ''too many surface delta spans'') (\<lambda>count.
       decode_rows_loop w width height budget 0 0 count))"

definition decode_popup_update :: "'s wire \<Rightarrow> popup_surface option \<Rightarrow> ('s, grid_update option) reader" where
  "decode_popup_update w popup =
     andThen (get_u8 w) (\<lambda>tag.
       if tag = 0 then give None
       else if tag = 1 then
         (case popup of
            None \<Rightarrow> reject ''popup cell update has no popup metadata''
          | Some p \<Rightarrow>
              let width = fd_width (ps_frame p); height = fd_height (ps_frame p) in
              andThen (get_u32 w) (\<lambda>variant.
                if variant = 0 then
                  andThen (decode_rows w width height) (\<lambda>rows. give (Some (GridPatch rows)))
                else if variant = 1 then
                  andThen (grid_size_of width height) (\<lambda>expected.
                  andThen (decode_sequence_len w) (\<lambda>count.
                    if count \<noteq> expected then reject ''popup replacement does not match popup dimensions''
                    else andThen (times count (get_cell w)) (\<lambda>cells. give (Some (GridReplace cells)))))
                else reject ''invalid popup grid update''))
       else reject ''invalid popup update option'')"

definition decode_delta_fields :: "'s wire \<Rightarrow> decode_context \<Rightarrow> ('s, surface_delta) reader" where
  "decode_delta_fields w ctx =
     andThen (get_u64 w) (\<lambda>base_projection_revision.
     andThen (get_u64 w) (\<lambda>base_surface_revision.
     andThen (decode_surface w) (\<lambda>(surface, graphics).
       if \<not> graphics \<and> MAX_FRAME_SIZE < dc_data_len ctx
       then reject ''ordinary surface delta exceeds the frame limit''
       else let dims = (fd_width (pf_frame surface), fd_height (pf_frame surface)) in
         if (case dc_expected ctx of Some expected \<Rightarrow> expected \<noteq> dims | None \<Rightarrow> False)
         then reject ''surface dimensions do not match the baseline''
         else andThen (grid_size_of (fst dims) (snd dims)) (\<lambda>_.
              andThen (decode_rows w (fst dims) (snd dims)) (\<lambda>rows.
              andThen (decode_popup_update w (pf_popup surface)) (\<lambda>popup_cells.
                give \<lparr>sd_base_projection_revision = base_projection_revision,
                      sd_base_surface_revision = base_surface_revision, sd_surface = surface,
                      sd_rows = rows, sd_popup_cells = popup_cells\<rparr>))))))"

definition decode_bytes_with_data_len ::
    "'s wire \<Rightarrow> 's \<Rightarrow> (u16 \<times> u16) option \<Rightarrow> nat \<Rightarrow> surface_delta result" where
  "decode_bytes_with_data_len w bytes expected data_len =
     (case decode_delta_fields w \<lparr>dc_expected = expected, dc_data_len = data_len\<rparr> bytes of
        Inl e \<Rightarrow> Inl e
      | Inr (delta, rest) \<Rightarrow>
          if \<not> at_end w rest then Inl (Err ''trailing surface delta bytes'') else Inr delta)"

definition delta_decode :: "'s wire \<Rightarrow> string \<Rightarrow> (u16 \<times> u16) option \<Rightarrow> surface_delta result" where
  "delta_decode w data expected =
     (if MAX_GRAPHICS_FRAME_SIZE < length data then Inl (Err ''surface delta exceeds the frame limit'')
      else rthen (b64_decode w data) (\<lambda>bytes.
        if MAX_GRAPHICS_FRAME_SIZE < stream_len w bytes
        then Inl (Err ''decoded surface delta exceeds the frame limit'')
        else decode_bytes_with_data_len w bytes expected (length data)))"

definition decode_for :: "'s wire \<Rightarrow> string \<Rightarrow> u16 \<times> u16 \<Rightarrow> surface_delta result" where
  "decode_for w data expected = delta_decode w data (Some expected)"


section \<open>Facts about sparse delivery\<close>

named_theorems reader_simps \<open>readers that succeed\<close>

lemma andThen_Inr_iff [reader_simps]:
  "andThen r f s = Inr y \<longleftrightarrow> (\<exists>x s'. r s = Inr (x, s') \<and> f x s' = Inr y)"
  by (auto simp: andThen_def split: sum.splits)

lemma give_Inr_iff [reader_simps]: "give x s = Inr y \<longleftrightarrow> y = (x, s)"
  by (auto simp: give_def)

lemma reject_Inr_iff [reader_simps]: "reject msg s = Inr y \<longleftrightarrow> False"
  by (simp add: reject_def)

lemma times_length: "times n r s = Inr (xs, s') \<Longrightarrow> length xs = n"
  by (induction n arbitrary: s xs s') (auto simp: reader_simps)

lemma times_all:
  "times n r s = Inr (xs, s') \<Longrightarrow> (\<And>s x s'. r s = Inr (x, s') \<Longrightarrow> P x) \<Longrightarrow> list_all P xs"
  by (induction n arbitrary: s xs s') (auto simp: reader_simps)

subsection \<open>Rows inside a grid\<close>

definition row_start :: "u16 \<Rightarrow> patch_row \<Rightarrow> nat" where
  "row_start width r = pr_y r * width + pr_x r"

definition row_in_grid :: "u16 \<Rightarrow> u16 \<Rightarrow> patch_row \<Rightarrow> bool" where
  "row_in_grid width height r \<longleftrightarrow>
     pr_cells r \<noteq> [] \<and> pr_y r < height \<and> pr_x r + length (pr_cells r) \<le> width"

text \<open>Rows that lie in the grid one after the other, from a given cell on.\<close>

fun rows_from :: "u16 \<Rightarrow> u16 \<Rightarrow> nat \<Rightarrow> patch_row list \<Rightarrow> bool" where
  "rows_from width height from_cell [] = True"
| "rows_from width height from_cell (r # rs) \<longleftrightarrow>
     row_in_grid width height r \<and> from_cell \<le> row_start width r \<and>
     rows_from width height (row_start width r + length (pr_cells r)) rs"

definition row_cells :: "patch_row list \<Rightarrow> nat" where
  "row_cells rs = sum_list (map (\<lambda>r. length (pr_cells r)) rs)"

lemma row_in_grid_end:
  assumes "row_in_grid width height r"
  shows "row_start width r + length (pr_cells r) \<le> width * height"
proof -
  have "row_start width r + length (pr_cells r) \<le> pr_y r * width + width"
    using assms by (simp add: row_start_def row_in_grid_def)
  also have "\<dots> = Suc (pr_y r) * width" by simp
  also have "\<dots> \<le> height * width" using assms by (intro mult_right_mono) (auto simp: row_in_grid_def)
  finally show ?thesis by (simp add: mult.commute)
qed

lemma rows_from_cells:
  "rows_from width height p rs \<Longrightarrow> p \<le> width * height \<Longrightarrow> p + row_cells rs \<le> width * height"
proof (induction rs arbitrary: p)
  case Nil
  then show ?case by (simp add: row_cells_def)
next
  case (Cons r rs)
  have "row_start width r + length (pr_cells r) \<le> width * height"
    using Cons.prems by (auto dest: row_in_grid_end)
  with Cons have "row_start width r + length (pr_cells r) + row_cells rs \<le> width * height" by simp
  with Cons.prems show ?case by (simp add: row_cells_def)
qed

lemma rows_from_in_grid: "rows_from width height p rs \<Longrightarrow> r \<in> set rs \<Longrightarrow> row_in_grid width height r"
  by (induction rs arbitrary: p) auto

lemma rows_count_le_cells: "\<forall>r\<in>set rs. pr_cells r \<noteq> [] \<Longrightarrow> length rs \<le> row_cells rs"
proof (induction rs)
  case (Cons r rs)
  then have "1 \<le> length (pr_cells r)" by (cases "pr_cells r") auto
  with Cons show ?case by (simp add: row_cells_def)
qed (simp add: row_cells_def)

lemma rows_from_mono: "rows_from width height p rs \<Longrightarrow> q \<le> p \<Longrightarrow> rows_from width height q rs"
  by (cases rs) auto

lemma rows_from_append:
  "rows_from width height p rs \<Longrightarrow>
   (\<And>q. q = (if rs = [] then p else row_start width (last rs) + length (pr_cells (last rs))) \<Longrightarrow>
      rows_from width height q ss) \<Longrightarrow> rows_from width height p (rs @ ss)"
  by (induction rs arbitrary: p) (auto split: if_splits)

text \<open>Rows inside the grid are written without a panic.\<close>

lemma apply_rows_in_grid:
  assumes "\<forall>r\<in>set rs. row_in_grid width height r" and "length cells = width * height"
  shows "\<exists>cells'. apply_rows cells width rs = Inr cells' \<and> length cells' = width * height"
  using assms
proof (induction rs arbitrary: cells)
  case (Cons r rs)
  have "row_start width r + length (pr_cells r) \<le> length cells"
    using Cons.prems row_in_grid_end by auto
  then obtain cells1 where c1: "write_slice cells (row_start width r) (pr_cells r) = Inr cells1"
    by (simp add: write_slice_def)
  with Cons.prems have "length cells1 = width * height" by (simp add: write_slice_length)
  with Cons.IH [of cells1] Cons.prems c1 show ?case by (simp add: row_start_def)
qed simp

subsection \<open>What a decoded delta satisfies\<close>

lemma grid_size_of_Inr:
  "grid_size_of width height s = Inr (n, s') \<longleftrightarrow>
     checked_grid_size width height = Inr n \<and> s' = s"
  by (auto simp: grid_size_of_def split: sum.splits)

lemma checked_grid_size_Inr:
  "checked_grid_size width height = Inr n \<longleftrightarrow>
     n = width * height \<and> width \<le> MAX_GRID_DIMENSION \<and> height \<le> MAX_GRID_DIMENSION \<and> n \<le> MAX_GRID_CELLS"
  by (auto simp: checked_grid_size_def)

lemmas grid_readers = grid_size_of_Inr checked_grid_size_Inr

lemma decode_rows_loop_ok:
  "decode_rows_loop w width height budget sofar pe n s = Inr (rows, s') \<Longrightarrow> sofar \<le> budget \<Longrightarrow>
     rows_from width height pe rows \<and> length rows = n \<and> sofar + row_cells rows \<le> budget"
proof (induction n arbitrary: sofar pe s rows s')
  case 0
  then show ?case by (simp add: reader_simps row_cells_def)
next
  case (Suc n)
  from Suc.prems obtain x y k s1 cells s2 rs s3 where
    k: "k \<noteq> 0" "y < height" "x < width" "k \<le> width - x" "pe \<le> y * width + x" "sofar + k \<le> budget"
    and cells: "times k (get_cell w) s1 = Inr (cells, s2)"
    and rs: "decode_rows_loop w width height budget (sofar + k) (y * width + x + k) n s2 = Inr (rs, s3)"
    and rows: "rows = \<lparr>pr_x = x, pr_y = y, pr_cells = cells\<rparr> # rs"
    by (auto simp: reader_simps checked_add_Some_iff checked_mul_Some_iff bind_eq_Some_conv not_less
        split: if_splits option.splits)
  from times_length [OF cells] k have "row_in_grid width height \<lparr>pr_x = x, pr_y = y, pr_cells = cells\<rparr>"
    by (auto simp: row_in_grid_def)
  with Suc.IH [OF rs k(6)] k(5) times_length [OF cells] show ?case
    by (simp add: rows row_start_def row_cells_def)
qed


lemma decode_rows_ok:
  assumes "decode_rows w width height s = Inr (rows, s')"
  shows "rows_from width height 0 rows \<and> length rows \<le> MAX_SPANS"
proof -
  from assms obtain n s1 where "n \<le> min MAX_SPANS (width * height)"
    and "decode_rows_loop w width height (width * height) 0 0 n s1 = Inr (rows, s')"
    by (auto simp: decode_rows_def decode_count_def reader_simps grid_readers not_less min_le_iff_disj split: if_splits)
  with decode_rows_loop_ok [OF this(2)] show ?thesis by simp
qed

lemma decode_bounded_vec_ok:
  "decode_bounded_vec w r cap msg s = Inr (xs, s') \<Longrightarrow> length xs \<le> cap"
  by (auto simp: decode_bounded_vec_def decode_count_def reader_simps dest: times_length split: if_splits)

definition frame_bounded :: "frame_data \<Rightarrow> bool" where
  "frame_bounded f \<longleftrightarrow> fd_cells f = [] \<and> fd_width f \<le> MAX_GRID_DIMENSION \<and> fd_height f \<le> MAX_GRID_DIMENSION \<and>
     fd_width f * fd_height f \<le> MAX_GRID_CELLS \<and> length (fd_hyperlinks f) \<le> MAX_HYPERLINKS"

definition scene_bounded :: "graphics_scene \<Rightarrow> bool" where
  "scene_bounded g \<longleftrightarrow> length (gs_assets g) \<le> MAX_ASSETS \<and> length (gs_placements g) \<le> MAX_PLACEMENTS \<and>
     length (gs_retained_assets g) \<le> MAX_RETAINED_ASSETS"

definition surface_bounded :: "pane_surface \<Rightarrow> bool" where
  "surface_bounded p \<longleftrightarrow> frame_bounded (pf_frame p) \<and> length (pf_panes p) \<le> MAX_PANES \<and>
     length (pf_splits p) \<le> MAX_SPLITS \<and> list_all (\<lambda>sp. length (ss_path sp) \<le> MAX_SPLIT_PATH) (pf_splits p) \<and>
     (\<forall>q. pf_popup p = Some q \<longrightarrow> frame_bounded (ps_frame q)) \<and> scene_bounded (pf_graphics p)"

definition update_bounded :: "popup_surface option \<Rightarrow> grid_update option \<Rightarrow> bool" where
  "update_bounded popup u \<longleftrightarrow>
     (case u of
        None \<Rightarrow> True
      | Some v \<Rightarrow> \<exists>p. popup = Some p \<and>
          (case v of
             GridPatch rows \<Rightarrow> rows_from (fd_width (ps_frame p)) (fd_height (ps_frame p)) 0 rows \<and> length rows \<le> MAX_SPANS
           | GridReplace cells \<Rightarrow> length cells = fd_width (ps_frame p) * fd_height (ps_frame p)))"

definition delta_bounded :: "surface_delta \<Rightarrow> bool" where
  "delta_bounded d \<longleftrightarrow> surface_bounded (sd_surface d) \<and>
     rows_from (fd_width (pf_frame (sd_surface d))) (fd_height (pf_frame (sd_surface d))) 0 (sd_rows d) \<and>
     length (sd_rows d) \<le> MAX_SPANS \<and> update_bounded (pf_popup (sd_surface d)) (sd_popup_cells d)"

lemma decode_frame_ok: "decode_frame w s = Inr (f, s') \<Longrightarrow> frame_bounded f"
  by (auto simp: decode_frame_def reader_simps grid_readers frame_bounded_def dest: decode_bounded_vec_ok)

lemma decode_popup_ok: "decode_popup w s = Inr (Some p, s') \<Longrightarrow> frame_bounded (ps_frame p)"
  by (auto simp: decode_popup_def reader_simps dest: decode_frame_ok split: if_splits)

lemma decode_split_ok: "decode_split w s = Inr (sp, s') \<Longrightarrow> length (ss_path sp) \<le> MAX_SPLIT_PATH"
  by (auto simp: decode_split_def reader_simps dest: decode_bounded_vec_ok)

lemma decode_splits_ok:
  assumes "decode_splits w s = Inr (sps, s')"
  shows "length sps \<le> MAX_SPLITS \<and> list_all (\<lambda>sp. length (ss_path sp) \<le> MAX_SPLIT_PATH) sps"
proof -
  from assms obtain n s1 where n: "n \<le> MAX_SPLITS" and t: "times n (decode_split w) s1 = Inr (sps, s')"
    by (auto simp: decode_splits_def decode_count_def reader_simps not_less split: if_splits)
  from times_all [OF t decode_split_ok] times_length [OF t] n show ?thesis by simp
qed

lemma decode_scene_ok: "decode_graphics_scene w s = Inr (g, s') \<Longrightarrow> scene_bounded g"
  by (auto simp: decode_graphics_scene_def decode_count_def reader_simps scene_bounded_def
      dest: decode_bounded_vec_ok times_length split: if_splits)

lemma decode_surface_ok: "decode_surface w s = Inr ((p, g), s') \<Longrightarrow> surface_bounded p \<and> g = has_graphics (pf_graphics p)"
  unfolding decode_surface_def surface_bounded_def
  by (auto simp: reader_simps dest: decode_frame_ok decode_bounded_vec_ok decode_splits_ok decode_popup_ok decode_scene_ok)

lemma decode_popup_update_ok: "decode_popup_update w popup s = Inr (u, s') \<Longrightarrow> update_bounded popup u"
  by (auto simp: decode_popup_update_def reader_simps update_bounded_def Let_def grid_readers
      dest: decode_rows_ok times_length split: if_splits option.splits)

lemma decode_delta_fields_ok:
  assumes "decode_delta_fields w ctx s = Inr (d, s')"
  shows "delta_bounded d \<and>
    (\<forall>e. dc_expected ctx = Some e \<longrightarrow> e = (fd_width (pf_frame (sd_surface d)), fd_height (pf_frame (sd_surface d))))"
  using assms unfolding decode_delta_fields_def delta_bounded_def
  by (auto simp: reader_simps Let_def dest!: decode_surface_ok decode_rows_ok decode_popup_update_ok
      split: if_splits option.splits)

lemma decode_for_ok:
  assumes "decode_for w data e = Inr d"
  shows "delta_bounded d" and "e = (fd_width (pf_frame (sd_surface d)), fd_height (pf_frame (sd_surface d)))"
proof -
  from assms obtain s s' where
    "decode_delta_fields w \<lparr>dc_expected = Some e, dc_data_len = length data\<rparr> s = Inr (d, s')"
    by (auto simp: decode_for_def delta_decode_def decode_bytes_with_data_len_def rthen_Inr_iff
        split: if_splits sum.splits)
  from decode_delta_fields_ok [OF this] show "delta_bounded d"
    and "e = (fd_width (pf_frame (sd_surface d)), fd_height (pf_frame (sd_surface d)))" by simp_all
qed

subsection \<open>The difference between two grids\<close>

lemma run_length_Some:
  "length old = length new \<Longrightarrow> \<exists>k. run_length old new = Some k \<and> k \<le> length new"
  by (induction old new rule: run_length.induct) auto

lemma row_spans_Some: "length old = length new \<Longrightarrow> \<exists>sp. row_spans x old new = Some sp"
proof (induction x old new rule: row_spans.induct)
  case (3 x p ps n ns)
  show ?case
  proof (cases "p = n")
    case True
    with 3 show ?thesis by simp
  next
    case False
    from "3.prems" run_length_Some [of ps ns] obtain k where k: "run_length ps ns = Some k" by auto
    with 3(2) [OF False k] "3.prems" False show ?thesis by auto
  qed
qed auto

text \<open>Writing the spans of a row over the old row, in place, gives the new row.\<close>

lemma row_spans_apply:
  assumes "row_spans x old new = Some sp" and "length old = length new"
    and "length pre = y * width + x" and "x + length new \<le> width" and "width \<le> 65535" and "y \<le> 65535"
  shows "apply_rows (pre @ old @ post) width (map (\<lambda>(x, cs). \<lparr>pr_x = x mod 65536, pr_y = y mod 65536, pr_cells = cs\<rparr>) sp @ rest)
    = apply_rows (pre @ new @ post) width rest"
  using assms
proof (induction x old new arbitrary: sp pre rule: row_spans.induct)
  case (3 x p ps n ns)
  show ?case
  proof (cases "p = n")
    case True
    with "3.prems" "3.IH"(1) [OF True, of sp "pre @ [n]"] show ?thesis by simp
  next
    case False
    from "3.prems"(2) run_length_Some [of ps ns] obtain k where k: "run_length ps ns = Some k" "k \<le> length ns" by auto
    with "3.prems"(1) False obtain sp' where sp: "sp = (x, n # take k ns) # sp'"
      and sp': "row_spans (x + Suc k) (drop k ps) (drop k ns) = Some sp'" by auto
    have x: "x mod 65536 = x" "y mod 65536 = y" using "3.prems"(4-6) by auto
    have len: "length (n # take k ns) = length (p # take k ps)" using k "3.prems"(2) by simp
    have "write_slice (pre @ (p # ps) @ post) (y * width + x) (n # take k ns)
        = Inr (pre @ (n # take k ns) @ drop k ps @ post)"
      using write_slice_append [OF len, of pre "drop k ps @ post"] "3.prems"(3)
      by (simp add: append_assoc [symmetric] del: append_assoc)
    moreover have "apply_rows ((pre @ n # take k ns) @ drop k ps @ post) width
        (map (\<lambda>(x, cs). \<lparr>pr_x = x mod 65536, pr_y = y mod 65536, pr_cells = cs\<rparr>) sp' @ rest) =
        apply_rows ((pre @ n # take k ns) @ drop k ns @ post) width rest"
      using "3.IH"(2) [OF False k(1) sp', of "pre @ n # take k ns"] "3.prems" k(2) by simp
    moreover have "take k ns @ drop k ns @ post = ns @ post"
      by (simp only: append_assoc [symmetric] append_take_drop_id)
    ultimately show ?thesis by (simp add: sp x)
  qed
qed auto

lemma row_spans_rows:
  assumes "row_spans x old new = Some sp" and "length old = length new"
    and "x + length new \<le> width" and "width \<le> 65535" and "y < height" and "height \<le> 65535"
    and "rows_from width height (y * width + width) rest"
  shows "rows_from width height (y * width + x)
    (map (\<lambda>(x, cs). \<lparr>pr_x = x mod 65536, pr_y = y mod 65536, pr_cells = cs\<rparr>) sp @ rest)"
  using assms
proof (induction x old new arbitrary: sp rule: row_spans.induct)
  case (1 x old)
  then show ?case by (auto intro: rows_from_mono)
next
  case (3 x p ps n ns)
  show ?case
  proof (cases "p = n")
    case True
    with "3.prems" "3.IH"(1) [OF True, of sp] show ?thesis by (auto intro: rows_from_mono)
  next
    case False
    from "3.prems"(2) run_length_Some [of ps ns] obtain k where k: "run_length ps ns = Some k" "k \<le> length ns" by auto
    with "3.prems"(1) False obtain sp' where sp: "sp = (x, n # take k ns) # sp'"
      and sp': "row_spans (x + Suc k) (drop k ps) (drop k ns) = Some sp'" by auto
    have x: "x mod 65536 = x" "y mod 65536 = y" using "3.prems"(3-6) by auto
    from "3.IH"(2) [OF False k(1) sp'] "3.prems" k(2)
    have "rows_from width height (y * width + (x + Suc k))
      (map (\<lambda>(x, cs). \<lparr>pr_x = x mod 65536, pr_y = y mod 65536, pr_cells = cs\<rparr>) sp' @ rest)" by simp
    then show ?thesis using "3.prems"(3,5) k(2)
      by (simp add: sp x row_in_grid_def row_start_def add.assoc)
  qed
qed auto


lemma chunks_Cons:
  "0 < width \<Longrightarrow> length cells = width * Suc h \<Longrightarrow>
     chunks width cells = take width cells # chunks width (drop width cells)"
  by (subst chunks.simps) auto

lemma grid_spans_apply:
  assumes "0 < width" and "width \<le> 65535" and "y + h \<le> height" and "height \<le> 65535"
    and "length old = width * h" and "length new = width * h" and "length pre = y * width"
  shows "\<exists>sps. grid_spans y (chunks width old) (chunks width new) = Some sps \<and>
    apply_rows (pre @ old) width sps = Inr (pre @ new) \<and> rows_from width height (y * width) sps"
  using assms
proof (induction h arbitrary: y old new pre)
  case 0
  then show ?case by (simp add: chunks.simps)
next
  case (Suc h)
  let ?mk = "\<lambda>(x, cs). \<lparr>pr_x = x mod 65536, pr_y = y mod 65536, pr_cells = cs\<rparr>"
  have len: "length (take width old) = width" "length (take width new) = width"
    "length (drop width old) = width * h" "length (drop width new) = width * h"
    using Suc.prems by simp_all
  obtain sp where sp: "row_spans 0 (take width old) (take width new) = Some sp"
    using row_spans_Some [of "take width old" "take width new" 0] len by auto
  have "y < height" "y \<le> 65535" using Suc.prems by auto
  from Suc.IH [of "Suc y" "drop width old" "drop width new" "pre @ take width new"] Suc.prems len obtain sps where
    sps: "grid_spans (Suc y) (chunks width (drop width old)) (chunks width (drop width new)) = Some sps"
    and app: "apply_rows (pre @ take width new @ drop width old) width sps = Inr (pre @ take width new @ drop width new)"
    and rf: "rows_from width height (Suc y * width) sps" by auto
  have "apply_rows (pre @ take width old @ drop width old) width (map ?mk sp @ sps) = Inr (pre @ new)"
    using row_spans_apply [OF sp, of pre y width "drop width old" sps] Suc.prems(2,7) len \<open>y \<le> 65535\<close> app by simp
  moreover have "rows_from width height (y * width + 0) (map ?mk sp @ sps)"
    using Suc.prems(2,4) len rf \<open>y < height\<close> by (intro row_spans_rows [OF sp]) (simp_all add: add.commute)
  ultimately show ?case
    using chunks_Cons [OF Suc.prems(1), of old h] chunks_Cons [OF Suc.prems(1), of new h] Suc.prems(5,6)
    by (simp add: sp sps)
qed

lemma keep_spans_Some:
  "keep_spans w full_size kept sofar sps = Inr (Some rs) \<Longrightarrow> kept \<le> MAX_SPANS \<Longrightarrow>
     rs = sps \<and> kept + length rs \<le> MAX_SPANS"
proof (induction sps arbitrary: kept sofar rs)
  case (Cons sp sps)
  from Cons.prems obtain n rs' where "kept \<noteq> MAX_SPANS"
    and k: "keep_spans w full_size (Suc kept) (sofar + n) sps = Inr (Some rs')" and "rs = sp # rs'"
    by (auto simp: rthen_Inr_iff split: if_splits)
  with Cons.IH [OF k] Cons.prems show ?case by auto
qed simp

text \<open>
  The spans the sender keeps turn the old grid into the new one, and pass the receiver's
  checks on rows.
\<close>

lemma changed_rows_Some:
  assumes "changed_rows w old new width full_size = Inr (Some rows)"
    and "length old = width * height" and "length new = width * height"
    and "width \<le> 65535" and "height \<le> 65535"
  shows "apply_rows old width rows = Inr new" and "rows_from width height 0 rows"
    and "length rows \<le> MAX_SPANS"
proof -
  have "apply_rows old width rows = Inr new \<and> rows_from width height 0 rows \<and> length rows \<le> MAX_SPANS"
  proof (cases "width = 0")
    case True
    with assms show ?thesis by (simp add: changed_rows_def)
  next
    case False
    then have "0 < width" by simp
    from grid_spans_apply [OF this assms(4) _ assms(5) assms(2,3), of 0 "[]"] obtain sps where
      g: "grid_spans 0 (chunks width old) (chunks width new) = Some sps"
      "apply_rows old width sps = Inr new" "rows_from width height 0 sps" by auto
    with False assms(1) have "keep_spans w full_size 0 0 sps = Inr (Some rows)" by (simp add: changed_rows_def)
    from keep_spans_Some [OF this] g show ?thesis by auto
  qed
  then show "apply_rows old width rows = Inr new" "rows_from width height 0 rows" "length rows \<le> MAX_SPANS" by auto
qed

subsection \<open>Reading back what was written\<close>

definition wire_ok :: "'s wire \<Rightarrow> bool" where
  "wire_ok w \<longleftrightarrow>
     (\<forall>v s. get_u8 w (put_u8 w v s) = Inr (v, s)) \<and> (\<forall>v s. get_u16 w (put_u16 w v s) = Inr (v, s)) \<and>
     (\<forall>v s. get_u32 w (put_u32 w v s) = Inr (v, s)) \<and> (\<forall>v s. get_u64 w (put_u64 w v s) = Inr (v, s)) \<and>
     (\<forall>v s. get_bool w (put_bool w v s) = Inr (v, s)) \<and> (\<forall>v s. get_string w (put_string w v s) = Inr (v, s)) \<and>
     (\<forall>v s. get_bytes w (length v) (put_bytes w v s) = Inr (v, s)) \<and>
     (\<forall>v s. get_cell w (put_cell w v s) = Inr (v, s)) \<and> (\<forall>v s. get_cursor w (put_cursor w v s) = Inr (v, s)) \<and>
     (\<forall>v s. get_pane w (put_pane w v s) = Inr (v, s)) \<and> (\<forall>v s. get_rect w (put_rect w v s) = Inr (v, s)) \<and>
     (\<forall>v s. get_direction w (put_direction w v s) = Inr (v, s)) \<and>
     (\<forall>v s. get_popup_size w (put_popup_size w v s) = Inr (v, s)) \<and>
     (\<forall>v s. get_asset_key w (put_asset_key w v s) = Inr (v, s)) \<and>
     (\<forall>v s. get_placement w (put_placement w v s) = Inr (v, s)) \<and>
     at_end w (stream_end w) \<and>
     (\<forall>b. b64_decode w (b64_encode w b) = Inr b) \<and>
     (\<forall>b. stream_len w b \<le> length (b64_encode w b)) \<and>
     (\<forall>b n. b64_len w (stream_len w b) = Some n \<longrightarrow> length (b64_encode w b) = n)"

definition reads :: "('s, 'a) reader \<Rightarrow> ('a \<Rightarrow> 's \<Rightarrow> 's) \<Rightarrow> 'a \<Rightarrow> bool" where
  "reads r put x \<longleftrightarrow> (\<forall>s. r (put x s) = Inr (x, s))"

lemma andThen_step: "r s = Inr (x, s') \<Longrightarrow> andThen r f s = f x s'"
  by (simp add: andThen_def)

lemma times_reads:
  "\<forall>x\<in>set xs. reads r put x \<Longrightarrow> times (length xs) r (foldr put xs s) = Inr (xs, s)"
proof (induction xs)
  case Nil
  then show ?case by (simp add: give_def)
next
  case (Cons x xs)
  then have "r (put x (foldr put xs s)) = Inr (x, foldr put xs s)" by (simp add: reads_def)
  with Cons show ?case by (simp add: andThen_step give_def)
qed

lemma wire_laws:
  assumes "wire_ok w"
  shows "get_u8 w (put_u8 w v1 s) = Inr (v1, s)" "get_u16 w (put_u16 w v2 s) = Inr (v2, s)"
    "get_u32 w (put_u32 w v3 s) = Inr (v3, s)" "get_u64 w (put_u64 w v4 s) = Inr (v4, s)"
    "get_bool w (put_bool w v5 s) = Inr (v5, s)" "get_string w (put_string w v6 s) = Inr (v6, s)"
    "get_bytes w (length v7) (put_bytes w v7 s) = Inr (v7, s)" "get_cell w (put_cell w v8 s) = Inr (v8, s)"
    "get_cursor w (put_cursor w v9 s) = Inr (v9, s)" "get_pane w (put_pane w v10 s) = Inr (v10, s)"
    "get_rect w (put_rect w v11 s) = Inr (v11, s)" "get_direction w (put_direction w v12 s) = Inr (v12, s)"
    "get_popup_size w (put_popup_size w v13 s) = Inr (v13, s)"
    "get_asset_key w (put_asset_key w v14 s) = Inr (v14, s)" "get_placement w (put_placement w v15 s) = Inr (v15, s)"
  using assms by (simp_all add: wire_ok_def)

lemma wire_reads:
  assumes "wire_ok w"
  shows "reads (get_cell w) (put_cell w) c" "reads (get_string w) (put_string w) st"
    "reads (get_bool w) (put_bool w) b" "reads (get_pane w) (put_pane w) p"
    "reads (get_asset_key w) (put_asset_key w) k" "reads (get_placement w) (put_placement w) pl"
  using wire_laws [OF assms] by (simp_all add: reads_def)

lemma decode_count_put:
  "wire_ok w \<Longrightarrow> n \<le> cap \<Longrightarrow> decode_count w cap msg (put_u64 w n s) = Inr (n, s)"
  by (simp add: decode_count_def decode_sequence_len_def andThen_step wire_laws give_def)

lemma decode_bounded_vec_put:
  "wire_ok w \<Longrightarrow> \<forall>x\<in>set xs. reads r put x \<Longrightarrow> length xs \<le> cap \<Longrightarrow>
     decode_bounded_vec w r cap msg (put_list w put xs s) = Inr (xs, s)"
  by (simp add: decode_bounded_vec_def put_list_def andThen_step decode_count_put times_reads)

lemma decode_bytes_vec_put:
  "wire_ok w \<Longrightarrow> length bs \<le> cap \<Longrightarrow> decode_bytes_vec w cap msg (put_bytes_vec w bs s) = Inr (bs, s)"
  by (simp add: decode_bytes_vec_def put_bytes_vec_def andThen_step decode_count_put wire_laws)


text \<open>Metadata as the sender leaves it after taking the cells out.\<close>

definition frame_sendable :: "frame_data \<Rightarrow> bool" where
  "frame_sendable f \<longleftrightarrow> frame_bounded f \<and> length (fd_graphics f) \<le> MAX_GRAPHICS_FRAME_SIZE"

lemma grid_size_of_bounded:
  "frame_bounded f \<Longrightarrow> grid_size_of (fd_width f) (fd_height f) s = Inr (fd_width f * fd_height f, s)"
  by (simp add: grid_size_of_Inr checked_grid_size_Inr frame_bounded_def)

lemma decode_frame_put:
  assumes "wire_ok w" and "frame_sendable f"
  shows "decode_frame w (put_frame w f s) = Inr (f, s)"
proof -
  have b: "frame_bounded f" "fd_cells f = []" using assms(2) by (simp_all add: frame_sendable_def frame_bounded_def)
  have e: "require_empty_sequence w msg (put_list w (put_cell w) [] t) = Inr ((), t)" for msg t
    by (simp add: require_empty_sequence_def decode_sequence_len_def put_list_def andThen_step wire_laws [OF assms(1)] give_def)
  have h: "length (fd_hyperlinks f) \<le> MAX_HYPERLINKS" "length (fd_graphics f) \<le> MAX_GRAPHICS_FRAME_SIZE"
    using assms(2) by (simp_all add: frame_sendable_def frame_bounded_def)
  show ?thesis
    by (simp add: decode_frame_def put_frame_def b(2) andThen_step e wire_laws [OF assms(1)] grid_size_of_bounded [OF b(1)]
        decode_bounded_vec_put [OF assms(1)] decode_bytes_vec_put [OF assms(1)] wire_reads [OF assms(1)] h give_def)
qed

lemma decode_popup_put:
  assumes "wire_ok w" and "\<And>p. po = Some p \<Longrightarrow> frame_sendable (ps_frame p)"
  shows "decode_popup w (put_popup w po s) = Inr (po, s)"
proof (cases po)
  case None
  then show ?thesis by (simp add: decode_popup_def put_popup_def andThen_step wire_laws [OF assms(1)] give_def)
next
  case (Some p)
  then show ?thesis
    by (simp add: decode_popup_def put_popup_def andThen_step wire_laws [OF assms(1)]
        decode_frame_put [OF assms(1) assms(2)] give_def)
qed

lemma decode_split_put:
  "wire_ok w \<Longrightarrow> length (ss_path sp) \<le> MAX_SPLIT_PATH \<Longrightarrow> reads (decode_split w) (put_split w) sp"
  by (simp add: reads_def decode_split_def put_split_def andThen_step wire_laws decode_bounded_vec_put wire_reads give_def)

lemma decode_splits_put:
  assumes "wire_ok w" and "length sps \<le> MAX_SPLITS" and "list_all (\<lambda>sp. length (ss_path sp) \<le> MAX_SPLIT_PATH) sps"
  shows "decode_splits w (put_list w (put_split w) sps s) = Inr (sps, s)"
proof -
  have "\<forall>sp\<in>set sps. reads (decode_split w) (put_split w) sp"
    using assms(1,3) decode_split_put by (auto simp: list_all_iff)
  from times_reads [OF this] show ?thesis
    by (simp add: decode_splits_def put_list_def andThen_step decode_count_put [OF assms(1,2)])
qed

lemma decode_asset_put:
  "wire_ok w \<Longrightarrow> length (ga_data a) \<le> MAX_GRAPHICS_FRAME_SIZE \<Longrightarrow> reads (decode_asset w) (put_asset w) a"
  by (simp add: reads_def decode_asset_def put_asset_def andThen_step wire_laws decode_bytes_vec_put give_def)

lemma decode_scene_put:
  assumes "wire_ok w" and "scene_bounded g" and "list_all (\<lambda>a. length (ga_data a) \<le> MAX_GRAPHICS_FRAME_SIZE) (gs_assets g)"
  shows "decode_graphics_scene w (put_scene w g s) = Inr (g, s)"
proof -
  have "\<forall>a\<in>set (gs_assets g). reads (decode_asset w) (put_asset w) a"
    using assms(1,3) decode_asset_put by (auto simp: list_all_iff)
  note t = times_reads [OF this]
  have b: "length (gs_assets g) \<le> MAX_ASSETS" "length (gs_placements g) \<le> MAX_PLACEMENTS"
    "length (gs_retained_assets g) \<le> MAX_RETAINED_ASSETS" using assms(2) by (simp_all add: scene_bounded_def)
  have "andThen (decode_count w MAX_ASSETS msg) (\<lambda>n. times n (decode_asset w)) (put_list w (put_asset w) (gs_assets g) u)
      = Inr (gs_assets g, u)" for msg u
    by (simp add: put_list_def andThen_step decode_count_put [OF assms(1) b(1)] t)
  then show ?thesis
    by (simp add: decode_graphics_scene_def put_scene_def andThen_step b decode_bounded_vec_put [OF assms(1)]
        wire_reads [OF assms(1)] give_def)
qed

definition surface_sendable :: "pane_surface \<Rightarrow> bool" where
  "surface_sendable p \<longleftrightarrow> surface_bounded p \<and> frame_sendable (pf_frame p) \<and>
     (\<forall>q. pf_popup p = Some q \<longrightarrow> frame_sendable (ps_frame q)) \<and>
     list_all (\<lambda>a. length (ga_data a) \<le> MAX_GRAPHICS_FRAME_SIZE) (gs_assets (pf_graphics p))"

lemma decode_surface_put:
  assumes w: "wire_ok w" and "surface_sendable p"
  shows "decode_surface w (put_surface w p s) = Inr ((p, has_graphics (pf_graphics p)), s)"
proof -
  have b: "frame_sendable (pf_frame p)" "length (pf_panes p) \<le> MAX_PANES" "length (pf_splits p) \<le> MAX_SPLITS"
    "list_all (\<lambda>sp. length (ss_path sp) \<le> MAX_SPLIT_PATH) (pf_splits p)"
    "\<And>q. pf_popup p = Some q \<Longrightarrow> frame_sendable (ps_frame q)" "scene_bounded (pf_graphics p)"
    "list_all (\<lambda>a. length (ga_data a) \<le> MAX_GRAPHICS_FRAME_SIZE) (gs_assets (pf_graphics p))"
    using assms(2) by (simp_all add: surface_sendable_def surface_bounded_def)
  show ?thesis
    by (simp add: decode_surface_def put_surface_def andThen_step wire_laws [OF w] decode_frame_put [OF w b(1)]
        decode_bounded_vec_put [OF w] wire_reads [OF w] b(2) decode_splits_put [OF w b(3,4)]
        decode_popup_put [OF w b(5)] decode_scene_put [OF w b(6,7)] give_def)
qed

lemma decode_rows_loop_put:
  assumes w: "wire_ok w" and "width * height \<le> u64_max"
  shows "rows_from width height pe rows \<Longrightarrow> sofar + row_cells rows \<le> budget \<Longrightarrow> budget \<le> u64_max \<Longrightarrow>
    decode_rows_loop w width height budget sofar pe (length rows) (foldr (put_row w) rows s) = Inr (rows, s)"
proof (induction rows arbitrary: sofar pe)
  case Nil
  then show ?case by (simp add: give_def)
next
  case (Cons r rows)
  let ?k = "length (pr_cells r)"
  have g: "row_in_grid width height r" using Cons.prems by simp
  have k: "?k \<noteq> 0" "pr_y r < height" "pr_x r < width" "?k \<le> width - pr_x r"
    using g by (cases "pr_cells r"; auto simp: row_in_grid_def)+
  have start: "Option.bind (checked_mul u64_max (pr_y r) width) (\<lambda>v. checked_add u64_max v (pr_x r)) = Some (row_start width r)"
    using row_in_grid_end [OF g] assms(2) by (simp add: checked_mul_def checked_add_def row_start_def)
  have pe: "pe \<le> row_start width r" using Cons.prems by simp
  have budget: "sofar + ?k \<le> budget" using Cons.prems(2) by (simp add: row_cells_def)
  have t: "times ?k (get_cell w) (foldr (put_cell w) (pr_cells r) u) = Inr (pr_cells r, u)" for u
    by (rule times_reads) (simp add: wire_reads [OF w])
  have "decode_rows_loop w width height budget (sofar + ?k) (row_start width r + ?k) (length rows) (foldr (put_row w) rows s)
      = Inr (rows, s)"
    using Cons by (simp add: row_cells_def add.assoc)
  moreover have "checked_add u64_max sofar ?k = Some (sofar + ?k)"
    using budget Cons.prems(3) by (simp add: checked_add_def)
  ultimately show ?case
    using k pe budget
    by (simp add: put_row_def [of w r] put_list_def andThen_step wire_laws [OF w] decode_sequence_len_def start
        t give_def)
qed

lemma decode_rows_put:
  assumes w: "wire_ok w" and "rows_from width height 0 rows" and "length rows \<le> MAX_SPANS"
    and "checked_grid_size width height = Inr (width * height)"
  shows "decode_rows w width height (put_list w (put_row w) rows s) = Inr (rows, s)"
proof -
  have le: "width * height \<le> u64_max"
    using assms(4) by (simp add: checked_grid_size_Inr MAX_GRID_CELLS_def u64_max_def)
  have cells: "row_cells rows \<le> width * height" using rows_from_cells [OF assms(2)] by simp
  moreover have "length rows \<le> row_cells rows"
    using rows_from_in_grid [OF assms(2)] by (intro rows_count_le_cells) (auto simp: row_in_grid_def)
  ultimately have "length rows \<le> min MAX_SPANS (width * height)" using assms(3) by simp
  note c = decode_count_put [OF w this]
  show ?thesis
    using decode_rows_loop_put [OF w le assms(2), of 0 "width * height" s] cells le
    by (simp add: decode_rows_def put_list_def andThen_step grid_size_of_Inr assms(4) c)
qed


lemma decode_popup_update_put:
  assumes w: "wire_ok w" and "update_bounded popup u" and "\<And>p. popup = Some p \<Longrightarrow> frame_bounded (ps_frame p)"
  shows "decode_popup_update w popup (put_popup_update w u s) = Inr (u, s)"
proof (cases u)
  case None
  then show ?thesis
    by (simp add: decode_popup_update_def put_popup_update_def andThen_step wire_laws [OF w] give_def)
next
  case (Some v)
  with assms(2) obtain p where p: "popup = Some p" by (auto simp: update_bounded_def)
  then have b: "frame_bounded (ps_frame p)" by (rule assms(3))
  have size_ok: "checked_grid_size (fd_width (ps_frame p)) (fd_height (ps_frame p)) =
      Inr (fd_width (ps_frame p) * fd_height (ps_frame p))"
    using b by (simp add: checked_grid_size_Inr frame_bounded_def)
  show ?thesis
  proof (cases v)
    case (GridPatch rows)
    with assms(2) Some p have "rows_from (fd_width (ps_frame p)) (fd_height (ps_frame p)) 0 rows" "length rows \<le> MAX_SPANS"
      by (simp_all add: update_bounded_def)
    from decode_rows_put [OF w this size_ok] show ?thesis
      by (simp add: Some GridPatch p decode_popup_update_def put_popup_update_def andThen_step wire_laws [OF w] Let_def give_def)
  next
    case (GridReplace cells)
    with assms(2) Some p have len: "length cells = fd_width (ps_frame p) * fd_height (ps_frame p)"
      by (simp add: update_bounded_def)
    have t: "times (length cells) (get_cell w) (foldr (put_cell w) cells s) = Inr (cells, s)"
      by (rule times_reads) (simp add: wire_reads [OF w])
    show ?thesis
      using t by (simp add: Some GridReplace p decode_popup_update_def put_popup_update_def andThen_step wire_laws [OF w]
          Let_def grid_size_of_bounded [OF b] decode_sequence_len_def put_list_def len give_def)
  qed
qed

lemma decode_delta_put:
  assumes w: "wire_ok w" and "surface_sendable (sd_surface d)" and "delta_bounded d"
    and "dims = (fd_width (pf_frame (sd_surface d)), fd_height (pf_frame (sd_surface d)))"
    and "has_graphics (pf_graphics (sd_surface d)) \<or> n \<le> MAX_FRAME_SIZE"
  shows "decode_delta_fields w \<lparr>dc_expected = Some dims, dc_data_len = n\<rparr> (put_delta w d s) = Inr (d, s)"
proof -
  let ?f = "pf_frame (sd_surface d)"
  have b: "frame_bounded ?f" using assms(2) by (simp add: surface_sendable_def surface_bounded_def)
  have rows: "decode_rows w (fd_width ?f) (fd_height ?f) (put_list w (put_row w) (sd_rows d) t) = Inr (sd_rows d, t)" for t
    using assms(3) b by (intro decode_rows_put [OF w]) (auto simp: delta_bounded_def checked_grid_size_Inr frame_bounded_def)
  have upd: "decode_popup_update w (pf_popup (sd_surface d)) (put_popup_update w (sd_popup_cells d) s) = Inr (sd_popup_cells d, s)"
    using assms(2,3) by (intro decode_popup_update_put [OF w])
      (auto simp: delta_bounded_def surface_sendable_def surface_bounded_def)
  show ?thesis
    using assms(5)
    by (auto simp: decode_delta_fields_def put_delta_def andThen_step wire_laws [OF w] decode_surface_put [OF w assms(2)]
        Let_def assms(4) grid_size_of_bounded [OF b] rows upd give_def)
qed

lemma decode_for_put:
  assumes w: "wire_ok w" and "surface_sendable (sd_surface d)" and "delta_bounded d"
    and "dims = (fd_width (pf_frame (sd_surface d)), fd_height (pf_frame (sd_surface d)))"
    and "b64_len w (stream_len w (put_delta w d (stream_end w))) = Some n"
    and "n \<le> (if has_graphics (pf_graphics (sd_surface d)) then MAX_GRAPHICS_FRAME_SIZE else MAX_FRAME_SIZE)"
  shows "decode_for w (b64_encode w (put_delta w d (stream_end w))) dims = Inr d"
proof -
  let ?b = "put_delta w d (stream_end w)"
  have len: "length (b64_encode w ?b) = n" "stream_len w ?b \<le> n" and b64: "b64_decode w (b64_encode w ?b) = Inr ?b"
    and "at_end w (stream_end w)"
    using w assms(5) unfolding wire_ok_def by (blast, metis, blast, blast)
  moreover have "n \<le> MAX_GRAPHICS_FRAME_SIZE" "has_graphics (pf_graphics (sd_surface d)) \<or> n \<le> MAX_FRAME_SIZE"
    using assms(6) by (auto simp: MAX_GRAPHICS_FRAME_SIZE_def MAX_FRAME_SIZE_def split: if_splits)
  ultimately show ?thesis
    using decode_delta_put [OF w assms(2,3,4), of n "stream_end w"]
    by (simp add: decode_for_def delta_decode_def decode_bytes_with_data_len_def)
qed

subsection \<open>The message and its meaning\<close>

text \<open>How the popup's cells come out of an update: patched from the previous ones or replaced.\<close>

definition same_popup_grid :: "popup_surface \<Rightarrow> popup_surface \<Rightarrow> bool" where
  "same_popup_grid a b \<longleftrightarrow> ps_terminal_id a = ps_terminal_id b \<and> fd_width (ps_frame a) = fd_width (ps_frame b) \<and>
     fd_height (ps_frame a) = fd_height (ps_frame b) \<and> length (fd_cells (ps_frame a)) = length (fd_cells (ps_frame b))"

definition popup_cells_ok :: "pane_surface \<Rightarrow> pane_surface \<Rightarrow> grid_update option \<Rightarrow> bool" where
  "popup_cells_ok prev surface u \<longleftrightarrow>
     (case pf_popup surface of
        None \<Rightarrow> u = None
      | Some p \<Rightarrow>
          u = Some (GridReplace (fd_cells (ps_frame p))) \<or>
          (\<exists>q rows. u = Some (GridPatch rows) \<and> pf_popup prev = Some q \<and> same_popup_grid q p \<and>
             apply_rows (fd_cells (ps_frame q)) (fd_width (ps_frame p)) rows = Inr (fd_cells (ps_frame p)) \<and>
             rows_from (fd_width (ps_frame p)) (fd_height (ps_frame p)) 0 rows \<and> length rows \<le> MAX_SPANS))"

lemma frame_metadata_fits_dims:
  assumes "frame_metadata_fits f"
  shows "length (fd_cells f) = fd_width f * fd_height f" "fd_width f \<le> 65535" "fd_height f \<le> 65535"
    "frame_sendable (f\<lparr>fd_cells := []\<rparr>)"
  using assms
  by (auto simp: frame_metadata_fits_def frame_sendable_def frame_bounded_def checked_grid_size_Inr
      MAX_GRID_DIMENSION_def split: sum.splits)

lemma popup_update_Some:
  assumes "popup_update w prev surface full_size = Inr (Some u)" and "metadata_fits surface"
  shows "popup_cells_ok prev surface u"
proof (cases "pf_popup surface")
  case None
  with assms show ?thesis by (simp add: popup_update_def popup_cells_ok_def)
next
  case (Some p)
  then have "frame_metadata_fits (ps_frame p)" using assms(2) by (simp add: metadata_fits_def)
  note f = frame_metadata_fits_dims [OF this]
  from assms(1) Some consider
      "u = Some (GridReplace (fd_cells (ps_frame p)))"
    | q rows where "pf_popup prev = Some q" "same_popup_grid q p" "u = Some (GridPatch rows)"
      "changed_rows w (fd_cells (ps_frame q)) (fd_cells (ps_frame p)) (fd_width (ps_frame p)) full_size = Inr (Some rows)"
    by (auto simp: popup_update_def Let_def rthen_Inr_iff same_popup_grid_def split: option.splits if_splits)
  then show ?thesis
  proof cases
    case 1
    then show ?thesis by (simp add: popup_cells_ok_def Some)
  next
    case (2 q rows)
    from 2(2) f(1) have "length (fd_cells (ps_frame q)) = fd_width (ps_frame p) * fd_height (ps_frame p)"
      by (simp add: same_popup_grid_def)
    from changed_rows_Some [OF 2(4) this f(1,2,3)] 2 show ?thesis by (simp add: popup_cells_ok_def Some)
  qed
qed

lemma take_cells_sendable: "metadata_fits s \<Longrightarrow> surface_sendable (take_cells s)"
  using frame_metadata_fits_dims(4)
  by (auto simp: metadata_fits_def surface_sendable_def surface_bounded_def take_cells_def scene_bounded_def
      frame_sendable_def)

lemma popup_cells_ok_bounded:
  assumes "popup_cells_ok prev surface u" and "metadata_fits surface"
  shows "update_bounded (pf_popup (take_cells surface)) u"
proof (cases "pf_popup surface")
  case None
  with assms(1) show ?thesis by (simp add: popup_cells_ok_def update_bounded_def)
next
  case (Some p)
  then have "frame_metadata_fits (ps_frame p)" using assms(2) by (simp add: metadata_fits_def)
  from frame_metadata_fits_dims(1) [OF this] Some assms(1) show ?thesis
    by (auto simp: popup_cells_ok_def update_bounded_def take_cells_def)
qed

lemma delta_message_Some:
  assumes w: "wire_ok w" and m: "delta_message w prev (MsgPaneSurface surface) = Inr (Some msg)"
  obtains data d where "msg = MsgEndpointControl DELTA_KIND data"
    "decode_for w data (fd_width (pf_frame surface), fd_height (pf_frame surface)) = Inr d"
    "sd_surface d = take_cells surface"
    "sd_base_projection_revision d = pf_projection_revision prev"
    "sd_base_surface_revision d = pf_surface_revision prev"
    "apply_rows (fd_cells (pf_frame prev)) (fd_width (pf_frame surface)) (sd_rows d) = Inr (fd_cells (pf_frame surface))"
    "popup_cells_ok prev surface (sd_popup_cells d)"
    "pf_boot_id prev = pf_boot_id surface" "fd_width (pf_frame prev) = fd_width (pf_frame surface)"
    "fd_height (pf_frame prev) = fd_height (pf_frame surface)"
    "length (fd_cells (pf_frame prev)) = fd_width (pf_frame prev) * fd_height (pf_frame prev)"
    "metadata_fits surface"
proof -
  define d where "d rows u = \<lparr>sd_base_projection_revision = pf_projection_revision prev,
     sd_base_surface_revision = pf_surface_revision prev, sd_surface = take_cells surface, sd_rows = rows, sd_popup_cells = u\<rparr>" for rows u
  define cap where "cap = (if has_graphics (pf_graphics surface) then MAX_GRAPHICS_FRAME_SIZE else MAX_FRAME_SIZE)"
  from m obtain full_size r where
    h: "pf_boot_id prev = pf_boot_id surface" "fd_width (pf_frame prev) = fd_width (pf_frame surface)"
       "fd_height (pf_frame prev) = fd_height (pf_frame surface)"
       "length (fd_cells (pf_frame prev)) = fd_width (pf_frame surface) * fd_height (pf_frame surface)"
       "metadata_fits surface"
    and ch: "changed_rows w (fd_cells (pf_frame prev)) (fd_cells (pf_frame surface)) (fd_width (pf_frame surface)) full_size = Inr r"
    and rest: "(case r of None \<Rightarrow> Inr None | Some rows \<Rightarrow>
      rthen (popup_update w prev surface full_size) (\<lambda>u. case u of None \<Rightarrow> Inr None | Some pc \<Rightarrow>
        (case b64_len w (stream_len w (put_delta w (d rows pc) (stream_end w))) of
           None \<Rightarrow> Inl (Err ''surface delta size overflow'')
         | Some encoded_len \<Rightarrow> if cap < encoded_len \<or> full_size \<le> encoded_len then Inr None
             else rthen (size_message w (MsgEndpointControl DELTA_KIND (b64_encode w (put_delta w (d rows pc) (stream_end w))))) (\<lambda>sz.
               Inr (if sz \<le> cap \<and> sz < full_size
                    then Some (MsgEndpointControl DELTA_KIND (b64_encode w (put_delta w (d rows pc) (stream_end w)))) else None))))) = Inr (Some msg)"
    unfolding delta_message_def Let_def server_message.case d_def [symmetric] cap_def [symmetric]
    by (auto simp only: rthen_Inr_iff split: if_splits)
  from rest obtain rows where r: "r = Some rows" by (cases r) auto
  from rest r obtain pc where u: "popup_update w prev surface full_size = Inr (Some pc)"
    and rest2: "(case b64_len w (stream_len w (put_delta w (d rows pc) (stream_end w))) of
           None \<Rightarrow> Inl (Err ''surface delta size overflow'')
         | Some encoded_len \<Rightarrow> if cap < encoded_len \<or> full_size \<le> encoded_len then Inr None
             else rthen (size_message w (MsgEndpointControl DELTA_KIND (b64_encode w (put_delta w (d rows pc) (stream_end w))))) (\<lambda>sz.
               Inr (if sz \<le> cap \<and> sz < full_size
                    then Some (MsgEndpointControl DELTA_KIND (b64_encode w (put_delta w (d rows pc) (stream_end w)))) else None))) = Inr (Some msg)"
    by (auto simp: rthen_Inr_iff split: option.splits)
  from rest2 obtain n where n: "b64_len w (stream_len w (put_delta w (d rows pc) (stream_end w))) = Some n" "n \<le> cap"
    and msg: "msg = MsgEndpointControl DELTA_KIND (b64_encode w (put_delta w (d rows pc) (stream_end w)))"
    by (auto simp: rthen_Inr_iff not_less split: option.splits if_splits)
  note rows = ch [unfolded r]
  have f: "frame_metadata_fits (pf_frame surface)" using h(5) by (simp add: metadata_fits_def)
  note fd = frame_metadata_fits_dims [OF f]
  note cr = changed_rows_Some [OF rows h(4) fd(1,2,3)]
  note pk = popup_update_Some [OF u h(5)]
  have g: "pf_graphics (take_cells surface) = pf_graphics surface"
    "fd_width (pf_frame (take_cells surface)) = fd_width (pf_frame surface)"
    "fd_height (pf_frame (take_cells surface)) = fd_height (pf_frame surface)" by (simp_all add: take_cells_def)
  have sb: "surface_sendable (sd_surface (d rows pc))" using take_cells_sendable [OF h(5)] by (simp add: d_def)
  have db: "delta_bounded (d rows pc)"
    using sb cr popup_cells_ok_bounded [OF pk h(5)] by (simp add: delta_bounded_def d_def g surface_sendable_def)
  have "decode_for w (b64_encode w (put_delta w (d rows pc) (stream_end w)))
      (fd_width (pf_frame surface), fd_height (pf_frame surface)) = Inr (d rows pc)"
    using n unfolding cap_def by (intro decode_for_put [OF w sb db]) (simp_all add: d_def g)
  with msg cr(1) pk h show ?thesis by (intro that [of _ "d rows pc"]) (simp_all add: d_def)
qed

end
