(* ===== verification/Framing.thy ===== *)
theory Framing
  imports Surface "HOL-Library.Word"
begin

section \<open>Length-prefixed frames\<close>

text \<open>
  The framing of \<open>src/src/protocol/wire.rs\<close>: a message is a little-endian 32-bit length and
  that many payload bytes.  The payload codec is a library: \<open>enc\<close> and \<open>dec\<close> are parameters,
  and \<open>codec_ok\<close> states that decoding an encoded payload gives the message back and
  consumes all of it.  Reading is from a byte slice, so the only read error is its end;
  the reader returns the bytes left behind it as well.
\<close>

type_synonym byte = "8 word"

datatype framing_error = Oversized nat nat | BincodeError string | UnexpectedEof

definition LENGTH_PREFIX_BYTES :: nat where
  "LENGTH_PREFIX_BYTES = 4"

definition PROTOCOL_VERSION :: u32 where
  "PROTOCOL_VERSION = 24"

fun to_le :: "nat \<Rightarrow> nat \<Rightarrow> byte list" where
  "to_le 0 v = []"
| "to_le (Suc k) v = of_nat v # to_le k (v div 256)"

fun from_le :: "byte list \<Rightarrow> nat" where
  "from_le [] = 0"
| "from_le (b # bs) = unat b + 256 * from_le bs"

definition write_message :: "('m \<Rightarrow> string + byte list) \<Rightarrow> byte list \<Rightarrow> 'm \<Rightarrow> framing_error + byte list" where
  "write_message enc out msg =
     (case enc msg of
        Inl e \<Rightarrow> Inl (BincodeError e)
      | Inr payload \<Rightarrow>
          if u32_max < length payload then Inl (BincodeError (''payload length '' @ show_nat (length payload) @ '' exceeds u32::MAX ('' @ show_nat u32_max @
                 ''), would be truncated by length prefix''))
          else Inr (out @ to_le 4 (length payload) @ payload))"

text \<open>\<open>read_exact\<close> on a slice that is too short consumes it and fails.\<close>

definition read_exact_or_eof :: "byte list \<Rightarrow> nat \<Rightarrow> (framing_error + byte list) \<times> byte list" where
  "read_exact_or_eof s n = (if length s < n then (Inl UnexpectedEof, []) else (Inr (take n s), drop n s))"

definition read_message ::
    "(byte list \<Rightarrow> string + 'm \<times> nat) \<Rightarrow> byte list \<Rightarrow> nat \<Rightarrow> (framing_error + 'm) \<times> byte list" where
  "read_message dec s max_frame_size =
     (case read_exact_or_eof s LENGTH_PREFIX_BYTES of
        (Inl e, s1) \<Rightarrow> (Inl e, s1)
      | (Inr len_buf, s1) \<Rightarrow>
          let claimed_len = from_le len_buf in
          if max_frame_size < claimed_len then (Inl (Oversized claimed_len max_frame_size), s1)
          else case read_exact_or_eof s1 claimed_len of
                 (Inl e, s2) \<Rightarrow> (Inl e, s2)
               | (Inr payload, s2) \<Rightarrow>
                   (case dec payload of
                      Inl e \<Rightarrow> (Inl (BincodeError e), s2)
                    | Inr (msg, consumed) \<Rightarrow>
                        if consumed \<noteq> claimed_len
                        then (Inl (BincodeError (''decoded '' @ show_nat consumed @ '' bytes but payload length was '' @
                                show_nat claimed_len @ ''; trailing bytes are not allowed'')), s2)
                        else (Inr msg, s2)))"

text \<open>How a framing error is printed.\<close>

fun framing_error_text :: "framing_error \<Rightarrow> string" where
  "framing_error_text (Oversized claimed cap) =
     ''frame size '' @ show_nat claimed @ '' exceeds maximum '' @ show_nat cap"
| "framing_error_text (BincodeError e) = ''bincode error: '' @ e"
| "framing_error_text UnexpectedEof = ''unexpected end of stream''"

datatype version_check = Compatible | Incompatible string

definition check_client_version :: "u32 \<Rightarrow> version_check" where
  "check_client_version client_version =
     (if client_version = 0 then Incompatible ''pre-persistence client (version 0) is not supported''
      else if client_version = PROTOCOL_VERSION then Compatible
      else if client_version < PROTOCOL_VERSION
      then Incompatible (''client version '' @ show_nat client_version @ '' is older than server version '' @
             show_nat PROTOCOL_VERSION @ ''; please upgrade your herdr client'')
      else Incompatible (''client version '' @ show_nat client_version @ '' is newer than server version '' @
             show_nat PROTOCOL_VERSION @ ''; please upgrade the herdr server''))"

subsection \<open>Little-endian integers\<close>

lemma to_le_length [simp]: "length (to_le k v) = k"
  by (induction k arbitrary: v) auto

lemma unat_byte_of_nat [simp]: "unat (of_nat v :: byte) = v mod 256"
  by (simp add: unat_of_nat)

lemma from_to_le: "v < 256 ^ k \<Longrightarrow> from_le (to_le k v) = v"
proof (induction k arbitrary: v)
  case (Suc k)
  then have "v div 256 < 256 ^ k" by (simp add: less_mult_imp_div_less mult.commute)
  with Suc.IH [of "v div 256"] show ?case by simp
qed simp

lemma unat_byte_less [simp]: "unat (b :: byte) < 256"
  using unsigned_less [of b] by simp

lemma to_from_le: "to_le (length bs) (from_le bs) = bs"
proof (induction bs)
  case (Cons b bs)
  have "(of_nat (unat b + 256 * from_le bs) :: byte) = b"
    by (simp only: word_unat_eq_iff unat_byte_of_nat) simp
  moreover have "(unat b + 256 * from_le bs) div 256 = from_le bs" by simp
  ultimately show ?case using Cons by simp
qed simp

lemma from_le_less: "from_le bs < 256 ^ length bs"
proof (induction bs)
  case (Cons b bs)
  have "unat b + 256 * from_le bs < 256 * (from_le bs + 1)" by simp
  also have "\<dots> \<le> 256 * 256 ^ length bs" using Cons by (intro mult_left_mono) auto
  finally show ?case by simp
qed simp

subsection \<open>Reading back a written frame\<close>

definition codec_ok :: "('m \<Rightarrow> string + byte list) \<Rightarrow> (byte list \<Rightarrow> string + 'm \<times> nat) \<Rightarrow> bool" where
  "codec_ok enc dec \<longleftrightarrow> (\<forall>m p. enc m = Inr p \<longrightarrow> dec p = Inr (m, length p))"

lemma write_message_Inr:
  "write_message enc out msg = Inr bytes \<longleftrightarrow>
     (\<exists>p. enc msg = Inr p \<and> length p \<le> u32_max \<and> bytes = out @ to_le 4 (length p) @ p)"
  by (auto simp: write_message_def not_less split: sum.splits)

lemma read_written:
  assumes "codec_ok enc dec" and "enc msg = Inr p" and "length p \<le> u32_max" and "length p \<le> cap"
  shows "read_message dec (to_le 4 (length p) @ p @ rest) cap = (Inr msg, rest)"
proof -
  have "from_le (to_le 4 (length p)) = length p"
    using assms(3) by (intro from_to_le) (simp add: u32_max_def)
  moreover have "dec p = Inr (msg, length p)" using assms(1,2) by (simp add: codec_ok_def)
  ultimately show ?thesis
    using assms(4) by (simp add: read_message_def read_exact_or_eof_def LENGTH_PREFIX_BYTES_def Let_def del: to_le.simps)
qed


lemma read_message_truncated:
  assumes "length p \<le> u32_max" and "length p \<le> cap" and "k < 4 + length p"
  shows "fst (read_message dec (take k (to_le 4 (length p) @ p)) cap) = Inl UnexpectedEof"
proof (cases "k < 4")
  case True
  then show ?thesis by (simp add: read_message_def read_exact_or_eof_def LENGTH_PREFIX_BYTES_def del: to_le.simps)
next
  case False
  have "from_le (to_le 4 (length p)) = length p"
    using assms(1) by (intro from_to_le) (simp add: u32_max_def)
  moreover have "k - 4 < length p" using False assms(3) by simp
  ultimately show ?thesis using False assms(2)
    by (simp add: read_message_def read_exact_or_eof_def LENGTH_PREFIX_BYTES_def Let_def del: to_le.simps)
qed

section \<open>Properties of the framing\<close>

text \<open>
  C9. A written frame reads back exactly: every strict prefix of it is reported as an
  unexpected end of stream, and the whole frame, whatever follows it, gives the message
  and leaves what follows.
\<close>

theorem framed_message_roundtrip:
  assumes "codec_ok enc dec" and "write_message enc [] msg = Inr frame" and "length frame \<le> 4 + cap"
  shows "(\<forall>k<length frame. fst (read_message dec (take k frame) cap) = Inl UnexpectedEof) \<and>
    read_message dec (frame @ rest) cap = (Inr msg, rest)"
proof -
  from assms(2) obtain p where p: "enc msg = Inr p" "length p \<le> u32_max" "frame = to_le 4 (length p) @ p"
    by (auto simp: write_message_Inr simp del: to_le.simps)
  then have cap: "length p \<le> cap" using assms(3) by (simp del: to_le.simps)
  show ?thesis
    using read_written [OF assms(1) p(1,2) cap, of rest] read_message_truncated [OF p(2) cap, of _ dec]
    unfolding p(3) by (simp del: to_le.simps take_append)
qed

theorem framed_message_roundtrip_witness:
  "read_message (\<lambda>bs. Inr (bs, length bs)) ([3, 0, 0, 0, 7, 8, 9] @ [1]) 100 = (Inr [7, 8, 9], [1])"
proof -
  have c: "codec_ok (\<lambda>m. Inr m) (\<lambda>bs. Inr (bs, length bs))" by (simp add: codec_ok_def)
  have four: "(4::nat) = Suc (Suc (Suc (Suc 0)))" by simp
  have le: "to_le 4 (length [7, 8, 9 :: byte]) = [3, 0, 0, 0]" unfolding four by simp
  have "write_message (\<lambda>m. Inr m) [] [7, 8, 9 :: byte] = Inr ([] @ to_le 4 (length [7, 8, 9 :: byte]) @ [7, 8, 9])"
    unfolding write_message_Inr by (intro exI [of _ "[7, 8, 9]"]) (simp add: u32_max_def)
  then have f: "write_message (\<lambda>m. Inr m) [] [7, 8, 9 :: byte] = Inr [3, 0, 0, 0, 7, 8, 9]"
    unfolding le by simp
  from framed_message_roundtrip [OF c f, of 100 "[1]"] show ?thesis by simp
qed

end
