(* ===== verification/SurfaceScroll.thy ===== *)
theory SurfaceScroll
  imports SurfaceDelta Framing "HOL-Library.Sublist"
begin

section \<open>Scroll-aware patches\<close>

text \<open>
  The model of \<open>src/src/protocol/surface_scroll.rs\<close>.  The sender describes a pane that
  scrolled by a vertical shift and the cells that still differ after it; the receiver
  reorders the rows of its retained grid, writes the remaining rows, and expands the
  message into an ordinary patch.  A signed 16-bit shift is an integer.  The bytes of the
  nested patch, base64 and the size of an encoded message come from libraries: they are
  the fields of \<open>scroll_lib\<close>.  The symbol of a cell is the list of its UTF-8 bytes.
\<close>

unbundle bit_operations_syntax

record scroll_lib =
  sl_enc :: "server_message \<Rightarrow> string + byte list"
  sl_dec :: "byte list \<Rightarrow> string + server_message \<times> nat"
  sl_b64_encode :: "byte list \<Rightarrow> string"
  sl_b64_decode :: "string \<Rightarrow> string + byte list"
  sl_b64_len :: "nat \<Rightarrow> nat option"
  sl_size :: "server_message \<Rightarrow> nat option"

record surface_scroll =
  sc_rect :: surface_rect
  sc_shift :: int

record scroll_patch =
  xp_scrolls :: "surface_scroll list"
  xp_patch :: surface_patch

definition SCROLL_KIND :: string where
  "SCROLL_KIND = ''endpoint.surface-scroll.v1''"

definition MAX_SCROLLS :: nat where "MAX_SCROLLS = 64"
definition SCROLL_BYTES :: nat where "SCROLL_BYTES = 10"

subsection \<open>Loops and slices that may panic\<close>

fun rfold :: "('b \<Rightarrow> 'a \<Rightarrow> 'a result) \<Rightarrow> 'b list \<Rightarrow> 'a \<Rightarrow> 'a result" where
  "rfold f [] s = Inr s"
| "rfold f (x # xs) s = rthen (f x s) (rfold f xs)"

fun rmap :: "('b \<Rightarrow> 'a result) \<Rightarrow> 'b list \<Rightarrow> 'a list result" where
  "rmap f [] = Inr []"
| "rmap f (x # xs) = rthen (f x) (\<lambda>y. rthen (rmap f xs) (\<lambda>ys. Inr (y # ys)))"

definition index_at :: "'a list \<Rightarrow> nat \<Rightarrow> 'a result" where
  "index_at xs i = (if i < length xs then Inr (xs ! i) else Inl Panic)"

definition slice_at :: "'a list \<Rightarrow> nat \<Rightarrow> nat \<Rightarrow> 'a list result" where
  "slice_at xs start n = (if start + n \<le> length xs then Inr (take n (drop start xs)) else Inl Panic)"

definition swap_at :: "nat \<Rightarrow> nat \<Rightarrow> 'a list \<Rightarrow> 'a list result" where
  "swap_at i j xs =
     (if i < length xs \<and> j < length xs then Inr (xs[i := xs ! j, j := xs ! i]) else Inl Panic)"

subsection \<open>Row order and geometry\<close>

definition wsub64 :: "usize \<Rightarrow> usize \<Rightarrow> usize" where
  "wsub64 a b = (a + 18446744073709551616 - b) mod 18446744073709551616"

definition for_each_swap :: "usize \<Rightarrow> int \<Rightarrow> (nat \<times> nat) list" where
  "for_each_swap height shift =
     (let distance = nat \<bar>shift\<bar> in
      if 0 < shift then map (\<lambda>y. (y, y + distance)) [0..<wsub64 height distance]
      else map (\<lambda>y. (y, y - distance)) (rev [distance..<height]))"

definition scroll_fits :: "surface_scroll \<Rightarrow> u16 \<Rightarrow> u16 \<Rightarrow> bool" where
  "scroll_fits scroll width height \<longleftrightarrow>
     (let rect = sc_rect scroll in
      0 < sr_width rect \<and> 2 \<le> sr_height rect \<and> sc_shift scroll \<noteq> 0 \<and>
      nat \<bar>sc_shift scroll\<bar> < sr_height rect \<and>
      (case checked_add u16_max (sr_x rect) (sr_width rect) of None \<Rightarrow> False | Some e \<Rightarrow> e \<le> width) \<and>
      (case checked_add u16_max (sr_y rect) (sr_height rect) of None \<Rightarrow> False | Some e \<Rightarrow> e \<le> height))"

definition rects_overlap :: "surface_rect \<Rightarrow> surface_rect \<Rightarrow> bool" where
  "rects_overlap a b \<longleftrightarrow>
     sr_x a < wadd16 (sr_x b) (sr_width b) \<and> sr_x b < wadd16 (sr_x a) (sr_width a) \<and>
     sr_y a < wadd16 (sr_y b) (sr_height b) \<and> sr_y b < wadd16 (sr_y a) (sr_height a)"

fun scrolls_disjoint :: "surface_scroll list \<Rightarrow> bool" where
  "scrolls_disjoint [] = True"
| "scrolls_disjoint (s # ss) \<longleftrightarrow>
     list_all (\<lambda>other. \<not> rects_overlap (sc_rect s) (sc_rect other)) ss \<and> scrolls_disjoint ss"

definition row_fits :: "patch_row \<Rightarrow> u16 \<Rightarrow> u16 \<Rightarrow> bool" where
  "row_fits row width height \<longleftrightarrow>
     pr_y row < height \<and> sat_add u64_max (pr_x row) (length (pr_cells row)) \<le> width"

definition scroll_row_start :: "surface_rect \<Rightarrow> nat \<Rightarrow> nat \<Rightarrow> nat" where
  "scroll_row_start rect stride y = (sr_y rect + y) * stride + sr_x rect"

definition apply_scroll :: "u16 \<Rightarrow> surface_scroll \<Rightarrow> cell_data list \<Rightarrow> cell_data list result" where
  "apply_scroll width scroll =
     (let rect = sc_rect scroll in
      rfold (\<lambda>(a, b). rfold (\<lambda>x. swap_at (scroll_row_start rect width a + x) (scroll_row_start rect width b + x))
                 [0..< sr_width rect])
        (for_each_swap (sr_height rect) (sc_shift scroll)))"

subsection \<open>Detecting a shift\<close>

record row_view =
  rv_base :: "cell_data list"
  rv_left :: nat
  rv_spans :: "patch_row list"

definition row_view_cell :: "row_view \<Rightarrow> nat \<Rightarrow> cell_data result" where
  "row_view_cell v x =
     (let column = rv_left v + x in
      case find (\<lambda>sp. pr_x sp \<le> column \<and> column < pr_x sp + length (pr_cells sp)) (rev (rv_spans v)) of
        Some sp \<Rightarrow> Inr (pr_cells sp ! (column - pr_x sp))
      | None \<Rightarrow> index_at (rv_base v) x)"

definition mix :: "64 word \<Rightarrow> 64 word \<Rightarrow> 64 word" where
  "mix hash v = (word_rotl 5 hash XOR v) * 0x517cc1b727220a95"

definition cell_hash :: "64 word \<Rightarrow> cell_data \<Rightarrow> 64 word" where
  "cell_hash hash cell =
     (let h1 = fold (\<lambda>c h. mix h (of_nat (of_char c))) (cd_symbol cell) hash;
          h2 = mix h1 (push_bit 32 (of_nat (cd_fg cell)) OR of_nat (cd_bg cell))
      in mix h2 (of_nat (cd_modifier cell) OR push_bit 16 (of_bool (cd_skip cell)) OR
           push_bit 17 (case cd_hyperlink cell of None \<Rightarrow> 0 | Some i \<Rightarrow> of_nat i + 1)))"

definition row_hash :: "cell_data list \<Rightarrow> 64 word" where
  "row_hash cells = fold (\<lambda>c h. cell_hash h c) cells 0"

definition row_view_cells :: "row_view \<Rightarrow> cell_data list result" where
  "row_view_cells v = rmap (row_view_cell v) [0..<length (rv_base v)]"

definition row_view_hash :: "row_view \<Rightarrow> (64 word) result" where
  "row_view_hash v = rthen (row_view_cells v) (\<lambda>cells. Inr (row_hash cells))"

definition fully_inside :: "patch_row \<Rightarrow> surface_rect \<Rightarrow> bool" where
  "fully_inside row rect \<longleftrightarrow>
     sr_y rect \<le> pr_y row \<and> pr_y row - sr_y rect < sr_height rect \<and> sr_x rect \<le> pr_x row \<and>
     pr_x row + length (pr_cells row) \<le> sr_x rect + sr_width rect"

text \<open>The parts of \<open>pane_scroll\<close>, in the order of its body: the rows that touch the pane,
  the views of its rows, the vote on a shift, and the spans that remain.\<close>

definition row_overlaps :: "patch_row \<Rightarrow> surface_rect \<Rightarrow> bool" where
  "row_overlaps row rect \<longleftrightarrow>
     sr_y rect \<le> pr_y row \<and> pr_y row - sr_y rect < sr_height rect \<and>
     pr_x row < sr_x rect + sr_width rect \<and> sr_x rect < pr_x row + length (pr_cells row)"

definition scroll_views :: "cell_data list list \<Rightarrow> surface_rect \<Rightarrow> patch_row list \<Rightarrow> row_view list" where
  "scroll_views previous rect rows =
     map (\<lambda>y. \<lparr>rv_base = previous ! y, rv_left = sr_x rect,
               rv_spans = filter (\<lambda>r. row_overlaps r rect \<and> pr_y r - sr_y rect = y) rows\<rparr>)
       [0..< sr_height rect]"

definition patch_cells :: "surface_rect \<Rightarrow> patch_row list \<Rightarrow> nat" where
  "patch_cells rect rows =
     sum_list (map (\<lambda>r. length (pr_cells r)) (filter (\<lambda>r. row_overlaps r rect \<and> fully_inside r rect) rows))"

definition shift_matches :: "(64 word) list \<Rightarrow> (64 word) list \<Rightarrow> nat \<Rightarrow> int \<Rightarrow> nat" where
  "shift_matches old_hashes new_hashes height shift =
     length (filter (\<lambda>y. 0 \<le> int y + shift \<and> nat (int y + shift) < height \<and>
        new_hashes ! y = old_hashes ! nat (int y + shift)) [0..<height])"

definition better_shift :: "(int \<Rightarrow> nat) \<Rightarrow> int \<Rightarrow> int \<times> nat \<Rightarrow> int \<times> nat" where
  "better_shift hits shift b = (if snd b < hits shift then (shift, hits shift) else b)"

fun search_shift :: "(int \<Rightarrow> nat) \<Rightarrow> nat \<Rightarrow> nat list \<Rightarrow> int \<times> nat \<Rightarrow> int \<times> nat" where
  "search_shift hits height [] b = b"
| "search_shift hits height (distance # ds) b =
     (if height - distance \<le> snd b then b
      else search_shift hits height ds
             (better_shift hits (- int distance) (better_shift hits (int distance) b)))"

fun residual_spans :: "surface_rect \<Rightarrow> nat \<Rightarrow> (cell_data list \<times> cell_data list) list \<Rightarrow> patch_row list result" where
  "residual_spans rect y [] = Inr []"
| "residual_spans rect y ((base, target) # pairs) =
     (case row_spans 0 base target of
        None \<Rightarrow> Inl Panic
      | Some sp \<Rightarrow> rthen (residual_spans rect (Suc y) pairs) (\<lambda>rest.
          Inr (map (\<lambda>(start, cs). \<lparr>pr_x = wadd16 (sr_x rect) (start mod 65536),
                                   pr_y = wadd16 (sr_y rect) (y mod 65536), pr_cells = cs\<rparr>) sp @ rest)))"

fun keep_residual :: "nat \<Rightarrow> nat \<Rightarrow> patch_row list \<Rightarrow> patch_row list option" where
  "keep_residual patched sofar [] = Some []"
| "keep_residual patched sofar (r # rs) =
     (let n = sofar + length (pr_cells r) in
      if patched \<le> n * 2 then None else map_option (Cons r) (keep_residual patched n rs))"

definition i16_try_from :: "int \<Rightarrow> int option" where
  "i16_try_from v = (if -32768 \<le> v \<and> v \<le> 32767 then Some v else None)"

definition pane_scroll ::
    "frame_data \<Rightarrow> surface_rect \<Rightarrow> patch_row list \<Rightarrow> (int \<times> patch_row list) option result" where
  "pane_scroll frame rect rows =
     (let width = sr_width rect; height = sr_height rect; stride = fd_width frame in
      rthen (rmap (\<lambda>y. slice_at (fd_cells frame) (scroll_row_start rect stride y) width) [0..<height]) (\<lambda>previous.
      let nexts = scroll_views previous rect rows; patched = patch_cells rect rows in
      if length (filter (\<lambda>v. rv_spans v \<noteq> []) nexts) < 2 then Inr None
      else
        let old_hashes = map (\<lambda>v. row_hash (rv_base v)) nexts in
        rthen (rmap (\<lambda>v. if rv_spans v = [] then Inr (row_hash (rv_base v)) else row_view_hash v) nexts) (\<lambda>new_hashes.
        let hits = shift_matches old_hashes new_hashes height;
            best_shift = fst (search_shift hits height [1..<height] (0, hits 0)) in
        if best_shift = 0 then Inr None
        else case i16_try_from best_shift of
               None \<Rightarrow> Inr None
             | Some shift \<Rightarrow>
                 rthen (rfold (\<lambda>(a, b). swap_at a b) (for_each_swap height shift) [0..<height]) (\<lambda>order.
                 rthen (rmap row_view_cells nexts) (\<lambda>targets.
                 rthen (residual_spans rect 0 (zip (map ((!) previous) order) targets)) (\<lambda>spans.
                   Inr (map_option (Pair shift) (keep_residual patched 0 spans))))))))"

subsection \<open>The message\<close>

fun collect_scrolls ::
    "pane_surface \<Rightarrow> surface_patch \<Rightarrow> surface_pane list \<Rightarrow> surface_scroll list \<Rightarrow> patch_row list \<Rightarrow>
     (surface_scroll list \<times> patch_row list) result" where
  "collect_scrolls prev patch [] scrolls residual = Inr (scrolls, residual)"
| "collect_scrolls prev patch (pane # panes) scrolls residual =
     (let rect = sp_inner_rect pane; frame = pf_frame prev in
      if \<not> list_ex (\<lambda>e. sp_pane_id e = sp_pane_id pane \<and> sp_inner_rect e = rect) (pf_panes prev) \<or>
         \<not> scroll_fits \<lparr>sc_rect = rect, sc_shift = 1\<rparr> (fd_width frame) (fd_height frame)
      then collect_scrolls prev patch panes scrolls residual
      else rthen (pane_scroll frame rect (sq_rows patch)) (\<lambda>r.
        case r of
          None \<Rightarrow> collect_scrolls prev patch panes scrolls residual
        | Some (shift, rows) \<Rightarrow>
            let scrolls' = scrolls @ [\<lparr>sc_rect = rect, sc_shift = shift\<rparr>]; residual' = residual @ rows in
            if length scrolls' = MAX_SCROLLS then Inr (scrolls', residual')
            else collect_scrolls prev patch panes scrolls' residual'))"

definition i16_bits :: "int \<Rightarrow> nat" where
  "i16_bits v = nat (v mod 65536)"

definition i16_of_bits :: "nat \<Rightarrow> int" where
  "i16_of_bits n = (if n < 32768 then int n else int n - 65536)"

definition scroll_bytes :: "surface_scroll \<Rightarrow> byte list" where
  "scroll_bytes s =
     (let r = sc_rect s in
      to_le 2 (sr_x r) @ to_le 2 (sr_y r) @ to_le 2 (sr_width r) @ to_le 2 (sr_height r) @
      to_le 2 (i16_bits (sc_shift s)))"

definition scroll_message :: "scroll_lib \<Rightarrow> pane_surface \<Rightarrow> surface_patch \<Rightarrow> server_message option result" where
  "scroll_message lib prev patch =
     (let frame = pf_frame prev in
      if length (fd_cells frame) \<noteq> fd_width frame * fd_height frame then Inr None
      else rthen (collect_scrolls prev patch (sq_panes patch) [] []) (\<lambda>(scrolls, residual).
        if scrolls = [] then Inr None
        else
          let rows = filter (\<lambda>row. \<not> list_ex (\<lambda>s. fully_inside row (sc_rect s)) scrolls) (sq_rows patch) @ residual;
              inner = MsgPaneSurfacePatch (patch\<lparr>sq_rows := rows\<rparr>);
              bytes = of_nat (length scrolls) # concat (map scroll_bytes scrolls)
          in case write_message (sl_enc lib) bytes inner of
               Inl _ \<Rightarrow> Inr None
             | Inr framed \<Rightarrow>
                 let message = MsgEndpointControl SCROLL_KIND (sl_b64_encode lib framed) in
                 Inr (case sl_size lib message of
                        None \<Rightarrow> None
                      | Some n \<Rightarrow> if n \<le> MAX_FRAME_SIZE then Some message else None)))"

subsection \<open>The receiver\<close>

fun read_scrolls :: "nat \<Rightarrow> byte list \<Rightarrow> surface_scroll list" where
  "read_scrolls 0 bs = []"
| "read_scrolls (Suc n) bs =
     (let u16_at = (\<lambda>k. from_le (take 2 (drop k bs))) in
      \<lparr>sc_rect = \<lparr>sr_x = u16_at 0, sr_y = u16_at 2, sr_width = u16_at 4, sr_height = u16_at 6\<rparr>,
       sc_shift = i16_of_bits (u16_at 8)\<rparr> # read_scrolls n (drop SCROLL_BYTES bs))"

definition scroll_decode :: "scroll_lib \<Rightarrow> string \<Rightarrow> scroll_patch result" where
  "scroll_decode lib data =
     (let limit = (case sl_b64_len lib MAX_FRAME_SIZE of None \<Rightarrow> u64_max | Some n \<Rightarrow> n) in
      if limit < length data then Inl (Err ''surface scroll exceeds the frame limit'')
      else case sl_b64_decode lib data of
             Inl e \<Rightarrow> Inl (Err (''invalid surface scroll: '' @ e))
           | Inr [] \<Rightarrow> Inl (Err ''empty surface scroll'')
           | Inr (b # bs) \<Rightarrow>
               let count = unat b in
               if count = 0 \<or> MAX_SCROLLS < count then Inl (Err ''surface scroll has an invalid scroll count'')
               else let header = 1 + count * SCROLL_BYTES in
               if length (b # bs) < header then Inl (Err ''surface scroll is truncated'')
               else let scrolls = read_scrolls count (take (count * SCROLL_BYTES) bs);
                        (decoded, rest) = read_message (sl_dec lib) (drop header (b # bs)) MAX_FRAME_SIZE in
               if rest \<noteq> [] then Inl (Err ''surface scroll has trailing bytes'')
               else case decoded of
                      Inr (MsgPaneSurfacePatch patch) \<Rightarrow> Inr \<lparr>xp_scrolls = scrolls, xp_patch = patch\<rparr>
                    | Inr _ \<Rightarrow> Inl (Err ''surface scroll does not carry a pane patch'')
                    | Inl e \<Rightarrow> Inl (Err (''invalid surface scroll patch: '' @ framing_error_text e)))"

fun outside_spans :: "patch_row \<Rightarrow> nat \<Rightarrow> (nat \<times> nat) list \<Rightarrow> patch_row list" where
  "outside_spans row cursor [] = []"
| "outside_spans row cursor ((left, right) # covered) =
     (let start = pr_x row; stop = start + length (pr_cells row);
          span_end = max cursor (min left stop);
          tail = outside_spans row (max cursor (min right stop)) covered
      in if cursor < span_end
         then \<lparr>pr_x = cursor mod 65536, pr_y = pr_y row,
               pr_cells = take (span_end - cursor) (drop (cursor - start) (pr_cells row))\<rparr> # tail
         else tail)"

definition covered_columns :: "patch_row \<Rightarrow> surface_scroll list \<Rightarrow> (nat \<times> nat) list" where
  "covered_columns row scrolls =
     map (\<lambda>r. (sr_x r, sr_x r + sr_width r))
       (filter (\<lambda>r. sr_y r \<le> pr_y row \<and> pr_y row - sr_y r < sr_height r) (map sc_rect scrolls))"

definition outside_scrolls :: "patch_row \<Rightarrow> surface_scroll list \<Rightarrow> patch_row list" where
  "outside_scrolls row scrolls =
     (let covered = covered_columns row scrolls; stop = pr_x row + length (pr_cells row) in
      if covered = [] then [row]
      else outside_spans row (pr_x row) (sort covered @ [(stop, stop)]))"

definition scrolled_rows :: "cell_data list \<Rightarrow> u16 \<Rightarrow> surface_scroll \<Rightarrow> patch_row list result" where
  "scrolled_rows cells width scroll =
     (let rect = sc_rect scroll in
      rmap (\<lambda>y. rthen (slice_at cells (y * width + sr_x rect) (sr_width rect)) (\<lambda>cs.
              Inr \<lparr>pr_x = sr_x rect, pr_y = y, pr_cells = cs\<rparr>))
        [sr_y rect..<wadd16 (sr_y rect) (sr_height rect)])"

text \<open>The retained grid and the expanded patch.  A failed validation leaves the grid.\<close>

definition scroll_apply ::
    "cell_data list \<Rightarrow> u16 \<Rightarrow> u16 \<Rightarrow> scroll_patch \<Rightarrow> cell_data list \<times> surface_patch result" where
  "scroll_apply cells width height sp =
     (let scrolls = xp_scrolls sp; patch = xp_patch sp in
      if length cells \<noteq> width * height then (cells, Inl (Err ''surface scroll baseline has an invalid grid''))
      else if \<not> list_all (\<lambda>s. scroll_fits s width height) scrolls \<or> \<not> scrolls_disjoint scrolls \<or>
              \<not> list_all (\<lambda>r. row_fits r width height) (sq_rows patch)
      then (cells, Inl (Err ''surface scroll exceeds the cell baseline''))
      else case rthen (rfold (apply_scroll width) scrolls cells) (\<lambda>c. apply_rows c width (sq_rows patch)) of
             Inl e \<Rightarrow> (cells, Inl e)
           | Inr cells' \<Rightarrow>
               (cells', rthen (rmap (scrolled_rows cells' width) scrolls) (\<lambda>moved.
                  Inr (patch\<lparr>sq_rows := concat (map (\<lambda>row. outside_scrolls row scrolls) (sq_rows patch)) @ concat moved\<rparr>))))"

subsection \<open>Loops that succeed\<close>

lemma rmap_ok: "(\<And>x. x \<in> set xs \<Longrightarrow> f x = Inr (g x)) \<Longrightarrow> rmap f xs = Inr (map g xs)"
  by (induction xs) auto

lemma rmap_map: "rmap f (map g xs) = rmap (\<lambda>x. f (g x)) xs"
  by (induction xs) auto

lemma rmap_total: "\<forall>x\<in>set xs. \<exists>y. f x = Inr y \<Longrightarrow> \<exists>ys. rmap f xs = Inr ys"
  by (induction xs) auto

lemma rmap_Inr_nth:
  "rmap f xs = Inr ys \<Longrightarrow> length ys = length xs \<and> (\<forall>i<length xs. f (xs ! i) = Inr (ys ! i))"
proof (induction xs arbitrary: ys)
  case (Cons x xs)
  then show ?case by (auto simp: rthen_Inr_iff nth_Cons split: nat.splits)
qed simp

lemma rfold_append: "rfold f (xs @ ys) s = rthen (rfold f xs s) (rfold f ys)"
  by (induction xs arbitrary: s) (auto simp: rthen_def split: sum.splits)

subsection \<open>Sequences of swaps\<close>

text \<open>The element that ends up at a position after a sequence of swaps is the one that
  stood at \<open>swap_source\<close> of it before.\<close>

definition exchange :: "nat \<Rightarrow> nat \<Rightarrow> nat \<Rightarrow> nat" where
  "exchange a b k = (if k = a then b else if k = b then a else k)"

fun swap_source :: "(nat \<times> nat) list \<Rightarrow> nat \<Rightarrow> nat" where
  "swap_source [] k = k"
| "swap_source ((a, b) # ps) k = exchange a b (swap_source ps k)"

definition swaps_below :: "nat \<Rightarrow> (nat \<times> nat) list \<Rightarrow> bool" where
  "swaps_below n ps \<longleftrightarrow> list_all (\<lambda>(a, b). a < n \<and> b < n) ps"

lemma swaps_below_simps [simp]:
  "swaps_below n []" "swaps_below n ((a, b) # ps) \<longleftrightarrow> a < n \<and> b < n \<and> swaps_below n ps"
  "swaps_below n (ps @ qs) \<longleftrightarrow> swaps_below n ps \<and> swaps_below n qs"
  by (auto simp: swaps_below_def)

lemma swap_source_append: "swap_source (ps @ qs) k = swap_source ps (swap_source qs k)"
  by (induction ps) auto

lemma swap_source_less: "swaps_below n ps \<Longrightarrow> k < n \<Longrightarrow> swap_source ps k < n"
  by (induction ps) (auto simp: exchange_def)

lemma swap_source_untouched: "\<forall>p\<in>set ps. k \<noteq> fst p \<and> k \<noteq> snd p \<Longrightarrow> swap_source ps k = k"
  by (induction ps) (auto simp: exchange_def)

lemma swaps_list:
  "swaps_below (length xs) ps \<Longrightarrow>
     rfold (\<lambda>(a, b). swap_at a b) ps xs = Inr (map (\<lambda>k. xs ! swap_source ps k) [0..<length xs])"
proof (induction ps arbitrary: xs)
  case Nil
  then show ?case by (simp add: map_nth)
next
  case (Cons p ps)
  obtain a b where p: "p = (a, b)" by (cases p)
  let ?ys = "xs[a := xs ! b, b := xs ! a]"
  from Cons.prems p have ab: "a < length xs" "b < length xs" "swaps_below (length xs) ps" by auto
  have "?ys ! k = xs ! exchange a b k" if "k < length xs" for k
    using that ab by (auto simp: exchange_def nth_list_update)
  moreover have "rfold (\<lambda>(a, b). swap_at a b) ps ?ys = Inr (map (\<lambda>k. ?ys ! swap_source ps k) [0..<length xs])"
    using Cons.IH [of ?ys] ab by simp
  moreover have "swap_at a b xs = Inr ?ys" using ab by (simp add: swap_at_def)
  ultimately show ?case using ab by (auto simp: p swap_source_less)
qed

subsection \<open>What a scroll does to the rows\<close>

definition scroll_source :: "surface_scroll \<Rightarrow> nat \<Rightarrow> nat" where
  "scroll_source s = swap_source (for_each_swap (sr_height (sc_rect s)) (sc_shift s))"

lemma source_up: "0 < d \<Longrightarrow> k < n \<Longrightarrow> swap_source (map (\<lambda>y. (y, y + d)) [0..<n]) k = k + d"
proof (induction n)
  case (Suc n)
  have "swap_source (map (\<lambda>y. (y, y + d)) [0..<n]) (n + d) = n + d"
    by (rule swap_source_untouched) (use Suc.prems in auto)
  with Suc show ?case by (cases "k = n") (auto simp: swap_source_append exchange_def)
qed simp

lemma source_down:
  "0 < d \<Longrightarrow> d \<le> m \<Longrightarrow> m \<le> k \<Longrightarrow> k < h \<Longrightarrow> swap_source (map (\<lambda>y. (y, y - d)) (rev [m..<h])) k = k - d"
proof (induction "h - m" arbitrary: m)
  case (Suc j)
  then have up: "[m..<h] = m # [Suc m..<h]" by (simp add: upt_conv_Cons)
  have "swap_source (map (\<lambda>y. (y, y - d)) (rev [Suc m..<h])) (m - d) = m - d"
    by (rule swap_source_untouched) (use Suc.prems in auto)
  with Suc up show ?case
    by (cases "k = m") (auto simp: swap_source_append exchange_def)
qed simp

lemma wsub64_exact: "b \<le> a \<Longrightarrow> a < 18446744073709551616 \<Longrightarrow> wsub64 a b = a - b"
proof -
  assume "b \<le> a" "a < 18446744073709551616"
  then obtain c where "a = b + c" "c < 18446744073709551616" using le_Suc_ex by fastforce
  then show ?thesis by (simp add: wsub64_def)
qed

lemma scroll_source_moves:
  assumes "nat \<bar>sc_shift s\<bar> < sr_height (sc_rect s)" and "sr_height (sc_rect s) \<le> u16_max"
    and "y < sr_height (sc_rect s)" and "0 \<le> int y + sc_shift s" and "int y + sc_shift s < int (sr_height (sc_rect s))"
  shows "int (scroll_source s y) = int y + sc_shift s"
proof (cases "0 < sc_shift s")
  case True
  then obtain d where d: "sc_shift s = int d" "0 < d" using zero_less_imp_eq_int by blast
  have "wsub64 (sr_height (sc_rect s)) d = sr_height (sc_rect s) - d"
    using assms d by (intro wsub64_exact) (auto simp: u16_max_def)
  with source_up [of d y "sr_height (sc_rect s) - d"] assms d show ?thesis
    by (simp add: scroll_source_def for_each_swap_def)
next
  case False
  define d where "d = nat (- sc_shift s)"
  then have d: "sc_shift s = - int d" using False by simp
  show ?thesis
  proof (cases "d = 0")
    case True
    have "map (\<lambda>y. (y, y)) ys = map (\<lambda>y. (y, y)) ys \<Longrightarrow> swap_source (map (\<lambda>y. (y, y)) ys) y = y" for ys
      by (induction ys) (auto simp: exchange_def)
    with True d show ?thesis by (simp add: scroll_source_def for_each_swap_def)
  next
    case False
    with source_down [of d d y "sr_height (sc_rect s)"] assms d show ?thesis
      by (simp add: scroll_source_def for_each_swap_def)
  qed
qed

lemma for_each_swap_below:
  assumes "nat \<bar>shift\<bar> < height" and "height \<le> u16_max"
  shows "swaps_below height (for_each_swap height shift)"
proof -
  have "wsub64 height (nat \<bar>shift\<bar>) = height - nat \<bar>shift\<bar>"
    using assms by (intro wsub64_exact) (auto simp: u16_max_def)
  then show ?thesis using assms by (auto simp: swaps_below_def for_each_swap_def list_all_iff Let_def)
qed

subsection \<open>Grids by coordinates\<close>

lemma grid_index:
  assumes "x < W" and "y < H"
  shows "y * W + x < W * (H::nat)"
proof -
  have "y * W + x < Suc y * W" using assms(1) by simp
  also have "\<dots> \<le> H * W" using assms(2) by (intro mult_right_mono) auto
  finally show ?thesis by (simp add: mult.commute)
qed

lemma grid_eqI:
  assumes "length a = W * H" and "length b = W * H"
    and "\<And>x y. x < W \<Longrightarrow> y < H \<Longrightarrow> a ! (y * W + x) = b ! (y * W + x)"
  shows "a = b"
proof (rule nth_equalityI)
  show "length a = length b" using assms by simp
  fix i assume "i < length a"
  then have i: "i < H * W" using assms(1) by (simp add: mult.commute)
  then have "0 < W" by (cases W) auto
  then have "i mod W < W" "i div W < H" using i by (auto simp: less_mult_imp_div_less)
  from assms(3) [OF this] show "a ! i = b ! i" by simp
qed

lemma grid_index_eq:
  assumes "x < W" and "x' < W"
  shows "y * W + x = y' * W + x' \<longleftrightarrow> y = y' \<and> x = (x'::nat)"
proof
  assume eq: "y * W + x = y' * W + x'"
  then have "(y * W + x) div W = (y' * W + x') div W" "(y * W + x) mod W = (y' * W + x') mod W" by simp_all
  then show "y = y' \<and> x = x'" using assms by simp
qed simp

text \<open>A segment of one row, seen in the row-major index.\<close>

lemma grid_segment:
  assumes "x < W" and "l + n \<le> W"
  shows "v * W + l \<le> y * W + x \<and> y * W + x < v * W + l + n \<longleftrightarrow> y = v \<and> l \<le> x \<and> x < l + (n::nat)"
proof
  assume s: "v * W + l \<le> y * W + x \<and> y * W + x < v * W + l + n"
  define j where "j = y * W + x - (v * W + l)"
  have j: "y * W + x = v * W + (l + j)" "j < n" using s by (auto simp: j_def)
  then have "y = v \<and> x = l + j" using grid_index_eq [of x W "l + j" y v] assms by auto
  then show "y = v \<and> l \<le> x \<and> x < l + n" using j by auto
qed auto

definition in_rect :: "surface_rect \<Rightarrow> nat \<Rightarrow> nat \<Rightarrow> bool" where
  "in_rect r x y \<longleftrightarrow> sr_x r \<le> x \<and> x < sr_x r + sr_width r \<and> sr_y r \<le> y \<and> y < sr_y r + sr_height r"

lemma segment_source:
  assumes "sa + n \<le> sb \<or> sb + n \<le> sa \<or> sa = sb"
  shows "swap_source (map (\<lambda>x. (sa + x, sb + x)) [0..<n]) k =
    (if sa \<le> k \<and> k < sa + n then sb + (k - sa) else if sb \<le> k \<and> k < sb + n then sa + (k - sb) else k)"
  using assms
proof (induction n arbitrary: k)
  case (Suc n)
  have IH: "swap_source (map (\<lambda>x. (sa + x, sb + x)) [0..<n]) j =
    (if sa \<le> j \<and> j < sa + n then sb + (j - sa) else if sb \<le> j \<and> j < sb + n then sa + (j - sb) else j)" for j
    using Suc by auto
  show ?case using Suc.prems by (auto simp: swap_source_append IH exchange_def)
qed simp

lemma row_swap_source:
  assumes "x < W" and "sr_x r + sr_width r \<le> W" and "a < sr_height r" and "b < sr_height r"
  shows "swap_source (map (\<lambda>i. (scroll_row_start r W a + i, scroll_row_start r W b + i)) [0..< sr_width r]) (y * W + x) =
    (if in_rect r x y then (sr_y r + exchange a b (y - sr_y r)) * W + x else y * W + x)"
proof -
  let ?s = "\<lambda>c. scroll_row_start r W c"
  have seg: "?s c \<le> y * W + x \<and> y * W + x < ?s c + sr_width r \<longleftrightarrow> y = sr_y r + c \<and> sr_x r \<le> x \<and> x < sr_x r + sr_width r" for c
    unfolding scroll_row_start_def by (rule grid_segment [OF assms(1,2)])
  have gap: "c < d \<Longrightarrow> ?s c + sr_width r \<le> ?s d" for c d
  proof -
    assume "c < d"
    then have "Suc (sr_y r + c) * W \<le> (sr_y r + d) * W" by (intro mult_right_mono) auto
    then show ?thesis using assms(2) by (simp add: scroll_row_start_def)
  qed
  have "?s a + sr_width r \<le> ?s b \<or> ?s b + sr_width r \<le> ?s a \<or> ?s a = ?s b"
    using gap [of a b] gap [of b a] by (cases a b rule: linorder_cases) auto
  note source = segment_source [OF this, of "y * W + x", unfolded seg]
  have pos: "sr_x r \<le> x \<Longrightarrow> ?s d + ((sr_y r + c) * W + x - ?s c) = (sr_y r + d) * W + x" for c d
    by (simp add: scroll_row_start_def)
  consider "in_rect r x y" "y = sr_y r + a" | "in_rect r x y" "y = sr_y r + b" "a \<noteq> b"
    | "in_rect r x y" "y \<noteq> sr_y r + a" "y \<noteq> sr_y r + b" | "\<not> in_rect r x y" by blast
  then show ?thesis
  proof cases
    case 1
    then show ?thesis using source pos [of b a] by (simp add: in_rect_def exchange_def)
  next
    case 2
    then show ?thesis using source pos [of a b] by (simp add: in_rect_def exchange_def)
  next
    case 3
    then have "y - sr_y r \<noteq> a" "y - sr_y r \<noteq> b" by (auto simp: in_rect_def)
    with 3 show ?thesis using source by (simp add: in_rect_def exchange_def)
  next
    case 4
    then have "\<not> (y = sr_y r + c \<and> sr_x r \<le> x \<and> x < sr_x r + sr_width r)" if "c < sr_height r" for c
      using that by (auto simp: in_rect_def)
    from this [OF assms(3)] this [OF assms(4)] source 4 show ?thesis by auto
  qed
qed

lemma rects_source:
  assumes "x < W" and "sr_x r + sr_width r \<le> W"
  shows "swaps_below (sr_height r) ps \<Longrightarrow>
    swap_source (concat (map (\<lambda>(a, b). map (\<lambda>i. (scroll_row_start r W a + i, scroll_row_start r W b + i)) [0..< sr_width r]) ps)) (y * W + x) =
    (if in_rect r x y then (sr_y r + swap_source ps (y - sr_y r)) * W + x else y * W + x)"
proof (induction ps)
  case (Cons p ps)
  obtain a b where p: "p = (a, b)" by (cases p)
  from Cons.prems p have ab: "a < sr_height r" "b < sr_height r" "swaps_below (sr_height r) ps" by auto
  note step = row_swap_source [OF assms ab(1,2)]
  show ?case
  proof (cases "in_rect r x y")
    case True
    let ?z = "swap_source ps (y - sr_y r)"
    have "?z < sr_height r" using ab(3) True by (intro swap_source_less) (auto simp: in_rect_def)
    then have "in_rect r x (sr_y r + ?z)" using True by (simp add: in_rect_def)
    with step [of "sr_y r + ?z"] Cons.IH [OF ab(3)] True show ?thesis by (simp add: p swap_source_append)
  next
    case False
    with step [of y] Cons.IH [OF ab(3)] show ?thesis by (simp add: p swap_source_append)
  qed
qed (simp add: in_rect_def)

lemma apply_scroll_swaps:
  "apply_scroll W s cells = rfold (\<lambda>(i, j). swap_at i j)
     (concat (map (\<lambda>(a, b). map (\<lambda>i. (scroll_row_start (sc_rect s) W a + i, scroll_row_start (sc_rect s) W b + i))
        [0..< sr_width (sc_rect s)]) (for_each_swap (sr_height (sc_rect s)) (sc_shift s)))) cells"
proof -
  have inner: "rfold (\<lambda>x. swap_at (u + x) (v + x)) xs c = rfold (\<lambda>(i, j). swap_at i j) (map (\<lambda>i. (u + i, v + i)) xs) c"
    for u v xs and c :: "cell_data list"
    by (induction xs arbitrary: c) (auto simp: rthen_def split: sum.splits)
  have "rfold (\<lambda>(a, b). rfold (\<lambda>x. swap_at (f a + x) (f b + x)) ys) ps c =
      rfold (\<lambda>(i, j). swap_at i j) (concat (map (\<lambda>(a, b). map (\<lambda>i. (f a + i, f b + i)) ys) ps)) c"
    for f ys ps and c :: "cell_data list"
    by (induction ps arbitrary: c) (auto simp: rthen_def rfold_append inner split: sum.splits)
  then show ?thesis by (simp add: apply_scroll_def Let_def)
qed

lemma scroll_fitsD:
  assumes "scroll_fits s W H"
  shows "sr_x (sc_rect s) + sr_width (sc_rect s) \<le> W" "sr_y (sc_rect s) + sr_height (sc_rect s) \<le> H"
    "sr_x (sc_rect s) + sr_width (sc_rect s) \<le> u16_max" "sr_y (sc_rect s) + sr_height (sc_rect s) \<le> u16_max"
    "nat \<bar>sc_shift s\<bar> < sr_height (sc_rect s)" "0 < sr_width (sc_rect s)" "sc_shift s \<noteq> 0"
  using assms by (auto simp: scroll_fits_def Let_def checked_add_def split: if_splits)

lemma apply_scroll_grid:
  assumes fits: "scroll_fits s W H" and len: "length cells = W * H"
  shows "\<exists>c. apply_scroll W s cells = Inr c \<and> length c = W * H \<and>
    (\<forall>x<W. \<forall>y<H. c ! (y * W + x) =
       (if in_rect (sc_rect s) x y then cells ! ((sr_y (sc_rect s) + scroll_source s (y - sr_y (sc_rect s))) * W + x)
        else cells ! (y * W + x)))"
proof -
  let ?r = "sc_rect s"
  let ?sw = "for_each_swap (sr_height ?r) (sc_shift s)"
  let ?ps = "concat (map (\<lambda>(a, b). map (\<lambda>i. (scroll_row_start ?r W a + i, scroll_row_start ?r W b + i)) [0..< sr_width ?r]) ?sw)"
  note d = scroll_fitsD [OF fits]
  have below: "swaps_below (sr_height ?r) ?sw" using d(4,5) by (intro for_each_swap_below) auto
  have start: "scroll_row_start ?r W a + i < W * H" if "a < sr_height ?r" "i < sr_width ?r" for a i
    using grid_index [of "sr_x ?r + i" W "sr_y ?r + a" H] d(1,2) that by (simp add: scroll_row_start_def add.assoc)
  have "swaps_below (W * H) ?ps"
    using below start by (fastforce simp: swaps_below_def list_all_iff)
  then have "apply_scroll W s cells = Inr (map (\<lambda>k. cells ! swap_source ?ps k) [0..<W * H])"
    unfolding apply_scroll_swaps using swaps_list [of cells ?ps] len by simp
  moreover have "swap_source ?ps (y * W + x) =
      (if in_rect ?r x y then (sr_y ?r + scroll_source s (y - sr_y ?r)) * W + x else y * W + x)" if "x < W" for x y
    unfolding scroll_source_def by (rule rects_source [OF that d(1) below])
  ultimately show ?thesis by (auto simp: grid_index)
qed

subsection \<open>Several disjoint scrolls\<close>

definition moved_row :: "surface_scroll list \<Rightarrow> nat \<Rightarrow> nat \<Rightarrow> nat" where
  "moved_row scrolls x y =
     (case find (\<lambda>s. in_rect (sc_rect s) x y) scrolls of
        None \<Rightarrow> y
      | Some s \<Rightarrow> sr_y (sc_rect s) + scroll_source s (y - sr_y (sc_rect s)))"

lemma common_point_overlaps:
  assumes "scroll_fits s W H" and "scroll_fits t W H" and "in_rect (sc_rect s) x y" and "in_rect (sc_rect t) x y"
  shows "rects_overlap (sc_rect s) (sc_rect t)"
  using scroll_fitsD [OF assms(1)] scroll_fitsD [OF assms(2)] assms(3,4)
  by (auto simp: rects_overlap_def in_rect_def u16_max_def)

lemma scrolls_disjoint_unique:
  assumes "scrolls_disjoint (s # ss)" and "list_all (\<lambda>s. scroll_fits s W H) (s # ss)" and "t \<in> set ss"
    and "in_rect (sc_rect t) x y"
  shows "\<not> in_rect (sc_rect s) x y"
  using assms common_point_overlaps [of s W H t x y] by (auto simp: list_all_iff)

lemma moved_in_rect:
  assumes "scroll_fits s W H" and "in_rect (sc_rect s) x y"
  shows "in_rect (sc_rect s) x (sr_y (sc_rect s) + scroll_source s (y - sr_y (sc_rect s)))"
proof -
  note d = scroll_fitsD [OF assms(1)]
  have "swaps_below (sr_height (sc_rect s)) (for_each_swap (sr_height (sc_rect s)) (sc_shift s))"
    using d(4,5) by (intro for_each_swap_below) auto
  then have "scroll_source s (y - sr_y (sc_rect s)) < sr_height (sc_rect s)"
    unfolding scroll_source_def using assms(2) by (intro swap_source_less) (auto simp: in_rect_def)
  with assms(2) show ?thesis by (simp add: in_rect_def)
qed

lemma in_rect_grid: "scroll_fits s W H \<Longrightarrow> in_rect (sc_rect s) x y \<Longrightarrow> x < W \<and> y < H"
  using scroll_fitsD [of s W H] by (auto simp: in_rect_def)

lemma find_in_rect_SomeD:
  "find (\<lambda>s. in_rect (sc_rect s) x y) ss = Some t \<Longrightarrow> t \<in> set ss \<and> in_rect (sc_rect t) x y"
  by (induction ss) (auto split: if_splits)

lemma moved_row_less:
  assumes "list_all (\<lambda>s. scroll_fits s W H) ss" and "y < H"
  shows "moved_row ss x y < H"
proof (cases "find (\<lambda>s. in_rect (sc_rect s) x y) ss")
  case (Some t)
  with find_in_rect_SomeD [OF Some] assms(1) have t: "scroll_fits t W H" "in_rect (sc_rect t) x y"
    by (auto simp: list_all_iff)
  from in_rect_grid [OF t(1) moved_in_rect [OF t]] Some show ?thesis by (simp add: moved_row_def)
qed (use assms(2) in \<open>simp add: moved_row_def\<close>)

lemma apply_scrolls_grid:
  "list_all (\<lambda>s. scroll_fits s W H) ss \<Longrightarrow> scrolls_disjoint ss \<Longrightarrow> length cells = W * H \<Longrightarrow>
   \<exists>c. rfold (apply_scroll W) ss cells = Inr c \<and> length c = W * H \<and>
     (\<forall>x<W. \<forall>y<H. c ! (y * W + x) = cells ! (moved_row ss x y * W + x))"
proof (induction ss arbitrary: cells)
  case Nil
  then show ?case by (simp add: moved_row_def)
next
  case (Cons s ss)
  then have fits: "scroll_fits s W H" "list_all (\<lambda>s. scroll_fits s W H) ss" "scrolls_disjoint ss" by simp_all
  let ?r = "sc_rect s"
  obtain c1 where c1: "apply_scroll W s cells = Inr c1" "length c1 = W * H"
    and v1: "\<forall>x<W. \<forall>y<H. c1 ! (y * W + x) =
      (if in_rect ?r x y then cells ! ((sr_y ?r + scroll_source s (y - sr_y ?r)) * W + x) else cells ! (y * W + x))"
    using apply_scroll_grid [OF fits(1) Cons.prems(3)] by blast
  obtain c where c: "rfold (apply_scroll W) ss c1 = Inr c" "length c = W * H"
    and v: "\<forall>x<W. \<forall>y<H. c ! (y * W + x) = c1 ! (moved_row ss x y * W + x)"
    using Cons.IH [OF fits(2,3) c1(2)] by blast
  have "c ! (y * W + x) = cells ! (moved_row (s # ss) x y * W + x)" if xy: "x < W" "y < H" for x y
  proof (cases "find (\<lambda>s. in_rect (sc_rect s) x y) ss")
    case None
    with v v1 xy show ?thesis by (auto simp: moved_row_def)
  next
    case (Some t)
    from find_in_rect_SomeD [OF Some] have t: "t \<in> set ss" "in_rect (sc_rect t) x y" by auto
    then have ft: "scroll_fits t W H" using fits(2) by (auto simp: list_all_iff)
    let ?y = "moved_row ss x y"
    have "in_rect (sc_rect t) x ?y" using moved_in_rect [OF ft t(2)] Some by (simp add: moved_row_def)
    then have "\<not> in_rect ?r x ?y" "\<not> in_rect ?r x y"
      using scrolls_disjoint_unique [OF Cons.prems(2,1) t(1)] t(2) by auto
    then have "moved_row (s # ss) x y = ?y" by (simp add: moved_row_def)
    with \<open>\<not> in_rect ?r x ?y\<close> v v1 xy moved_row_less [OF fits(2) xy(2), of x] show ?thesis by simp
  qed
  with c1 c show ?case by auto
qed

subsection \<open>What rows write\<close>

definition covers :: "nat \<Rightarrow> nat \<Rightarrow> patch_row \<Rightarrow> bool" where
  "covers x y r \<longleftrightarrow> pr_y r = y \<and> pr_x r \<le> x \<and> x < pr_x r + length (pr_cells r)"

definition overlay1 :: "nat \<Rightarrow> nat \<Rightarrow> patch_row \<Rightarrow> cell_data \<Rightarrow> cell_data" where
  "overlay1 x y r v = (if covers x y r then pr_cells r ! (x - pr_x r) else v)"

definition overlay :: "nat \<Rightarrow> nat \<Rightarrow> patch_row list \<Rightarrow> cell_data \<Rightarrow> cell_data" where
  "overlay x y rows v = fold (overlay1 x y) rows v"

lemma overlay_simps [simp]:
  "overlay x y [] v = v" "overlay x y (r # rs) v = overlay x y rs (overlay1 x y r v)"
  "overlay x y (rs @ ss) v = overlay x y ss (overlay x y rs v)"
  by (simp_all add: overlay_def)

lemma overlay_uncovered: "\<forall>r\<in>set rs. \<not> covers x y r \<Longrightarrow> overlay x y rs v = v"
  by (induction rs arbitrary: v) (auto simp: overlay1_def)

lemma overlay_filter:
  "(\<And>r. r \<in> set rs \<Longrightarrow> covers x y r \<Longrightarrow> P r) \<Longrightarrow> overlay x y (filter P rs) v = overlay x y rs v"
  by (induction rs arbitrary: v) (auto simp: overlay1_def)

definition row_inside :: "nat \<Rightarrow> nat \<Rightarrow> patch_row \<Rightarrow> bool" where
  "row_inside W H r \<longleftrightarrow> pr_y r < H \<and> pr_x r + length (pr_cells r) \<le> W"

lemma row_fits_inside: "W < u64_max \<Longrightarrow> row_fits r W H \<longleftrightarrow> row_inside W H r"
  by (auto simp: row_fits_def row_inside_def sat_add_def min_def)

lemma covers_grid: "row_inside W H r \<Longrightarrow> covers x y r \<Longrightarrow> x < W \<and> y < H"
  by (auto simp: covers_def row_inside_def)

lemma write_row_overlay:
  assumes "row_inside W H r" and "length cells = W * H"
  shows "\<exists>c. write_slice cells (pr_y r * W + pr_x r) (pr_cells r) = Inr c \<and> length c = W * H \<and>
    (\<forall>x<W. \<forall>y<H. c ! (y * W + x) = overlay1 x y r (cells ! (y * W + x)))"
proof -
  have "pr_y r * W + pr_x r + length (pr_cells r) \<le> Suc (pr_y r) * W" using assms(1) by (simp add: row_inside_def)
  also have "\<dots> \<le> H * W" using assms(1) by (intro mult_right_mono) (auto simp: row_inside_def)
  finally obtain c where c: "write_slice cells (pr_y r * W + pr_x r) (pr_cells r) = Inr c"
    using assms(2) by (simp add: write_slice_def mult.commute)
  have "c ! (y * W + x) = overlay1 x y r (cells ! (y * W + x))" if xy: "x < W" "y < H" for x y
  proof -
    have "pr_x r + length (pr_cells r) \<le> W" using assms(1) by (simp add: row_inside_def)
    from grid_segment [OF xy(1) this, of "pr_y r" y] write_slice_nth [OF c, of "y * W + x"] grid_index [OF xy] assms(2)
    show ?thesis by (auto simp: overlay1_def covers_def)
  qed
  with c write_slice_length [OF c] assms(2) show ?thesis by auto
qed

lemma apply_rows_overlay:
  "\<forall>r\<in>set rs. row_inside W H r \<Longrightarrow> length cells = W * H \<Longrightarrow>
   \<exists>c. apply_rows cells W rs = Inr c \<and> length c = W * H \<and>
     (\<forall>x<W. \<forall>y<H. c ! (y * W + x) = overlay x y rs (cells ! (y * W + x)))"
proof (induction rs arbitrary: cells)
  case (Cons r rs)
  obtain c1 where c1: "write_slice cells (pr_y r * W + pr_x r) (pr_cells r) = Inr c1" "length c1 = W * H"
    and v1: "\<forall>x<W. \<forall>y<H. c1 ! (y * W + x) = overlay1 x y r (cells ! (y * W + x))"
    using write_row_overlay [of W H r cells] Cons.prems by auto
  obtain c where "apply_rows c1 W rs = Inr c" "length c = W * H"
    "\<forall>x<W. \<forall>y<H. c ! (y * W + x) = overlay x y rs (c1 ! (y * W + x))"
    using Cons.IH [OF _ c1(2)] Cons.prems(1) by auto
  with c1 v1 show ?case by auto
qed simp

lemma overlay_const:
  "\<forall>r\<in>set rs. covers x y r \<longrightarrow> pr_cells r ! (x - pr_x r) = c \<Longrightarrow>
     (\<exists>r\<in>set rs. covers x y r) \<or> v = c \<Longrightarrow> overlay x y rs v = c"
  by (induction rs arbitrary: v) (auto simp: overlay1_def)

subsection \<open>Splitting a row around the scrolled regions\<close>

definition span_of :: "patch_row \<Rightarrow> nat \<Rightarrow> patch_row \<Rightarrow> bool" where
  "span_of row cursor sp \<longleftrightarrow>
     pr_y sp = pr_y row \<and> cursor \<le> pr_x sp \<and>
     pr_x sp + length (pr_cells sp) \<le> pr_x row + length (pr_cells row) \<and>
     (\<forall>x. pr_x sp \<le> x \<and> x < pr_x sp + length (pr_cells sp) \<longrightarrow>
        pr_cells sp ! (x - pr_x sp) = pr_cells row ! (x - pr_x row))"

lemma span_of_mono: "span_of row c sp \<Longrightarrow> c' \<le> c \<Longrightarrow> span_of row c' sp"
  by (auto simp: span_of_def)

lemma outside_spans_ok:
  assumes "pr_x row \<le> cursor" and "cursor \<le> pr_x row + length (pr_cells row)"
    and "pr_x row + length (pr_cells row) \<le> u16_max" and "sorted (map fst L)" and "\<forall>(l, r)\<in>set L. l \<le> r"
  shows "let spans = outside_spans row cursor (L @ [(pr_x row + length (pr_cells row), pr_x row + length (pr_cells row))]) in
    (\<forall>sp\<in>set spans. span_of row cursor sp) \<and>
    (\<forall>x. cursor \<le> x \<and> x < pr_x row + length (pr_cells row) \<longrightarrow>
       (\<exists>sp\<in>set spans. covers x (pr_y row) sp) \<longleftrightarrow> (\<forall>(l, r)\<in>set L. \<not> (l \<le> x \<and> x < r))) \<and>
    sorted_wrt (\<lambda>a b. pr_x a + length (pr_cells a) \<le> pr_x b) spans"
  using assms
proof (induction L arbitrary: cursor)
  case Nil
  then show ?case
    by (auto simp: Let_def span_of_def covers_def u16_max_def)
next
  case (Cons p L)
  obtain l r where p: "p = (l, r)" by (cases p)
  let ?start = "pr_x row" and ?stop = "pr_x row + length (pr_cells row)"
  define c2 where "c2 = max cursor (min r ?stop)"
  define e where "e = max cursor (min l ?stop)"
  define spans where "spans = outside_spans row c2 (L @ [(?stop, ?stop)])"
  define sp where "sp = \<lparr>pr_x = cursor, pr_y = pr_y row, pr_cells = take (e - cursor) (drop (cursor - ?start) (pr_cells row))\<rparr>"
  have lr: "l \<le> r" "\<forall>(l', r')\<in>set L. l \<le> l'" using Cons.prems p by auto
  have c2: "?start \<le> c2" "c2 \<le> ?stop" "cursor \<le> c2" using Cons.prems by (auto simp: c2_def)
  from Cons.IH [OF c2(1,2) Cons.prems(3)] Cons.prems(4,5) p
  have IH: "\<forall>q\<in>set spans. span_of row c2 q"
    "\<forall>x. c2 \<le> x \<and> x < ?stop \<longrightarrow> (\<exists>q\<in>set spans. covers x (pr_y row) q) \<longleftrightarrow> (\<forall>(l, r)\<in>set L. \<not> (l \<le> x \<and> x < r))"
    "sorted_wrt (\<lambda>a b. pr_x a + length (pr_cells a) \<le> pr_x b) spans"
    by (auto simp: Let_def spans_def)
  have e: "cursor \<le> e" "e \<le> c2" "e \<le> ?stop" using Cons.prems lr by (auto simp: e_def c2_def)
  have split: "outside_spans row cursor ((p # L) @ [(?stop, ?stop)]) = (if cursor < e then sp # spans else spans)"
  proof -
    have "cursor mod 65536 = cursor" using Cons.prems(2,3) by (simp add: u16_max_def)
    then show ?thesis by (simp only: p append_Cons outside_spans.simps Let_def sp_def spans_def e_def c2_def)
  qed
  have sp: "span_of row cursor sp" "pr_x sp + length (pr_cells sp) = e" "\<And>x. covers x (pr_y row) sp \<longleftrightarrow> cursor \<le> x \<and> x < e"
    if "cursor < e"
    using that e Cons.prems by (auto simp: span_of_def sp_def covers_def)
  have "\<forall>q\<in>set (if cursor < e then sp # spans else spans). span_of row cursor q"
    using IH(1) sp(1) c2(3) by (auto intro: span_of_mono)
  moreover have "sorted_wrt (\<lambda>a b. pr_x a + length (pr_cells a) \<le> pr_x b) (if cursor < e then sp # spans else spans)"
    using IH(1,3) sp(2) e(2) by (auto simp: span_of_def)
  moreover have "(\<exists>q\<in>set (if cursor < e then sp # spans else spans). covers x (pr_y row) q) \<longleftrightarrow>
      (\<forall>(l', r')\<in>set (p # L). \<not> (l' \<le> x \<and> x < r'))" if x: "cursor \<le> x" "x < ?stop" for x
  proof -
    have nospan: "\<not> covers x (pr_y row) q" if "q \<in> set spans" "x < c2" for q
      using IH(1) that by (auto simp: span_of_def covers_def)
    consider "x < e" | "e \<le> x" "x < c2" | "c2 \<le> x" by linarith
    then show ?thesis
    proof cases
      case 1
      with x have "cursor < e" "x < l" by (auto simp: e_def)
      with sp(3) 1 x lr p show ?thesis by fastforce
    next
      case 2
      with x have "l \<le> x" "x < r" by (auto simp: e_def c2_def)
      then have "\<not> (\<forall>(l', r')\<in>set (p # L). \<not> (l' \<le> x \<and> x < r'))" by (simp add: p)
      moreover have "\<not> (\<exists>q\<in>set (if cursor < e then sp # spans else spans). covers x (pr_y row) q)"
        using 2 sp(3) nospan by simp
      ultimately show ?thesis by blast
    next
      case 3
      with x have "\<not> (l \<le> x \<and> x < r)" by (auto simp: c2_def)
      then have "(\<forall>(l', r')\<in>set (p # L). \<not> (l' \<le> x \<and> x < r')) \<longleftrightarrow> (\<forall>(l', r')\<in>set L. \<not> (l' \<le> x \<and> x < r'))"
        by (simp add: p)
      moreover have "(\<exists>q\<in>set (if cursor < e then sp # spans else spans). covers x (pr_y row) q) \<longleftrightarrow>
          (\<exists>q\<in>set spans. covers x (pr_y row) q)"
        using 3 e(2) sp(3) by simp
      ultimately show ?thesis using IH(2) 3 x by blast
    qed
  qed
  ultimately show ?case unfolding split Let_def by blast
qed

lemma covered_columns_iff:
  "(\<exists>(l, r)\<in>set (covered_columns row scrolls). l \<le> x \<and> x < r) \<longleftrightarrow> (\<exists>s\<in>set scrolls. in_rect (sc_rect s) x (pr_y row))"
  by (auto simp: covered_columns_def in_rect_def less_diff_conv2 add.commute)

lemma sorted_fst: "sorted (xs :: (nat \<times> nat) list) \<Longrightarrow> sorted (map fst xs)"
  by (auto simp: sorted_map less_eq_prod_def elim!: sorted_wrt_mono_rel [rotated])

definition rows_apart :: "patch_row \<Rightarrow> patch_row \<Rightarrow> bool" where
  "rows_apart a b \<longleftrightarrow> pr_y a \<noteq> pr_y b \<or>
     min (pr_x a + length (pr_cells a)) (pr_x b + length (pr_cells b)) \<le> max (pr_x a) (pr_x b)"

fun rows_disjoint :: "patch_row list \<Rightarrow> bool" where
  "rows_disjoint [] = True"
| "rows_disjoint (r # rs) \<longleftrightarrow> list_all (rows_apart r) rs \<and> rows_disjoint rs"

lemma rows_apart_iff: "rows_apart a b \<longleftrightarrow> (\<forall>x y. \<not> (covers x y a \<and> covers x y b))"
proof
  assume "\<forall>x y. \<not> (covers x y a \<and> covers x y b)"
  from this [rule_format, of "max (pr_x a) (pr_x b)" "pr_y a"] show "rows_apart a b"
    by (auto simp: rows_apart_def covers_def)
qed (auto simp: rows_apart_def covers_def)

lemma rows_disjoint_append:
  "rows_disjoint (rs @ ss) \<longleftrightarrow> rows_disjoint rs \<and> rows_disjoint ss \<and> (\<forall>a\<in>set rs. \<forall>b\<in>set ss. rows_apart a b)"
  by (induction rs) (auto simp: list_all_iff)

lemma rows_disjoint_sorted:
  "sorted_wrt (\<lambda>a b. pr_x a + length (pr_cells a) \<le> pr_x b) rs \<Longrightarrow> rows_disjoint rs"
  by (induction rs) (auto simp: list_all_iff rows_apart_def)

lemma rows_disjoint_covers_unique:
  "rows_disjoint rs \<Longrightarrow> a \<in> set rs \<Longrightarrow> b \<in> set rs \<Longrightarrow> covers x y a \<Longrightarrow> covers x y b \<Longrightarrow>
     pr_cells a ! (x - pr_x a) = pr_cells b ! (x - pr_x b)"
  by (induction rs) (auto simp: list_all_iff rows_apart_iff)

lemma outside_scrolls_ok:
  assumes "pr_x row + length (pr_cells row) \<le> u16_max"
  shows "\<forall>sp\<in>set (outside_scrolls row scrolls). span_of row (pr_x row) sp"
    and "covers x (pr_y row) row \<Longrightarrow>
      (\<exists>sp\<in>set (outside_scrolls row scrolls). covers x (pr_y row) sp) \<longleftrightarrow> (\<forall>s\<in>set scrolls. \<not> in_rect (sc_rect s) x (pr_y row))"
    and "rows_disjoint (outside_scrolls row scrolls)"
proof -
  let ?L = "sort (covered_columns row scrolls)"
  let ?stop = "pr_x row + length (pr_cells row)"
  have "\<forall>(l, r)\<in>set ?L. l \<le> r" by (auto simp: covered_columns_def)
  from outside_spans_ok [OF _ _ assms sorted_fst this, of "pr_x row", simplified Let_def]
  have *: "\<forall>sp\<in>set (outside_spans row (pr_x row) (?L @ [(?stop, ?stop)])). span_of row (pr_x row) sp"
    "pr_x row \<le> x \<and> x < ?stop \<Longrightarrow> (\<exists>sp\<in>set (outside_spans row (pr_x row) (?L @ [(?stop, ?stop)])). covers x (pr_y row) sp)
        \<longleftrightarrow> \<not> (\<exists>(l, r)\<in>set (covered_columns row scrolls). l \<le> x \<and> x < r)"
    "rows_disjoint (outside_spans row (pr_x row) (?L @ [(?stop, ?stop)]))"
    by (auto intro: rows_disjoint_sorted)
  have row: "span_of row (pr_x row) row" by (simp add: span_of_def)
  show "\<forall>sp\<in>set (outside_scrolls row scrolls). span_of row (pr_x row) sp"
    using *(1) row by (simp add: outside_scrolls_def Let_def)
  show "rows_disjoint (outside_scrolls row scrolls)" using *(3) by (simp add: outside_scrolls_def Let_def)
  assume c: "covers x (pr_y row) row"
  then have "pr_x row \<le> x \<and> x < ?stop" by (simp add: covers_def)
  from *(2) [OF this] c covered_columns_iff [of row scrolls x]
  show "(\<exists>sp\<in>set (outside_scrolls row scrolls). covers x (pr_y row) sp) \<longleftrightarrow> (\<forall>s\<in>set scrolls. \<not> in_rect (sc_rect s) x (pr_y row))"
    by (auto simp: outside_scrolls_def Let_def)
qed

lemma span_covers: "span_of row c sp \<Longrightarrow> pr_x row \<le> c \<Longrightarrow> covers x y sp \<Longrightarrow>
    covers x y row \<and> pr_cells sp ! (x - pr_x sp) = pr_cells row ! (x - pr_x row)"
  by (auto simp: span_of_def covers_def)

lemma outside_scrolls_overlay:
  assumes "pr_x row + length (pr_cells row) \<le> u16_max" and "\<forall>s\<in>set scrolls. \<not> in_rect (sc_rect s) x y"
  shows "overlay x y (outside_scrolls row scrolls) v = overlay1 x y row v"
proof (cases "covers x y row")
  case True
  then have "\<exists>sp\<in>set (outside_scrolls row scrolls). covers x y sp"
    using outside_scrolls_ok(2) [OF assms(1)] assms(2) by (auto simp: covers_def)
  with outside_scrolls_ok(1) [OF assms(1)] True show ?thesis
    by (auto simp: overlay1_def dest: span_covers intro!: overlay_const)
next
  case False
  then have "\<forall>r\<in>set (outside_scrolls row scrolls). \<not> covers x y r"
    using outside_scrolls_ok(1) [OF assms(1)] by (auto dest: span_covers)
  with False show ?thesis by (simp add: overlay_uncovered overlay1_def)
qed

subsection \<open>What the receiver computes\<close>

definition scrolled_row :: "cell_data list \<Rightarrow> nat \<Rightarrow> surface_rect \<Rightarrow> nat \<Rightarrow> patch_row" where
  "scrolled_row c W r y = \<lparr>pr_x = sr_x r, pr_y = y, pr_cells = take (sr_width r) (drop (y * W + sr_x r) c)\<rparr>"

lemma slice_in_grid:
  assumes "l + n \<le> W" and "y < H" and "length c = W * H"
  shows "y * W + l + n \<le> length c"
proof -
  have "y * W + l + n \<le> Suc y * W" using assms(1) by simp
  also have "\<dots> \<le> H * W" using assms(2) by (intro mult_right_mono) auto
  finally show ?thesis by (simp add: assms(3) mult.commute)
qed

lemma scrolled_rows_ok:
  assumes "scroll_fits s W H" and "length c = W * H"
  shows "scrolled_rows c W s =
    Inr (map (scrolled_row c W (sc_rect s)) [sr_y (sc_rect s)..< sr_y (sc_rect s) + sr_height (sc_rect s)])"
proof -
  let ?r = "sc_rect s"
  note d = scroll_fitsD [OF assms(1)]
  have "wadd16 (sr_y ?r) (sr_height ?r) = sr_y ?r + sr_height ?r" using d(4) by (simp add: u16_max_def)
  moreover have "slice_at c (y * W + sr_x ?r) (sr_width ?r) = Inr (take (sr_width ?r) (drop (y * W + sr_x ?r) c))"
    if "y < sr_y ?r + sr_height ?r" for y
    using slice_in_grid [of "sr_x ?r" "sr_width ?r" W y H c] d(1,2) that assms(2) by (simp add: slice_at_def)
  ultimately show ?thesis
    unfolding scrolled_rows_def Let_def by (auto simp: scrolled_row_def intro!: rmap_ok)
qed

lemma scrolled_row_facts:
  assumes "scroll_fits s W H" and "length c = W * H" and "sr_y (sc_rect s) \<le> v" "v < sr_y (sc_rect s) + sr_height (sc_rect s)"
  shows "row_inside W H (scrolled_row c W (sc_rect s) v)"
    and "covers x y (scrolled_row c W (sc_rect s) v) \<longleftrightarrow> in_rect (sc_rect s) x y \<and> y = v"
    and "covers x y (scrolled_row c W (sc_rect s) v) \<Longrightarrow>
      pr_cells (scrolled_row c W (sc_rect s) v) ! (x - pr_x (scrolled_row c W (sc_rect s) v)) = c ! (y * W + x)"
proof -
  let ?r = "sc_rect s"
  note d = scroll_fitsD [OF assms(1)]
  have "v * W + sr_x ?r + sr_width ?r \<le> length c"
    using d(1,2) assms(2,4) by (intro slice_in_grid [of _ _ _ _ H]) auto
  then have len: "length (pr_cells (scrolled_row c W ?r v)) = sr_width ?r" by (simp add: scrolled_row_def)
  show "row_inside W H (scrolled_row c W ?r v)" using len d(1,2) assms by (simp add: row_inside_def scrolled_row_def)
  show cov: "covers x y (scrolled_row c W ?r v) \<longleftrightarrow> in_rect ?r x y \<and> y = v"
    using len assms(3,4) by (auto simp: covers_def in_rect_def scrolled_row_def)
  assume "covers x y (scrolled_row c W ?r v)"
  then have x: "sr_x ?r \<le> x" "x < sr_x ?r + sr_width ?r" "y = v" using cov by (auto simp: in_rect_def)
  with \<open>v * W + sr_x ?r + sr_width ?r \<le> length c\<close>
  show "pr_cells (scrolled_row c W ?r v) ! (x - pr_x (scrolled_row c W ?r v)) = c ! (y * W + x)"
    by (auto simp: scrolled_row_def nth_append)
qed

text \<open>The expanded rows: the parts of the other rows outside every region, and each region
  with its final cells.\<close>

definition expanded_rows :: "cell_data list \<Rightarrow> nat \<Rightarrow> surface_scroll list \<Rightarrow> patch_row list \<Rightarrow> patch_row list" where
  "expanded_rows c W scrolls rows =
     concat (map (\<lambda>row. outside_scrolls row scrolls) rows) @
     concat (map (\<lambda>s. map (scrolled_row c W (sc_rect s)) [sr_y (sc_rect s)..< sr_y (sc_rect s) + sr_height (sc_rect s)]) scrolls)"

lemma outside_rows_overlay:
  "\<forall>r\<in>set rows. pr_x r + length (pr_cells r) \<le> u16_max \<Longrightarrow> \<forall>s\<in>set scrolls. \<not> in_rect (sc_rect s) x y \<Longrightarrow>
   overlay x y (concat (map (\<lambda>row. outside_scrolls row scrolls) rows)) v = overlay x y rows v"
  by (induction rows arbitrary: v) (auto simp: outside_scrolls_overlay)

lemma expanded_rows_overlay:
  assumes "list_all (\<lambda>s. scroll_fits s W H) scrolls" and "length c = W * H"
    and "\<forall>r\<in>set rows. pr_x r + length (pr_cells r) \<le> u16_max"
    and "(\<forall>s\<in>set scrolls. \<not> in_rect (sc_rect s) x y) \<Longrightarrow> c ! (y * W + x) = overlay x y rows v"
  shows "overlay x y (expanded_rows c W scrolls rows) v = c ! (y * W + x)"
proof -
  let ?m = "concat (map (\<lambda>s. map (scrolled_row c W (sc_rect s)) [sr_y (sc_rect s)..< sr_y (sc_rect s) + sr_height (sc_rect s)]) scrolls)"
  have val: "\<forall>r\<in>set ?m. covers x y r \<longrightarrow> pr_cells r ! (x - pr_x r) = c ! (y * W + x)"
    using assms(1,2) scrolled_row_facts(3) by (fastforce simp: list_all_iff)
  show ?thesis
  proof (cases "\<forall>s\<in>set scrolls. \<not> in_rect (sc_rect s) x y")
    case True
    then show ?thesis unfolding expanded_rows_def overlay_simps using assms(3,4) outside_rows_overlay val
      by (intro overlay_const) auto
  next
    case False
    then obtain s where s: "s \<in> set scrolls" "in_rect (sc_rect s) x y" by auto
    then have fs: "scroll_fits s W H" using assms(1) by (auto simp: list_all_iff)
    have "covers x y (scrolled_row c W (sc_rect s) y)"
      using scrolled_row_facts(2) [OF fs assms(2), of y x y] s(2) by (simp add: in_rect_def)
    moreover have "scrolled_row c W (sc_rect s) y \<in> set ?m"
      using s by (auto simp: in_rect_def intro!: bexI [of _ s])
    ultimately show ?thesis unfolding expanded_rows_def overlay_simps using val
      by (intro overlay_const) blast+
  qed
qed

lemma scroll_apply_cells:
  assumes len: "length cells = W * H" and W: "W \<le> u16_max"
    and fits: "list_all (\<lambda>s. scroll_fits s W H) scrolls" and dis: "scrolls_disjoint scrolls"
    and rows: "list_all (\<lambda>r. row_fits r W H) (sq_rows patch)"
  obtains c where "scroll_apply cells W H \<lparr>xp_scrolls = scrolls, xp_patch = patch\<rparr> =
      (c, Inr (patch\<lparr>sq_rows := expanded_rows c W scrolls (sq_rows patch)\<rparr>))"
    "length c = W * H"
    "\<And>x y. x < W \<Longrightarrow> y < H \<Longrightarrow> c ! (y * W + x) = overlay x y (sq_rows patch) (cells ! (moved_row scrolls x y * W + x))"
proof -
  have inside: "\<forall>r\<in>set (sq_rows patch). row_inside W H r"
    using rows W by (auto simp: list_all_iff row_fits_inside u16_max_def u64_max_def)
  obtain c1 where c1: "rfold (apply_scroll W) scrolls cells = Inr c1" "length c1 = W * H"
    and v1: "\<forall>x<W. \<forall>y<H. c1 ! (y * W + x) = cells ! (moved_row scrolls x y * W + x)"
    using apply_scrolls_grid [OF fits dis len] by blast
  obtain c where c: "apply_rows c1 W (sq_rows patch) = Inr c" "length c = W * H"
    and v: "\<forall>x<W. \<forall>y<H. c ! (y * W + x) = overlay x y (sq_rows patch) (c1 ! (y * W + x))"
    using apply_rows_overlay [OF inside c1(2)] by blast
  let ?moved = "\<lambda>s. map (scrolled_row c W (sc_rect s)) [sr_y (sc_rect s)..< sr_y (sc_rect s) + sr_height (sc_rect s)]"
  have "rmap (scrolled_rows c W) scrolls = Inr (map ?moved scrolls)"
    using fits c(2) by (intro rmap_ok scrolled_rows_ok [of _ _ H]) (auto simp: list_all_iff)
  then have "scroll_apply cells W H \<lparr>xp_scrolls = scrolls, xp_patch = patch\<rparr> =
      (c, Inr (patch\<lparr>sq_rows := expanded_rows c W scrolls (sq_rows patch)\<rparr>))"
    using len fits dis rows c1 c by (simp add: scroll_apply_def expanded_rows_def)
  with c v v1 show ?thesis by (intro that) auto
qed

lemma expanded_rows_inside:
  assumes fits: "list_all (\<lambda>s. scroll_fits s W H) scrolls" and len: "length c = W * H" and W: "W \<le> u16_max"
    and rows: "\<forall>r\<in>set rows. row_inside W H r"
  shows "\<forall>r\<in>set (expanded_rows c W scrolls rows). row_inside W H r"
proof -
  have "row_inside W H sp" if "r \<in> set rows" "sp \<in> set (outside_scrolls r scrolls)" for r sp
    using outside_scrolls_ok(1) [of r scrolls] rows W that by (fastforce simp: row_inside_def span_of_def)
  then show ?thesis using fits len scrolled_row_facts(1)
    by (auto simp: expanded_rows_def list_all_iff)
qed

lemma scroll_apply_expands:
  assumes "length cells = W * H" and "W \<le> u16_max"
    and "scroll_apply cells W H sp = (c, Inr patch')"
  shows "apply_rows cells W (sq_rows patch') = Inr c \<and> length c = W * H \<and>
    patch' = (xp_patch sp)\<lparr>sq_rows := sq_rows patch'\<rparr>"
proof -
  obtain scrolls patch where sp: "sp = \<lparr>xp_scrolls = scrolls, xp_patch = patch\<rparr>" by (cases sp)
  from assms(1,3) have v: "list_all (\<lambda>s. scroll_fits s W H) scrolls" "scrolls_disjoint scrolls"
      "list_all (\<lambda>r. row_fits r W H) (sq_rows patch)"
    by (auto simp: scroll_apply_def sp split: if_splits)
  then obtain c0 where c0: "scroll_apply cells W H sp = (c0, Inr (patch\<lparr>sq_rows := expanded_rows c0 W scrolls (sq_rows patch)\<rparr>))"
    "length c0 = W * H"
    and val: "\<And>x y. x < W \<Longrightarrow> y < H \<Longrightarrow> c0 ! (y * W + x) = overlay x y (sq_rows patch) (cells ! (moved_row scrolls x y * W + x))"
    unfolding sp by (rule scroll_apply_cells [OF assms(1,2)]) blast
  from c0(1) assms(3) have c: "c0 = c" and p': "patch' = patch\<lparr>sq_rows := expanded_rows c W scrolls (sq_rows patch)\<rparr>" by auto
  have inside: "\<forall>r\<in>set (sq_rows patch). row_inside W H r"
    using v(3) assms(2) by (auto simp: list_all_iff row_fits_inside u16_max_def u64_max_def)
  then have u16: "\<forall>r\<in>set (sq_rows patch). pr_x r + length (pr_cells r) \<le> u16_max"
    using assms(2) by (auto simp: row_inside_def)
  obtain c2 where c2: "apply_rows cells W (expanded_rows c W scrolls (sq_rows patch)) = Inr c2" "length c2 = W * H"
    and v2: "\<forall>x<W. \<forall>y<H. c2 ! (y * W + x) = overlay x y (expanded_rows c W scrolls (sq_rows patch)) (cells ! (y * W + x))"
    using apply_rows_overlay [OF expanded_rows_inside [OF v(1) _ assms(2) inside] assms(1)] c0(2) c by blast
  have "c2 = c"
  proof (rule grid_eqI [OF c2(2) c0(2) [unfolded c]])
    fix x y assume xy: "x < W" "y < H"
    have "c ! (y * W + x) = overlay x y (sq_rows patch) (cells ! (y * W + x))"
      if "\<forall>s\<in>set scrolls. \<not> in_rect (sc_rect s) x y"
    proof -
      have "find (\<lambda>s. in_rect (sc_rect s) x y) scrolls = None" using that by (auto simp: find_None_iff)
      with val [OF xy] show ?thesis by (simp add: c moved_row_def)
    qed
    from expanded_rows_overlay [OF v(1) c0(2) [unfolded c] u16 this] v2 xy
    show "c2 ! (y * W + x) = c ! (y * W + x)" by simp
  qed
  with c2 c0(2) c p' show ?thesis by (simp add: sp)
qed

text \<open>Every message is either applied or refused with the grid as it was; none panics.\<close>

lemma scroll_apply_total:
  assumes "W \<le> u16_max"
  shows "(\<exists>c p. scroll_apply cells W H sp = (c, Inr p)) \<or> (\<exists>e. scroll_apply cells W H sp = (cells, Inl (Err e)))"
proof (cases "length cells = W * H \<and> list_all (\<lambda>s. scroll_fits s W H) (xp_scrolls sp) \<and> scrolls_disjoint (xp_scrolls sp) \<and>
      list_all (\<lambda>r. row_fits r W H) (sq_rows (xp_patch sp))")
  case True
  then have "\<exists>c p. scroll_apply cells W H \<lparr>xp_scrolls = xp_scrolls sp, xp_patch = xp_patch sp\<rparr> = (c, Inr p)"
    using scroll_apply_cells [OF _ assms] by metis
  moreover have "\<lparr>xp_scrolls = xp_scrolls sp, xp_patch = xp_patch sp\<rparr> = sp" by (cases sp) simp
  ultimately show ?thesis by simp
next
  case False
  then have "\<exists>e. scroll_apply cells W H sp = (cells, Inl (Err e))" unfolding scroll_apply_def Let_def by auto
  then show ?thesis by blast
qed

subsection \<open>The expanded rows are disjoint\<close>

definition apart_outside :: "surface_scroll list \<Rightarrow> patch_row \<Rightarrow> patch_row \<Rightarrow> bool" where
  "apart_outside scrolls a b \<longleftrightarrow> (\<forall>x y. covers x y a \<and> covers x y b \<longrightarrow> (\<exists>s\<in>set scrolls. in_rect (sc_rect s) x y))"

lemma outside_span_covers:
  assumes "pr_x r + length (pr_cells r) \<le> u16_max" and "a \<in> set (outside_scrolls r scrolls)" and "covers x y a"
  shows "covers x y r" and "\<forall>s\<in>set scrolls. \<not> in_rect (sc_rect s) x y"
proof -
  show r: "covers x y r" using outside_scrolls_ok(1) [OF assms(1), of scrolls] assms(2,3) by (auto dest: span_covers)
  then show "\<forall>s\<in>set scrolls. \<not> in_rect (sc_rect s) x y"
    using outside_scrolls_ok(2) [OF assms(1), of x scrolls] assms(2,3) by (auto simp: covers_def)
qed

lemma outside_rows_disjoint:
  "sorted_wrt (apart_outside scrolls) rows \<Longrightarrow> \<forall>r\<in>set rows. pr_x r + length (pr_cells r) \<le> u16_max \<Longrightarrow>
   rows_disjoint (concat (map (\<lambda>row. outside_scrolls row scrolls) rows))"
proof (induction rows)
  case (Cons r rows)
  have "rows_apart a b" if "a \<in> set (outside_scrolls r scrolls)" "q \<in> set rows" "b \<in> set (outside_scrolls q scrolls)" for a b q
    unfolding rows_apart_iff
  proof (intro allI notI)
    fix x y assume xy: "covers x y a \<and> covers x y b"
    have "covers x y r" "covers x y q" "\<forall>s\<in>set scrolls. \<not> in_rect (sc_rect s) x y"
      using outside_span_covers [of r a scrolls x y] outside_span_covers [of q b scrolls x y] Cons.prems(2) that xy by auto
    moreover have "apart_outside scrolls r q" using Cons.prems(1) that(2) by simp
    ultimately show False by (auto simp: apart_outside_def)
  qed
  with Cons outside_scrolls_ok(3) [of r scrolls] show ?case by (auto simp: rows_disjoint_append)
qed simp

definition moved_rows :: "cell_data list \<Rightarrow> nat \<Rightarrow> surface_scroll \<Rightarrow> patch_row list" where
  "moved_rows c W s = map (scrolled_row c W (sc_rect s)) [sr_y (sc_rect s)..< sr_y (sc_rect s) + sr_height (sc_rect s)]"

lemma moved_rows_covers:
  assumes "scroll_fits s W H" and "length c = W * H" and "r \<in> set (moved_rows c W s)" and "covers x y r"
  shows "in_rect (sc_rect s) x y"
  using assms scrolled_row_facts(2) [OF assms(1,2)] by (auto simp: moved_rows_def)

lemma moved_rows_disjoint: "rows_disjoint (moved_rows c W s)"
proof -
  have "rows_disjoint (map (scrolled_row c W r) [m..<n])" for r m n
  proof (induction "n - m" arbitrary: m)
    case (Suc k)
    then have "[m..<n] = m # [Suc m..<n]" by (simp add: upt_conv_Cons)
    with Suc show ?case by (auto simp: list_all_iff rows_apart_def scrolled_row_def)
  qed simp
  then show ?thesis by (simp add: moved_rows_def)
qed

lemma all_moved_rows_disjoint:
  "list_all (\<lambda>s. scroll_fits s W H) ss \<Longrightarrow> scrolls_disjoint ss \<Longrightarrow> length c = W * H \<Longrightarrow>
   rows_disjoint (concat (map (moved_rows c W) ss))"
proof (induction ss)
  case (Cons s ss)
  have "rows_apart a b" if "a \<in> set (moved_rows c W s)" "t \<in> set ss" "b \<in> set (moved_rows c W t)" for a b t
  proof -
    have "scroll_fits s W H" "scroll_fits t W H" using Cons.prems(1) that(2) by (auto simp: list_all_iff)
    then show ?thesis using scrolls_disjoint_unique [OF Cons.prems(2,1) that(2)] Cons.prems(3) that(1,3)
      by (auto simp: rows_apart_iff dest!: moved_rows_covers)
  qed
  with Cons moved_rows_disjoint [of c W s] show ?case by (auto simp: rows_disjoint_append)
qed simp

lemma expanded_rows_disjoint:
  assumes "list_all (\<lambda>s. scroll_fits s W H) scrolls" and "scrolls_disjoint scrolls" and "length c = W * H"
    and "sorted_wrt (apart_outside scrolls) rows" and "\<forall>r\<in>set rows. pr_x r + length (pr_cells r) \<le> u16_max"
  shows "rows_disjoint (expanded_rows c W scrolls rows)"
proof -
  have "rows_apart a b" if a: "r \<in> set rows" "a \<in> set (outside_scrolls r scrolls)"
    and b: "s \<in> set scrolls" "b \<in> set (moved_rows c W s)" for a b r s
    unfolding rows_apart_iff
  proof (intro allI notI)
    fix x y assume xy: "covers x y a \<and> covers x y b"
    have "scroll_fits s W H" using assms(1) b(1) by (auto simp: list_all_iff)
    then have "in_rect (sc_rect s) x y" using moved_rows_covers [OF _ assms(3) b(2)] xy by simp
    then show False using outside_span_covers(2) [of r a scrolls x y] assms(5) a b(1) xy by auto
  qed
  with outside_rows_disjoint [OF assms(4,5)] all_moved_rows_disjoint [OF assms(1-3)] show ?thesis
    unfolding expanded_rows_def moved_rows_def [symmetric] by (auto simp: rows_disjoint_append)
qed

lemma rows_disjoint_outside: "rows_disjoint rows \<Longrightarrow> sorted_wrt (apart_outside scrolls) rows"
  by (induction rows) (auto simp: list_all_iff rows_apart_iff apart_outside_def)

subsection \<open>What the detection of a shift returns\<close>

lemma find_rev_overlay:
  "\<forall>sp\<in>set spans. pr_y sp = y \<Longrightarrow>
   (case find (\<lambda>sp. pr_x sp \<le> x \<and> x < pr_x sp + length (pr_cells sp)) (rev spans) of
      Some sp \<Rightarrow> pr_cells sp ! (x - pr_x sp) | None \<Rightarrow> v) = overlay x y spans v"
  by (induction spans rule: rev_induct) (auto simp: overlay1_def covers_def)

lemma row_view_cell_overlay:
  assumes "x < length (rv_base v)" and "\<forall>sp\<in>set (rv_spans v). pr_y sp = y"
  shows "row_view_cell v x = Inr (overlay (rv_left v + x) y (rv_spans v) (rv_base v ! x))"
  using assms(1) find_rev_overlay [OF assms(2), where x = "rv_left v + x" and v = "rv_base v ! x"]
  by (auto simp: row_view_cell_def Let_def index_at_def split: option.splits)

definition view_target :: "cell_data list list \<Rightarrow> surface_rect \<Rightarrow> patch_row list \<Rightarrow> nat \<Rightarrow> cell_data list" where
  "view_target previous rect rows y =
     map (\<lambda>x. overlay (sr_x rect + x) (sr_y rect + y) rows (previous ! y ! x)) [0..< sr_width rect]"

lemma row_view_cells_target:
  assumes "length (previous ! y) = sr_width rect" and "y < sr_height rect"
  shows "row_view_cells \<lparr>rv_base = previous ! y, rv_left = sr_x rect,
      rv_spans = filter (\<lambda>r. row_overlaps r rect \<and> pr_y r - sr_y rect = y) rows\<rparr> = Inr (view_target previous rect rows y)"
proof -
  let ?v = "\<lparr>rv_base = previous ! y, rv_left = sr_x rect,
      rv_spans = filter (\<lambda>r. row_overlaps r rect \<and> pr_y r - sr_y rect = y) rows\<rparr>"
  have "row_view_cell ?v x = Inr (overlay (sr_x rect + x) (sr_y rect + y) rows (previous ! y ! x))"
    if x: "x < sr_width rect" for x
  proof -
    have "overlay (sr_x rect + x) (sr_y rect + y) (rv_spans ?v) w = overlay (sr_x rect + x) (sr_y rect + y) rows w" for w
      using x assms(2) by (auto simp: covers_def row_overlaps_def intro!: overlay_filter)
    moreover have "row_view_cell ?v x = Inr (overlay (rv_left ?v + x) (sr_y rect + y) (rv_spans ?v) (rv_base ?v ! x))"
      using assms x by (intro row_view_cell_overlay) (auto simp: row_overlaps_def)
    ultimately show ?thesis by simp
  qed
  then have "rmap (row_view_cell ?v) [0..< sr_width rect] =
      Inr (map (\<lambda>x. overlay (sr_x rect + x) (sr_y rect + y) rows (previous ! y ! x)) [0..< sr_width rect])"
    by (intro rmap_ok) auto
  with assms show ?thesis by (simp add: row_view_cells_def view_target_def)
qed

lemma run_length_le: "run_length old new = Some k \<Longrightarrow> k \<le> length new \<and> k \<le> length old"
  by (induction old new arbitrary: k rule: run_length.induct) (auto split: if_splits)

lemma row_spans_values:
  "row_spans x0 old new = Some sp \<Longrightarrow> length old = length new \<Longrightarrow> q \<in> set sp \<Longrightarrow>
   x0 \<le> fst q \<and> fst q + length (snd q) \<le> x0 + length new \<and> snd q = take (length (snd q)) (drop (fst q - x0) new)"
proof (induction x0 old new arbitrary: sp rule: row_spans.induct)
  case (3 x p ps n ns)
  show ?case
  proof (cases "p = n")
    case True
    with "3.prems" have sp: "row_spans (Suc x) ps ns = Some sp" "length ps = length ns" by auto
    from "3.IH"(1) [OF True sp "3.prems"(3)] have IH: "Suc x \<le> fst q" "fst q + length (snd q) \<le> Suc x + length ns"
      "snd q = take (length (snd q)) (drop (fst q - Suc x) ns)" by auto
    then have "fst q - x = Suc (fst q - Suc x)" by simp
    then have "drop (fst q - x) (n # ns) = drop (fst q - Suc x) ns" by simp
    with IH show ?thesis by simp
  next
    case False
    with "3.prems" obtain k sp' where k: "run_length ps ns = Some k"
      and sp': "row_spans (x + Suc k) (drop k ps) (drop k ns) = Some sp'" and sp: "sp = (x, n # take k ns) # sp'"
      by (auto split: option.splits)
    have kl: "k \<le> length ns" using run_length_le [OF k] by simp
    have len: "length (drop k ps) = length (drop k ns)" using "3.prems" by simp
    show ?thesis
    proof (cases "q = (x, n # take k ns)")
      case True
      then show ?thesis using kl by simp
    next
      case False
      then have "q \<in> set sp'" using "3.prems"(3) sp by simp
      from "3.IH"(2) [OF \<open>p \<noteq> n\<close> k sp' len this]
      have IH: "x + Suc k \<le> fst q" "fst q + length (snd q) \<le> x + Suc k + length (drop k ns)"
        "snd q = take (length (snd q)) (drop (fst q - (x + Suc k)) (drop k ns))" by auto
      then have "fst q - x = Suc (fst q - (x + Suc k) + k)" by simp
      then have "drop (fst q - x) (n # ns) = drop (fst q - (x + Suc k)) (drop k ns)" by simp
      with IH kl show ?thesis by simp
    qed
  qed
qed auto

lemma row_spans_complete:
  "row_spans x0 old new = Some sp \<Longrightarrow> length old = length new \<Longrightarrow> i < length new \<Longrightarrow> old ! i \<noteq> new ! i \<Longrightarrow>
   \<exists>q\<in>set sp. fst q \<le> x0 + i \<and> x0 + i < fst q + length (snd q)"
proof (induction x0 old new arbitrary: sp i rule: row_spans.induct)
  case (3 x p ps n ns)
  show ?case
  proof (cases "p = n")
    case True
    with "3.prems" have sp: "row_spans (Suc x) ps ns = Some sp" "length ps = length ns" by auto
    from True "3.prems"(4) obtain j where j: "i = Suc j" by (cases i) auto
    with "3.prems" have "j < length ns" "ps ! j \<noteq> ns ! j" by auto
    from "3.IH"(1) [OF True sp this] show ?thesis by (simp add: j)
  next
    case False
    with "3.prems" obtain k sp' where k: "run_length ps ns = Some k"
      and sp': "row_spans (x + Suc k) (drop k ps) (drop k ns) = Some sp'" and sp: "sp = (x, n # take k ns) # sp'"
      by (auto split: option.splits)
    have kl: "k \<le> length ns" using run_length_le [OF k] by simp
    have len: "length (drop k ps) = length (drop k ns)" using "3.prems" by simp
    show ?thesis
    proof (cases "i \<le> k")
      case True
      then show ?thesis using kl by (simp add: sp)
    next
      case False
      define d where "d = i - Suc k"
      have d: "i = Suc (k + d)" using False by (simp add: d_def)
      then have "d < length (drop k ns)" "drop k ps ! d \<noteq> drop k ns ! d" using "3.prems"(2-4) by auto
      from "3.IH"(2) [OF \<open>p \<noteq> n\<close> k sp' len this] show ?thesis by (simp add: sp d add.assoc)
    qed
  qed
qed auto

definition residual_row :: "surface_rect \<Rightarrow> nat \<Rightarrow> nat \<times> cell_data list \<Rightarrow> patch_row" where
  "residual_row rect y q = \<lparr>pr_x = sr_x rect + fst q, pr_y = sr_y rect + y, pr_cells = snd q\<rparr>"

text \<open>The rows of one residual line turn the moved cell, or the final cell, into the final cell.\<close>

lemma residual_line:
  assumes sp: "row_spans 0 base target = Some sp" and len: "length base = sr_width rect" "length target = sr_width rect"
  shows "\<forall>r\<in>set (map (residual_row rect y) sp). sr_x rect \<le> pr_x r \<and> pr_x r + length (pr_cells r) \<le> sr_x rect + sr_width rect \<and> pr_y r = sr_y rect + y"
    and "x < sr_width rect \<Longrightarrow> v = base ! x \<or> v = target ! x \<Longrightarrow>
      overlay (sr_x rect + x) (sr_y rect + y) (map (residual_row rect y) sp) v = target ! x"
proof -
  have eq: "length base = length target" using len by simp
  have val: "fst q + length (snd q) \<le> sr_width rect" "snd q = take (length (snd q)) (drop (fst q) target)" if "q \<in> set sp" for q
    using row_spans_values [OF sp eq that] len by auto
  then show "\<forall>r\<in>set (map (residual_row rect y) sp). sr_x rect \<le> pr_x r \<and>
      pr_x r + length (pr_cells r) \<le> sr_x rect + sr_width rect \<and> pr_y r = sr_y rect + y"
    by (auto simp: residual_row_def)
  assume x: "x < sr_width rect" and v: "v = base ! x \<or> v = target ! x"
  have "pr_cells r ! (sr_x rect + x - pr_x r) = target ! x"
    if r: "r \<in> set (map (residual_row rect y) sp)" "covers (sr_x rect + x) (sr_y rect + y) r" for r
  proof -
    from r obtain q where q: "q \<in> set sp" "r = residual_row rect y q" by auto
    with r(2) have j: "fst q \<le> x" "x - fst q < length (snd q)" by (auto simp: covers_def residual_row_def)
    have "snd q ! (x - fst q) = take (length (snd q)) (drop (fst q) target) ! (x - fst q)" using val(2) [OF q(1)] by simp
    also have "\<dots> = target ! x" using j val(1) [OF q(1)] len by simp
    finally show ?thesis using q by (simp add: residual_row_def)
  qed
  moreover have "\<exists>r\<in>set (map (residual_row rect y) sp). covers (sr_x rect + x) (sr_y rect + y) r" if "v \<noteq> target ! x"
    using row_spans_complete [OF sp eq, of x] that v x len by (auto simp: covers_def residual_row_def)
  ultimately show "overlay (sr_x rect + x) (sr_y rect + y) (map (residual_row rect y) sp) v = target ! x"
    by (intro overlay_const) auto
qed

lemma residual_spans_ok:
  assumes "\<forall>(b, t)\<in>set pairs. length b = sr_width rect \<and> length t = sr_width rect"
    and "sr_x rect + sr_width rect \<le> u16_max" and "sr_y rect + (y0 + length pairs) \<le> u16_max"
  shows "\<exists>rs. residual_spans rect y0 pairs = Inr rs \<and>
    (\<forall>r\<in>set rs. sr_x rect \<le> pr_x r \<and> pr_x r + length (pr_cells r) \<le> sr_x rect + sr_width rect \<and>
       sr_y rect + y0 \<le> pr_y r \<and> pr_y r < sr_y rect + y0 + length pairs) \<and>
    (\<forall>i<length pairs. \<forall>x< sr_width rect. \<forall>v. v = fst (pairs ! i) ! x \<or> v = snd (pairs ! i) ! x \<longrightarrow>
       overlay (sr_x rect + x) (sr_y rect + (y0 + i)) rs v = snd (pairs ! i) ! x)"
  using assms
proof (induction pairs arbitrary: y0)
  case Nil
  then show ?case by simp
next
  case (Cons p pairs)
  obtain b t where p: "p = (b, t)" by (cases p)
  have len: "length b = sr_width rect" "length t = sr_width rect" using Cons.prems(1) p by auto
  obtain sp where sp: "row_spans 0 b t = Some sp" using row_spans_Some [of b t 0] len by auto
  let ?line = "map (residual_row rect y0) sp"
  note line = residual_line [OF sp len]
  have "\<forall>(b, t)\<in>set pairs. length b = sr_width rect \<and> length t = sr_width rect"
    "sr_y rect + (Suc y0 + length pairs) \<le> u16_max" using Cons.prems by auto
  from Cons.IH [OF this(1) Cons.prems(2) this(2)] obtain rs where rs: "residual_spans rect (Suc y0) pairs = Inr rs"
    and inside: "\<forall>r\<in>set rs. sr_x rect \<le> pr_x r \<and> pr_x r + length (pr_cells r) \<le> sr_x rect + sr_width rect \<and>
       sr_y rect + Suc y0 \<le> pr_y r \<and> pr_y r < sr_y rect + Suc y0 + length pairs"
    and val: "\<And>i x v. i < length pairs \<Longrightarrow> x < sr_width rect \<Longrightarrow> v = fst (pairs ! i) ! x \<or> v = snd (pairs ! i) ! x \<Longrightarrow>
       overlay (sr_x rect + x) (sr_y rect + (Suc y0 + i)) rs v = snd (pairs ! i) ! x"
    by blast
  have "wadd16 (sr_x rect) (fst q mod 65536) = sr_x rect + fst q" if "q \<in> set sp" for q
    using row_spans_values [OF sp _ that] len Cons.prems(2) by (simp add: u16_max_def)
  moreover have "wadd16 (sr_y rect) (y0 mod 65536) = sr_y rect + y0" using Cons.prems(3) by (simp add: u16_max_def)
  ultimately have "residual_spans rect y0 (p # pairs) = Inr (?line @ rs)"
    using sp rs by (auto simp: p residual_row_def)
  moreover have "overlay (sr_x rect + x) (sr_y rect + (y0 + i)) (?line @ rs) v = snd ((p # pairs) ! i) ! x"
    if i: "i < length (p # pairs)" "x < sr_width rect" "v = fst ((p # pairs) ! i) ! x \<or> v = snd ((p # pairs) ! i) ! x" for i x v
  proof (cases i)
    case 0
    have "overlay (sr_x rect + x) (sr_y rect + y0) rs w = w" for w
      using inside by (intro overlay_uncovered) (auto simp: covers_def)
    then show ?thesis using line(2) [OF i(2), of v y0] i(3) 0 p by simp
  next
    case (Suc j)
    have "overlay (sr_x rect + x) (sr_y rect + (Suc y0 + j)) ?line w = w" for w
      using line(1) by (intro overlay_uncovered) (auto simp: covers_def)
    then show ?thesis using val [of j x v] i Suc by simp
  qed
  moreover have "\<forall>r\<in>set (?line @ rs). sr_x rect \<le> pr_x r \<and> pr_x r + length (pr_cells r) \<le> sr_x rect + sr_width rect \<and>
       sr_y rect + y0 \<le> pr_y r \<and> pr_y r < sr_y rect + y0 + length (p # pairs)"
    using inside line(1) [of y0] by (fastforce simp: residual_row_def)
  ultimately show ?case by blast
qed

lemma keep_residual_Some: "keep_residual patched n rs = Some rs' \<Longrightarrow> rs' = rs"
  by (induction patched n rs arbitrary: rs' rule: keep_residual.induct) (auto simp: Let_def split: if_splits)

lemma search_shift_range:
  "\<forall>d\<in>set ds. d < height \<Longrightarrow> nat \<bar>fst b\<bar> < height \<Longrightarrow> nat \<bar>fst (search_shift hits height ds b)\<bar> < height"
proof (induction ds arbitrary: b)
  case (Cons d ds)
  have "nat \<bar>fst (better_shift hits (- int d) (better_shift hits (int d) b))\<bar> < height"
    using Cons.prems by (auto simp: better_shift_def)
  with Cons show ?case by simp
qed simp

definition pane_rows :: "frame_data \<Rightarrow> surface_rect \<Rightarrow> cell_data list list" where
  "pane_rows frame rect = map (\<lambda>y. take (sr_width rect) (drop (scroll_row_start rect (fd_width frame) y) (fd_cells frame))) [0..< sr_height rect]"

lemma pane_rows_facts:
  assumes "scroll_fits \<lparr>sc_rect = rect, sc_shift = k\<rparr> (fd_width frame) (fd_height frame)"
    and "length (fd_cells frame) = fd_width frame * fd_height frame"
  shows "rmap (\<lambda>y. slice_at (fd_cells frame) (scroll_row_start rect (fd_width frame) y) (sr_width rect)) [0..< sr_height rect]
      = Inr (pane_rows frame rect)"
    and "y < sr_height rect \<Longrightarrow> length (pane_rows frame rect ! y) = sr_width rect"
    and "y < sr_height rect \<Longrightarrow> x < sr_width rect \<Longrightarrow>
      pane_rows frame rect ! y ! x = fd_cells frame ! ((sr_y rect + y) * fd_width frame + (sr_x rect + x))"
proof -
  note d = scroll_fitsD [OF assms(1), simplified]
  have fit: "scroll_row_start rect (fd_width frame) y + sr_width rect \<le> length (fd_cells frame)" if "y < sr_height rect" for y
    unfolding scroll_row_start_def using d(1,2) that assms(2) by (intro slice_in_grid [of _ _ _ _ "fd_height frame"]) auto
  show "rmap (\<lambda>y. slice_at (fd_cells frame) (scroll_row_start rect (fd_width frame) y) (sr_width rect)) [0..< sr_height rect]
      = Inr (pane_rows frame rect)"
    unfolding pane_rows_def using fit by (intro rmap_ok) (auto simp: slice_at_def)
  assume y: "y < sr_height rect"
  show "length (pane_rows frame rect ! y) = sr_width rect" using y fit [OF y] by (simp add: pane_rows_def)
  assume "x < sr_width rect"
  then show "pane_rows frame rect ! y ! x = fd_cells frame ! ((sr_y rect + y) * fd_width frame + (sr_x rect + x))"
    using y fit [OF y] by (simp add: pane_rows_def scroll_row_start_def add.assoc)
qed

lemma pane_scroll_result:
  assumes fits: "scroll_fits \<lparr>sc_rect = rect, sc_shift = k\<rparr> (fd_width frame) (fd_height frame)"
    and len: "length (fd_cells frame) = fd_width frame * fd_height frame"
  obtains "pane_scroll frame rect rows = Inr None"
  | shift residual where "pane_scroll frame rect rows = Inr (Some (shift, residual))"
      "shift \<noteq> 0" "nat \<bar>shift\<bar> < sr_height rect" "-32768 \<le> shift" "shift \<le> 32767"
      "residual_spans rect 0 (zip (map (\<lambda>y. pane_rows frame rect ! swap_source (for_each_swap (sr_height rect) shift) y) [0..< sr_height rect])
         (map (view_target (pane_rows frame rect) rect rows) [0..< sr_height rect])) = Inr residual"
proof -
  note d = scroll_fitsD [OF fits, simplified]
  note pr = pane_rows_facts [OF fits len]
  let ?p = "pane_rows frame rect" and ?h = "sr_height rect"
  let ?views = "scroll_views ?p rect rows"
  define new_of where "new_of v = (if rv_spans v = [] then Inr (row_hash (rv_base v)) else row_view_hash v)" for v
  have cells: "row_view_cells \<lparr>rv_base = ?p ! y, rv_left = sr_x rect,
      rv_spans = filter (\<lambda>r. row_overlaps r rect \<and> pr_y r - sr_y rect = y) rows\<rparr> = Inr (view_target ?p rect rows y)" if "y < ?h" for y
    by (rule row_view_cells_target [OF pr(2) [OF that] that])
  have targets: "rmap row_view_cells ?views = Inr (map (view_target ?p rect rows) [0..< ?h])"
    unfolding scroll_views_def rmap_map using cells by (intro rmap_ok) auto
  have "\<forall>v\<in>set ?views. \<exists>h. new_of v = Inr h"
    using cells by (auto simp: scroll_views_def new_of_def row_view_hash_def)
  then obtain news where news: "rmap new_of ?views = Inr news" using rmap_total by blast
  define hits where "hits = shift_matches (map (\<lambda>v. row_hash (rv_base v)) ?views) news ?h"
  define shift where "shift = fst (search_shift hits ?h [1..< ?h] (0, hits 0))"
  have range: "nat \<bar>shift\<bar> < ?h" unfolding shift_def using d(5) by (intro search_shift_range) auto
  let ?sw = "for_each_swap ?h shift"
  have "swaps_below ?h ?sw" using range d(4) by (intro for_each_swap_below) auto
  then have order: "rfold (\<lambda>(a, b). swap_at a b) ?sw [0..< ?h] = Inr (map (swap_source ?sw) [0..< ?h])"
    using swaps_list [of "[0..< ?h]" ?sw] by (auto simp: swap_source_less)
  let ?pairs = "zip (map (\<lambda>y. ?p ! swap_source ?sw y) [0..< ?h]) (map (view_target ?p rect rows) [0..< ?h])"
  have "\<forall>(b, t)\<in>set ?pairs. length b = sr_width rect \<and> length t = sr_width rect"
    using pr(2) swap_source_less [OF \<open>swaps_below ?h ?sw\<close>] by (auto simp: set_zip view_target_def)
  from residual_spans_ok [OF this d(3), of 0] d(4) obtain spans where spans: "residual_spans rect 0 ?pairs = Inr spans" by auto
  have eq: "pane_scroll frame rect rows =
      (if length (filter (\<lambda>v. rv_spans v \<noteq> []) ?views) < 2 \<or> shift = 0 \<or> i16_try_from shift = None then Inr None
       else Inr (map_option (Pair shift) (keep_residual (patch_cells rect rows) 0 spans)))"
    unfolding pane_scroll_def Let_def pr(1) rthen_simps new_of_def [symmetric] news hits_def [symmetric] shift_def [symmetric]
    by (auto simp: i16_try_from_def order targets spans comp_def)
  show ?thesis
  proof (cases "pane_scroll frame rect rows = Inr None")
    case True
    then show ?thesis by (rule that(1))
  next
    case False
    with eq obtain rs where rs: "keep_residual (patch_cells rect rows) 0 spans = Some rs" "shift \<noteq> 0" "i16_try_from shift \<noteq> None"
      "pane_scroll frame rect rows = Inr (Some (shift, rs))"
      by (auto split: if_splits)
    then show ?thesis using range spans keep_residual_Some [OF rs(1)]
      by (intro that(2) [of shift rs]) (auto simp: i16_try_from_def split: if_splits)
  qed
qed

text \<open>One pane: after its scroll, the residual rows produce the cells the patch would have left.\<close>

definition explains :: "frame_data \<Rightarrow> patch_row list \<Rightarrow> surface_scroll \<Rightarrow> patch_row list \<Rightarrow> bool" where
  "explains frame rows s residual \<longleftrightarrow>
     scroll_fits s (fd_width frame) (fd_height frame) \<and> -32768 \<le> sc_shift s \<and> sc_shift s \<le> 32767 \<and>
     (\<forall>r\<in>set residual. fully_inside r (sc_rect s)) \<and>
     (\<forall>x y v. in_rect (sc_rect s) x y \<longrightarrow>
        v = fd_cells frame ! ((sr_y (sc_rect s) + scroll_source s (y - sr_y (sc_rect s))) * fd_width frame + x) \<or>
        v = overlay x y rows (fd_cells frame ! (y * fd_width frame + x)) \<longrightarrow>
        overlay x y residual v = overlay x y rows (fd_cells frame ! (y * fd_width frame + x)))"

lemma pane_scroll_explains:
  assumes fits: "scroll_fits \<lparr>sc_rect = rect, sc_shift = k\<rparr> (fd_width frame) (fd_height frame)"
    and len: "length (fd_cells frame) = fd_width frame * fd_height frame"
    and ps: "pane_scroll frame rect rows = Inr (Some (shift, residual))"
  shows "explains frame rows \<lparr>sc_rect = rect, sc_shift = shift\<rparr> residual"
proof -
  note d = scroll_fitsD [OF fits, simplified]
  note pr = pane_rows_facts [OF fits len]
  let ?p = "pane_rows frame rect" and ?h = "sr_height rect"
  let ?sw = "for_each_swap ?h shift" and ?W = "fd_width frame"
  let ?pairs = "zip (map (\<lambda>y. ?p ! swap_source ?sw y) [0..< ?h]) (map (view_target ?p rect rows) [0..< ?h])"
  from ps have sh: "shift \<noteq> 0" "nat \<bar>shift\<bar> < ?h" "-32768 \<le> shift" "shift \<le> 32767"
    and spans: "residual_spans rect 0 ?pairs = Inr residual"
  proof -
    from pane_scroll_result [OF fits len, of rows]
    have "shift \<noteq> 0 \<and> nat \<bar>shift\<bar> < ?h \<and> -32768 \<le> shift \<and> shift \<le> 32767 \<and> residual_spans rect 0 ?pairs = Inr residual"
    proof cases
      case 1
      with ps show ?thesis by simp
    next
      case (2 shift' residual')
      with ps show ?thesis by simp
    qed
    then show "shift \<noteq> 0" "nat \<bar>shift\<bar> < ?h" "-32768 \<le> shift" "shift \<le> 32767" "residual_spans rect 0 ?pairs = Inr residual"
      by simp_all
  qed
  have below: "swaps_below ?h ?sw" using sh(2) d(4) by (intro for_each_swap_below) auto
  have lens: "\<forall>(b, t)\<in>set ?pairs. length b = sr_width rect \<and> length t = sr_width rect"
    using pr(2) swap_source_less [OF below] by (auto simp: set_zip view_target_def)
  from residual_spans_ok [OF lens d(3), of 0] d(4) spans
  have inside: "\<forall>r\<in>set residual. fully_inside r rect"
    and val: "\<And>i x v. i < ?h \<Longrightarrow> x < sr_width rect \<Longrightarrow> v = fst (?pairs ! i) ! x \<or> v = snd (?pairs ! i) ! x \<Longrightarrow>
       overlay (sr_x rect + x) (sr_y rect + i) residual v = snd (?pairs ! i) ! x"
    by (fastforce simp: fully_inside_def)+
  have "overlay x y residual v = overlay x y rows (fd_cells frame ! (y * ?W + x))"
    if xy: "in_rect rect x y" and v: "v = fd_cells frame ! ((sr_y rect + swap_source ?sw (y - sr_y rect)) * ?W + x) \<or>
        v = overlay x y rows (fd_cells frame ! (y * ?W + x))" for x y v
  proof -
    define i where "i = y - sr_y rect"
    define j where "j = x - sr_x rect"
    have ij: "i < ?h" "j < sr_width rect" "y = sr_y rect + i" "x = sr_x rect + j" using xy by (auto simp: in_rect_def i_def j_def)
    have src: "swap_source ?sw i < ?h" using swap_source_less [OF below ij(1)] .
    have b: "fst (?pairs ! i) ! j = fd_cells frame ! ((sr_y rect + swap_source ?sw i) * ?W + x)"
      using ij src pr(3) [OF src ij(2)] by simp
    have t: "snd (?pairs ! i) ! j = overlay x y rows (fd_cells frame ! (y * ?W + x))"
      using ij pr(3) [OF ij(1,2)] by (simp add: view_target_def)
    from val [OF ij(1,2), of v] v show ?thesis unfolding b t i_def [symmetric] by (simp add: ij)
  qed
  moreover have "scroll_fits \<lparr>sc_rect = rect, sc_shift = shift\<rparr> ?W (fd_height frame)"
    using fits sh(1,2) by (simp add: scroll_fits_def Let_def)
  ultimately show ?thesis using sh inside by (simp add: explains_def scroll_source_def)
qed

text \<open>All panes: every scroll has its own residual rows, and they come in the same order.\<close>

definition collected :: "frame_data \<Rightarrow> patch_row list \<Rightarrow> surface_scroll list \<Rightarrow> patch_row list \<Rightarrow> bool" where
  "collected frame rows scrolls residual \<longleftrightarrow>
     (\<exists>parts. residual = concat parts \<and> list_all2 (explains frame rows) scrolls parts)"

lemma collect_scrolls_ok:
  assumes len: "length (fd_cells (pf_frame prev)) = fd_width (pf_frame prev) * fd_height (pf_frame prev)"
  shows "collected (pf_frame prev) (sq_rows patch) scrolls residual \<Longrightarrow> length scrolls < MAX_SCROLLS \<Longrightarrow>
    \<exists>scrolls' residual'. collect_scrolls prev patch panes scrolls residual = Inr (scrolls', residual') \<and>
      collected (pf_frame prev) (sq_rows patch) scrolls' residual' \<and> length scrolls' \<le> MAX_SCROLLS \<and>
      (\<exists>more. scrolls' = scrolls @ more \<and> subseq (map sc_rect more) (map sp_inner_rect panes))"
proof (induction panes arbitrary: scrolls residual)
  case Nil
  then show ?case by simp
next
  case (Cons pane panes)
  let ?rect = "sp_inner_rect pane" and ?frame = "pf_frame prev"
  have skip: ?case if "collect_scrolls prev patch (pane # panes) scrolls residual = collect_scrolls prev patch panes scrolls residual"
    using Cons.IH [OF Cons.prems] unfolding that by (auto intro: list_emb_Cons)
  show ?case
  proof (cases "\<not> list_ex (\<lambda>e. sp_pane_id e = sp_pane_id pane \<and> sp_inner_rect e = ?rect) (pf_panes prev) \<or>
         \<not> scroll_fits \<lparr>sc_rect = ?rect, sc_shift = 1\<rparr> (fd_width ?frame) (fd_height ?frame)")
    case True
    then show ?thesis by (intro skip) (simp add: Let_def)
  next
    case False
    then have fits: "scroll_fits \<lparr>sc_rect = ?rect, sc_shift = 1\<rparr> (fd_width ?frame) (fd_height ?frame)" by simp
    from pane_scroll_result [OF fits len, of "sq_rows patch"] show ?thesis
    proof cases
      case 1
      with False show ?thesis by (intro skip) (simp add: Let_def)
    next
      case (2 shift rs)
      let ?s = "\<lparr>sc_rect = ?rect, sc_shift = shift\<rparr>"
      have "explains ?frame (sq_rows patch) ?s rs" by (rule pane_scroll_explains [OF fits len 2(1)])
      moreover obtain parts where "residual = concat parts" "list_all2 (explains ?frame (sq_rows patch)) scrolls parts"
        using Cons.prems(1) by (auto simp: collected_def)
      ultimately have col: "collected ?frame (sq_rows patch) (scrolls @ [?s]) (residual @ rs)"
        unfolding collected_def by (intro exI [of _ "parts @ [rs]"]) (simp add: list_all2_appendI)
      show ?thesis
      proof (cases "length (scrolls @ [?s]) = MAX_SCROLLS")
        case True
        then have "collect_scrolls prev patch (pane # panes) scrolls residual = Inr (scrolls @ [?s], residual @ rs)"
          using False 2(1) by (simp add: Let_def)
        with True col show ?thesis by (auto intro!: exI [of _ "[?s]"])
      next
        case False2: False
        then have "length (scrolls @ [?s]) < MAX_SCROLLS" using Cons.prems(2) by simp
        moreover have "collect_scrolls prev patch (pane # panes) scrolls residual = collect_scrolls prev patch panes (scrolls @ [?s]) (residual @ rs)"
          using False False2 2(1) by (simp add: Let_def)
        ultimately show ?thesis using Cons.IH [OF col] by fastforce
      qed
    qed
  qed
qed

subsection \<open>Sender and receiver agree\<close>

lemma fully_inside_covers: "fully_inside r rect \<Longrightarrow> covers x y r \<Longrightarrow> in_rect rect x y"
  by (auto simp: fully_inside_def covers_def in_rect_def)

lemma residual_overlay:
  assumes "list_all2 (explains frame rows) scrolls parts" and "scrolls_disjoint scrolls"
  shows "(find (\<lambda>s. in_rect (sc_rect s) x y) scrolls = None \<longrightarrow> overlay x y (concat parts) v = v) \<and>
    (find (\<lambda>s. in_rect (sc_rect s) x y) scrolls \<noteq> None \<longrightarrow>
       v = fd_cells frame ! (moved_row scrolls x y * fd_width frame + x) \<or>
       v = overlay x y rows (fd_cells frame ! (y * fd_width frame + x)) \<longrightarrow>
       overlay x y (concat parts) v = overlay x y rows (fd_cells frame ! (y * fd_width frame + x)))"
  using assms
proof (induction scrolls parts arbitrary: v rule: list_all2_induct)
  case Nil
  then show ?case by simp
next
  case (Cons s ss part parts)
  have fits: "list_all (\<lambda>s. scroll_fits s (fd_width frame) (fd_height frame)) (s # ss)"
    using Cons.hyps by (auto simp: explains_def list_all_iff list_all2_conv_all_nth in_set_conv_nth)
  note IH = Cons.IH [OF Cons.prems [simplified, THEN conjunct2]]
  show ?case
  proof (cases "in_rect (sc_rect s) x y")
    case True
    then have "find (\<lambda>s. in_rect (sc_rect s) x y) ss = None"
      using scrolls_disjoint_unique [OF Cons.prems fits] by (auto simp: find_None_iff)
    with IH True Cons.hyps(1) show ?thesis by (auto simp: explains_def moved_row_def)
  next
    case False
    then have "overlay x y part w = w" for w
      using Cons.hyps(1) fully_inside_covers by (intro overlay_uncovered) (auto simp: explains_def)
    with IH [of v] False show ?thesis by (simp add: moved_row_def)
  qed
qed

lemma overlay_filter_disjoint:
  assumes "rows_disjoint rows"
  shows "overlay x y (filter P rows) w = w \<or> overlay x y (filter P rows) w = overlay x y rows v"
proof (cases "\<exists>r\<in>set (filter P rows). covers x y r")
  case True
  then obtain r where r: "r \<in> set rows" "P r" "covers x y r" by auto
  have uniq: "\<forall>q\<in>set rows. covers x y q \<longrightarrow> pr_cells q ! (x - pr_x q) = pr_cells r ! (x - pr_x r)"
  proof (intro ballI impI)
    fix q assume "q \<in> set rows" "covers x y q"
    then show "pr_cells q ! (x - pr_x q) = pr_cells r ! (x - pr_x r)"
      using r by (intro rows_disjoint_covers_unique [OF assms]) auto
  qed
  have "overlay x y rows v = pr_cells r ! (x - pr_x r)" by (rule overlay_const [OF uniq]) (use r in blast)
  moreover have "overlay x y (filter P rows) w = pr_cells r ! (x - pr_x r)"
  proof (rule overlay_const)
    show "\<forall>q\<in>set (filter P rows). covers x y q \<longrightarrow> pr_cells q ! (x - pr_x q) = pr_cells r ! (x - pr_x r)"
      using uniq filter_is_subset [of P rows] by blast
    have "r \<in> set (filter P rows)" using r by simp
    then show "(\<exists>q\<in>set (filter P rows). covers x y q) \<or> w = pr_cells r ! (x - pr_x r)" using r(3) by blast
  qed
  ultimately show ?thesis by simp
qed (auto simp: overlay_uncovered)

lemma scrolls_disjoint_rects: "scrolls_disjoint ss \<longleftrightarrow> sorted_wrt (\<lambda>a b. \<not> rects_overlap a b) (map sc_rect ss)"
  by (induction ss) (auto simp: list_all_iff)

lemma sorted_wrt_subseq: "subseq xs ys \<Longrightarrow> sorted_wrt P ys \<Longrightarrow> sorted_wrt P xs"
proof (induction rule: list_emb.induct)
  case (list_emb_Cons2 x y xs ys)
  then show ?case by (auto elim: list_emb_set)
qed auto

lemma scroll_equals_patch:
  assumes len: "length (fd_cells frame) = fd_width frame * fd_height frame" and W: "fd_width frame \<le> u16_max"
    and rows: "rows_disjoint (sq_rows patch)" "\<forall>r\<in>set (sq_rows patch). row_inside (fd_width frame) (fd_height frame) r"
    and col: "collected frame (sq_rows patch) scrolls residual" and dis: "scrolls_disjoint scrolls"
  shows "\<exists>c patch'. scroll_apply (fd_cells frame) (fd_width frame) (fd_height frame)
      \<lparr>xp_scrolls = scrolls, xp_patch = patch\<lparr>sq_rows :=
         filter (\<lambda>row. \<not> list_ex (\<lambda>s. fully_inside row (sc_rect s)) scrolls) (sq_rows patch) @ residual\<rparr>\<rparr> = (c, Inr patch') \<and>
      apply_rows (fd_cells frame) (fd_width frame) (sq_rows patch) = Inr c \<and> rows_disjoint (sq_rows patch')"
proof -
  let ?W = "fd_width frame" and ?H = "fd_height frame" and ?cells = "fd_cells frame"
  let ?keep = "\<lambda>row. \<not> list_ex (\<lambda>s. fully_inside row (sc_rect s)) scrolls"
  let ?rows = "filter ?keep (sq_rows patch) @ residual"
  obtain parts where parts: "residual = concat parts" "list_all2 (explains frame (sq_rows patch)) scrolls parts"
    using col by (auto simp: collected_def)
  have fits: "list_all (\<lambda>s. scroll_fits s ?W ?H) scrolls"
    using parts(2) by (auto simp: explains_def list_all_iff list_all2_conv_all_nth in_set_conv_nth)
  have resid: "row_inside ?W ?H r" "\<exists>s\<in>set scrolls. fully_inside r (sc_rect s)" if "r \<in> set residual" for r
  proof -
    from that parts(1) obtain part where part: "part \<in> set parts" "r \<in> set part" by auto
    then obtain i where "i < length parts" "parts ! i = part" by (auto simp: in_set_conv_nth)
    with parts(2) part have i: "i < length scrolls" "explains frame (sq_rows patch) (scrolls ! i) (parts ! i)" "r \<in> set (parts ! i)"
      by (auto simp: list_all2_conv_all_nth)
    then have "scroll_fits (scrolls ! i) ?W ?H" "fully_inside r (sc_rect (scrolls ! i))" by (auto simp: explains_def)
    with scroll_fitsD(1,2) [OF this(1)] i(1) show "row_inside ?W ?H r" "\<exists>s\<in>set scrolls. fully_inside r (sc_rect s)"
      by (auto simp: row_inside_def fully_inside_def)
  qed
  then have all: "list_all (\<lambda>r. row_fits r ?W ?H) ?rows"
    using rows(2) W by (auto simp: list_all_iff row_fits_inside u16_max_def u64_max_def)
  obtain c where c: "scroll_apply ?cells ?W ?H \<lparr>xp_scrolls = scrolls, xp_patch = patch\<lparr>sq_rows := ?rows\<rparr>\<rparr> =
      (c, Inr (patch\<lparr>sq_rows := expanded_rows c ?W scrolls ?rows\<rparr>))" "length c = ?W * ?H"
    and val: "\<And>x y. x < ?W \<Longrightarrow> y < ?H \<Longrightarrow> c ! (y * ?W + x) = overlay x y ?rows (?cells ! (moved_row scrolls x y * ?W + x))"
    by (rule scroll_apply_cells [OF len W fits dis, of "patch\<lparr>sq_rows := ?rows\<rparr>"]) (use all in auto)
  obtain c2 where c2: "apply_rows ?cells ?W (sq_rows patch) = Inr c2" "length c2 = ?W * ?H"
    and v2: "\<forall>x<?W. \<forall>y<?H. c2 ! (y * ?W + x) = overlay x y (sq_rows patch) (?cells ! (y * ?W + x))"
    using apply_rows_overlay [OF rows(2) len] by blast
  have "c = c2"
  proof (rule grid_eqI [OF c(2) c2(2)])
    fix x y assume xy: "x < ?W" "y < ?H"
    let ?b = "?cells ! (moved_row scrolls x y * ?W + x)"
    let ?t = "overlay x y (sq_rows patch) (?cells ! (y * ?W + x))"
    have "overlay x y residual (overlay x y (filter ?keep (sq_rows patch)) ?b) = ?t"
    proof (cases "find (\<lambda>s. in_rect (sc_rect s) x y) scrolls")
      case None
      then have out: "\<forall>s\<in>set scrolls. \<not> in_rect (sc_rect s) x y" by (auto simp: find_None_iff)
      then have "overlay x y (filter ?keep (sq_rows patch)) w = overlay x y (sq_rows patch) w" for w
        using fully_inside_covers by (intro overlay_filter) (auto simp: list_ex_iff)
      with None residual_overlay [OF parts(2) dis, of x y] show ?thesis by (simp add: parts(1) moved_row_def)
    next
      case (Some s)
      let ?w = "overlay x y (filter ?keep (sq_rows patch)) ?b"
      have "find (\<lambda>s. in_rect (sc_rect s) x y) scrolls \<noteq> None" using Some by simp
      with residual_overlay [OF parts(2) dis, of x y ?w]
      have "?w = ?b \<or> ?w = ?t \<longrightarrow> overlay x y residual ?w = ?t" unfolding parts(1) by blast
      with overlay_filter_disjoint [OF rows(1)] show ?thesis by blast
    qed
    with val [OF xy] v2 xy show "c ! (y * ?W + x) = c2 ! (y * ?W + x)" by simp
  qed
  moreover have "rows_disjoint (expanded_rows c ?W scrolls ?rows)"
  proof (rule expanded_rows_disjoint [OF fits dis c(2)])
    have "sorted_wrt (apart_outside scrolls) (filter ?keep (sq_rows patch))"
      using rows_disjoint_outside [OF rows(1)] by (rule sorted_wrt_filter)
    moreover have "apart_outside scrolls a r" if "r \<in> set residual" for a r
      unfolding apart_outside_def using resid(2) [OF that] fully_inside_covers by blast
    moreover from this have "sorted_wrt (apart_outside scrolls) residual"
      by (simp add: sorted_wrt_iff_nth_less)
    ultimately show "sorted_wrt (apart_outside scrolls) ?rows" by (simp add: sorted_wrt_append)
    show "\<forall>r\<in>set ?rows. pr_x r + length (pr_cells r) \<le> u16_max"
      using resid(1) rows(2) W by (fastforce simp: row_inside_def)
  qed
  ultimately show ?thesis using c c2 by auto
qed

subsection \<open>The header of a message\<close>

text \<open>What the libraries guarantee: the payload codec and base64 decode what they encoded,
  base64 does not shorten its input, and an encoded message holds its data.\<close>

definition scroll_lib_ok :: "scroll_lib \<Rightarrow> bool" where
  "scroll_lib_ok lib \<longleftrightarrow>
     codec_ok (sl_enc lib) (sl_dec lib) \<and>
     (\<forall>bs. sl_b64_decode lib (sl_b64_encode lib bs) = Inr bs \<and> length bs \<le> length (sl_b64_encode lib bs)) \<and>
     (\<forall>n m. sl_b64_len lib n = Some m \<longrightarrow> n \<le> m) \<and>
     (\<forall>kind data n. sl_size lib (MsgEndpointControl kind data) = Some n \<longrightarrow> length data \<le> n)"

lemma i16_roundtrip:
  assumes "-32768 \<le> v" and "v \<le> 32767"
  shows "i16_of_bits (i16_bits v) = v"
proof (cases "0 \<le> v")
  case True
  with assms show ?thesis by (simp add: i16_of_bits_def i16_bits_def)
next
  case False
  have "v mod 65536 = (v + 65536) mod 65536" by simp
  also have "\<dots> = v + 65536" using False assms by (intro mod_pos_pos_trivial) auto
  finally show ?thesis using assms False by (simp add: i16_of_bits_def i16_bits_def)
qed

lemma i16_bits_less: "i16_bits v < 65536"
  by (simp add: i16_bits_def nat_less_iff)

lemma from_to_le2: "v \<le> u16_max \<Longrightarrow> from_le (to_le 2 v) = v"
  by (intro from_to_le) (simp add: u16_max_def)

lemma scroll_bytes_length: "length (scroll_bytes s) = SCROLL_BYTES"
  by (simp add: scroll_bytes_def Let_def SCROLL_BYTES_def)

lemma read_scrolls_put:
  assumes "\<forall>s\<in>set ss. scroll_fits s W H \<and> -32768 \<le> sc_shift s \<and> sc_shift s \<le> 32767"
  shows "read_scrolls (length ss) (concat (map scroll_bytes ss)) = ss"
  using assms
proof (induction ss)
  case (Cons s ss)
  let ?r = "sc_rect s" and ?rest = "concat (map scroll_bytes ss)"
  have d: "sr_x ?r \<le> u16_max" "sr_width ?r \<le> u16_max" "sr_y ?r \<le> u16_max" "sr_height ?r \<le> u16_max"
    using scroll_fitsD [of s W H] Cons.prems by auto
  have le: "from_le (to_le 2 (i16_bits (sc_shift s))) = i16_bits (sc_shift s)"
    using i16_bits_less [of "sc_shift s"] by (intro from_to_le2) (simp add: u16_max_def)
  have sh: "i16_of_bits (i16_bits (sc_shift s)) = sc_shift s" using Cons.prems by (intro i16_roundtrip) auto
  have rest: "drop SCROLL_BYTES (scroll_bytes s @ ?rest) = ?rest" by (simp add: scroll_bytes_length)
  have "take 2 (drop 0 (scroll_bytes s @ ?rest)) = to_le 2 (sr_x ?r)" "take 2 (drop 2 (scroll_bytes s @ ?rest)) = to_le 2 (sr_y ?r)"
    "take 2 (drop 4 (scroll_bytes s @ ?rest)) = to_le 2 (sr_width ?r)" "take 2 (drop 6 (scroll_bytes s @ ?rest)) = to_le 2 (sr_height ?r)"
    "take 2 (drop 8 (scroll_bytes s @ ?rest)) = to_le 2 (i16_bits (sc_shift s))"
    unfolding scroll_bytes_def Let_def by (simp_all del: to_le.simps)
  with Cons d le sh rest show ?case by (simp add: from_to_le2 Let_def del: to_le.simps drop_append take_append)
qed simp

lemma scroll_decode_framed:
  assumes lib: "scroll_lib_ok lib"
    and ss: "\<forall>s\<in>set scrolls. scroll_fits s W H \<and> -32768 \<le> sc_shift s \<and> sc_shift s \<le> 32767"
    and n: "scrolls \<noteq> []" "length scrolls \<le> MAX_SCROLLS"
    and w: "write_message (sl_enc lib) (of_nat (length scrolls) # concat (map scroll_bytes scrolls)) (MsgPaneSurfacePatch patch) = Inr framed"
    and size: "sl_size lib (MsgEndpointControl kind (sl_b64_encode lib framed)) = Some m" "m \<le> MAX_FRAME_SIZE"
  shows "scroll_decode lib (sl_b64_encode lib framed) = Inr \<lparr>xp_scrolls = scrolls, xp_patch = patch\<rparr>"
proof -
  let ?head = "concat (map scroll_bytes scrolls)" and ?msg = "MsgPaneSurfacePatch patch"
  from w obtain p where p: "sl_enc lib ?msg = Inr p" "length p \<le> u32_max"
    and framed: "framed = of_nat (length scrolls) # ?head @ to_le 4 (length p) @ p"
    by (auto simp: write_message_Inr simp del: to_le.simps)
  have data: "length (sl_b64_encode lib framed) \<le> MAX_FRAME_SIZE"
    using lib size by (fastforce simp: scroll_lib_ok_def)
  have "length framed \<le> length (sl_b64_encode lib framed)" using lib by (simp add: scroll_lib_ok_def)
  then have "length p \<le> MAX_FRAME_SIZE" using data framed by (simp del: to_le.simps)
  moreover have "codec_ok (sl_enc lib) (sl_dec lib)" using lib by (simp add: scroll_lib_ok_def)
  ultimately have rd: "read_message (sl_dec lib) (to_le 4 (length p) @ p @ []) MAX_FRAME_SIZE = (Inr ?msg, [])"
    using p by (intro read_written [where enc = "sl_enc lib" and msg = ?msg]) auto
  have head: "length ?head = length scrolls * SCROLL_BYTES" by (induction scrolls) (auto simp: scroll_bytes_length)
  have count: "unat (of_nat (length scrolls) :: byte) = length scrolls" using n(2) by (simp add: MAX_SCROLLS_def)
  have limit: "\<not> (case sl_b64_len lib MAX_FRAME_SIZE of None \<Rightarrow> u64_max | Some n \<Rightarrow> n) < length (sl_b64_encode lib framed)"
  proof (cases "sl_b64_len lib MAX_FRAME_SIZE")
    case None
    with data show ?thesis by (simp add: u64_max_def MAX_FRAME_SIZE_def)
  next
    case (Some m)
    then have "MAX_FRAME_SIZE \<le> m" using lib by (simp add: scroll_lib_ok_def)
    with data Some show ?thesis by simp
  qed
  have dec: "sl_b64_decode lib (sl_b64_encode lib framed) = Inr framed" using lib by (simp add: scroll_lib_ok_def)
  show ?thesis
    using limit n rd head read_scrolls_put [OF ss]
    unfolding scroll_decode_def Let_def framed dec [unfolded framed] sum.case list.case count
    by (simp del: to_le.simps read_scrolls.simps)
qed

lemma scroll_message_Some:
  assumes lib: "scroll_lib_ok lib" and W: "fd_width (pf_frame prev) \<le> u16_max"
    and m: "scroll_message lib prev patch = Inr (Some msg)"
    and rows: "rows_disjoint (sq_rows patch)"
      "\<forall>r\<in>set (sq_rows patch). row_inside (fd_width (pf_frame prev)) (fd_height (pf_frame prev)) r"
    and panes: "sorted_wrt (\<lambda>a b. \<not> rects_overlap a b) (map sp_inner_rect (sq_panes patch))"
  obtains data sp c patch' where "msg = MsgEndpointControl SCROLL_KIND data" "scroll_decode lib data = Inr sp"
    "scroll_apply (fd_cells (pf_frame prev)) (fd_width (pf_frame prev)) (fd_height (pf_frame prev)) sp = (c, Inr patch')"
    "apply_rows (fd_cells (pf_frame prev)) (fd_width (pf_frame prev)) (sq_rows patch) = Inr c"
    "rows_disjoint (sq_rows patch')" "patch'\<lparr>sq_rows := sq_rows patch\<rparr> = patch"
    "(xp_patch sp)\<lparr>sq_rows := sq_rows patch\<rparr> = patch"
    "length (fd_cells (pf_frame prev)) = fd_width (pf_frame prev) * fd_height (pf_frame prev)"
proof -
  let ?f = "pf_frame prev"
  have len: "length (fd_cells ?f) = fd_width ?f * fd_height ?f"
    using m by (auto simp: scroll_message_def Let_def split: if_splits)
  have "collected ?f (sq_rows patch) [] []" by (simp add: collected_def)
  from collect_scrolls_ok [OF len this, of "sq_panes patch"] obtain scrolls residual where
    col: "collect_scrolls prev patch (sq_panes patch) [] [] = Inr (scrolls, residual)"
      "collected ?f (sq_rows patch) scrolls residual" "length scrolls \<le> MAX_SCROLLS"
      "subseq (map sc_rect scrolls) (map sp_inner_rect (sq_panes patch))"
    by (auto simp: MAX_SCROLLS_def)
  define inner where "inner = patch\<lparr>sq_rows :=
      filter (\<lambda>row. \<not> list_ex (\<lambda>s. fully_inside row (sc_rect s)) scrolls) (sq_rows patch) @ residual\<rparr>"
  from m col(1) len obtain framed n where s: "scrolls \<noteq> []"
    "write_message (sl_enc lib) (of_nat (length scrolls) # concat (map scroll_bytes scrolls)) (MsgPaneSurfacePatch inner) = Inr framed"
    "msg = MsgEndpointControl SCROLL_KIND (sl_b64_encode lib framed)" "sl_size lib msg = Some n" "n \<le> MAX_FRAME_SIZE"
    by (auto simp: scroll_message_def Let_def inner_def split: if_splits sum.splits option.splits)
  have dis: "scrolls_disjoint scrolls"
    unfolding scrolls_disjoint_rects by (rule sorted_wrt_subseq [OF col(4) panes])
  have ss: "\<forall>s\<in>set scrolls. scroll_fits s (fd_width ?f) (fd_height ?f) \<and> -32768 \<le> sc_shift s \<and> sc_shift s \<le> 32767"
    using col(2) by (auto simp: collected_def explains_def list_all2_conv_all_nth in_set_conv_nth)
  have dec: "scroll_decode lib (sl_b64_encode lib framed) = Inr \<lparr>xp_scrolls = scrolls, xp_patch = inner\<rparr>"
    using s by (intro scroll_decode_framed [OF lib ss s(1) col(3) s(2)]) auto
  from scroll_equals_patch [OF len W rows col(2) dis] obtain c patch' where
    ap: "scroll_apply (fd_cells ?f) (fd_width ?f) (fd_height ?f) \<lparr>xp_scrolls = scrolls, xp_patch = inner\<rparr> = (c, Inr patch')"
      "apply_rows (fd_cells ?f) (fd_width ?f) (sq_rows patch) = Inr c" "rows_disjoint (sq_rows patch')"
    unfolding inner_def by blast
  from scroll_apply_expands [OF len W ap(1)] have "patch' = inner\<lparr>sq_rows := sq_rows patch'\<rparr>" by simp
  then have "patch'\<lparr>sq_rows := sq_rows patch\<rparr> = inner\<lparr>sq_rows := sq_rows patch'\<rparr>\<lparr>sq_rows := sq_rows patch\<rparr>" by simp
  also have "\<dots> = patch" by (simp add: inner_def)
  finally show ?thesis using s dec ap len by (intro that) (auto simp: inner_def)
qed

section \<open>Properties of the scroll codec\<close>

subsection \<open>A small surface\<close>

text \<open>A pane of one column and four rows that scrolls up by one, with a codec for its patch.\<close>

definition ex_cell :: "nat \<Rightarrow> cell_data" where
  "ex_cell m = \<lparr>cd_symbol = [], cd_fg = 0, cd_bg = 0, cd_modifier = m, cd_skip = False, cd_hyperlink = None\<rparr>"

definition ex_rect :: surface_rect where
  "ex_rect = \<lparr>sr_x = 0, sr_y = 0, sr_width = 1, sr_height = 4\<rparr>"

definition ex_pane :: surface_pane where
  "ex_pane = \<lparr>sp_pane_id = ''p'', sp_content_revision = 0, sp_rect = ex_rect, sp_inner_rect = ex_rect,
     sp_scrollbar_rect = None, sp_scroll = None, sp_focused = True, sp_mouse_reporting = False,
     sp_sgr_pixel_mouse = False, sp_alternate_screen_active = False, sp_pixel_width = 0, sp_pixel_height = 0\<rparr>"

definition ex_frame :: frame_data where
  "ex_frame = \<lparr>fd_cells = map ex_cell [1, 2, 3, 4], fd_width = 1, fd_height = 4, fd_cursor = None,
     fd_hyperlinks = [], fd_graphics = []\<rparr>"

definition ex_prev :: pane_surface where
  "ex_prev = \<lparr>pf_boot_id = ''b'', pf_projection_revision = 1, pf_surface_revision = 1, pf_frame = ex_frame,
     pf_panes = [ex_pane], pf_splits = [], pf_popup = None,
     pf_graphics = \<lparr>gs_assets = [], gs_placements = [], gs_retained_assets = []\<rparr>\<rparr>"

definition ex_row :: "nat \<Rightarrow> nat \<Rightarrow> patch_row" where
  "ex_row y m = \<lparr>pr_x = 0, pr_y = y, pr_cells = [ex_cell m]\<rparr>"

definition ex_patch :: "patch_row list \<Rightarrow> surface_patch" where
  "ex_patch rows = \<lparr>sq_boot_id = ''b'', sq_projection_revision = 1, sq_base_surface_revision = 1,
     sq_surface_revision = 2, sq_rows = rows, sq_panes = [ex_pane], sq_cursor = None, sq_hyperlink_uris = []\<rparr>"

definition ex_rows :: "patch_row list" where
  "ex_rows = [ex_row 0 2, ex_row 1 3, ex_row 2 4, ex_row 3 5]"

definition ex_lib :: scroll_lib where
  "ex_lib = \<lparr>sl_enc = (\<lambda>m. if m = MsgPaneSurfacePatch (ex_patch [ex_row 3 5]) then Inr [1] else Inl ''other''),
     sl_dec = (\<lambda>bs. if bs = [1] then Inr (MsgPaneSurfacePatch (ex_patch [ex_row 3 5]), 1) else Inl ''other''),
     sl_b64_encode = map (\<lambda>b. char_of (unat b)), sl_b64_decode = (\<lambda>s. Inr (map (\<lambda>c. of_nat (of_char c)) s)),
     sl_b64_len = Some, sl_size = (\<lambda>m. case m of MsgEndpointControl kind data \<Rightarrow> Some (length data) | _ \<Rightarrow> None)\<rparr>"

lemma ex_lib_ok: "scroll_lib_ok ex_lib"
proof -
  have "(of_nat (of_char (char_of (unat b) :: char)) :: byte) = b" for b :: byte
    by (simp add: of_char_of unat_byte_less)
  then show ?thesis by (auto simp: scroll_lib_ok_def ex_lib_def codec_ok_def map_idI comp_def split: if_splits)
qed

definition ex_hash :: "nat \<Rightarrow> 64 word" where "ex_hash m = of_nat m * 0x517cc1b727220a95"
lemma ex_row_hash: "row_hash [ex_cell m] = ex_hash m"
  by (simp add: row_hash_def cell_hash_def mix_def ex_cell_def ex_hash_def Let_def)

lemma upt4: "[0..<4] = [0, 1, 2, 3::nat]" "[1..<4] = [1, 2, 3::nat]" "[0..<3] = [0,1,2::nat]" by (simp_all add: upt_rec)

lemmas nth4 = nth_Cons_0 nth_Cons_Suc nth_Cons_numeral
lemma ex_previous: "rmap (\<lambda>y. slice_at (fd_cells ex_frame) (scroll_row_start ex_rect (fd_width ex_frame) y) (sr_width ex_rect)) [0..< sr_height ex_rect]
   = Inr [[ex_cell 1], [ex_cell 2], [ex_cell 3], [ex_cell 4]]"
  by (simp add: ex_frame_def ex_rect_def scroll_row_start_def slice_at_def upt4)

lemma ex_views: "scroll_views [[ex_cell 1], [ex_cell 2], [ex_cell 3], [ex_cell 4]] ex_rect ex_rows =
  [\<lparr>rv_base = [ex_cell 1], rv_left = 0, rv_spans = [ex_row 0 2]\<rparr>, \<lparr>rv_base = [ex_cell 2], rv_left = 0, rv_spans = [ex_row 1 3]\<rparr>,
   \<lparr>rv_base = [ex_cell 3], rv_left = 0, rv_spans = [ex_row 2 4]\<rparr>, \<lparr>rv_base = [ex_cell 4], rv_left = 0, rv_spans = [ex_row 3 5]\<rparr>]"
  by (simp add: scroll_views_def ex_rect_def ex_rows_def ex_row_def row_overlaps_def upt4 nth4)

lemma ex_view_cells: "row_view_cells \<lparr>rv_base = [ex_cell a], rv_left = 0, rv_spans = [ex_row y b]\<rparr> = Inr [ex_cell b]"
  by (simp add: row_view_cells_def row_view_cell_def ex_row_def)

lemma ex_patched: "patch_cells ex_rect ex_rows = 4"
  by (simp add: patch_cells_def ex_rect_def ex_rows_def ex_row_def row_overlaps_def fully_inside_def)

lemma ex_hash_distinct: "distinct [ex_hash 1, ex_hash 2, ex_hash 3, ex_hash 4, ex_hash 5]"
proof -
  have "ex_hash 1 = 0x517cc1b727220a95" "ex_hash 2 = 0xa2f9836e4e44152a" "ex_hash 3 = 0xf476452575661fbf"
    "ex_hash 4 = 0x45f306dc9c882a54" "ex_hash 5 = 0x976fc893c3aa34e9" by (simp_all add: ex_hash_def)
  then show ?thesis by (simp only: distinct.simps) simp
qed

lemma shifted_hits:
  assumes "distinct [a, b, c, d, e]"
  shows "shift_matches [a, b, c, d] [b, c, d, e] 4 0 = 0" "shift_matches [a, b, c, d] [b, c, d, e] 4 1 = 3"
    "shift_matches [a, b, c, d] [b, c, d, e] 4 (-1) = 0"
  using assms by (auto simp: shift_matches_def upt4 nth4)

lemmas ex_hits = shifted_hits [OF ex_hash_distinct]

lemma ex_search: "search_shift (shift_matches [ex_hash 1, ex_hash 2, ex_hash 3, ex_hash 4] [ex_hash 2, ex_hash 3, ex_hash 4, ex_hash 5] 4) 4 [1, 2, 3]
   (0, shift_matches [ex_hash 1, ex_hash 2, ex_hash 3, ex_hash 4] [ex_hash 2, ex_hash 3, ex_hash 4, ex_hash 5] 4 0) = (1, 3)"
  unfolding search_shift.simps better_shift_def using ex_hits by simp

lemma ex_order: "rfold (\<lambda>(a, b). swap_at a b) (for_each_swap 4 1) [0, Suc 0, 2, 3] = Inr [Suc 0, 2, 3, 0]"
  by (simp add: for_each_swap_def wsub64_def upt4 swap_at_def nth4)

lemma ex_height: "sr_height ex_rect = 4" by (simp add: ex_rect_def)

lemma ex_cell_inj: "ex_cell a = ex_cell b \<longleftrightarrow> a = b" by (simp add: ex_cell_def)

lemma ex_residual: "residual_spans ex_rect 0 [([ex_cell 2], [ex_cell 2]), ([ex_cell 3], [ex_cell 3]), ([ex_cell 4], [ex_cell 4]), ([ex_cell (Suc 0)], [ex_cell 5])] = Inr [ex_row 3 5]"
  by (simp add: ex_rect_def ex_row_def wadd16_def ex_cell_inj)

lemma ex_pane_scroll: "pane_scroll ex_frame ex_rect ex_rows = Inr (Some (1, [ex_row 3 5]))"
  unfolding pane_scroll_def Let_def ex_previous rthen_simps ex_views ex_patched
  unfolding ex_height upt4
  by (simp add: row_view_hash_def ex_view_cells ex_row_hash ex_search [simplified] i16_try_from_def ex_order
      ex_residual nth4) (simp add: ex_row_def ex_rect_def ex_cell_inj)

lemma ex_message: "\<exists>msg. scroll_message ex_lib ex_prev (ex_patch ex_rows) = Inr (Some msg)"
proof -
  have "scroll_fits \<lparr>sc_rect = ex_rect, sc_shift = 1\<rparr> 1 4"
    by (simp add: scroll_fits_def ex_rect_def checked_add_def u16_max_def)
  then have col: "collect_scrolls ex_prev (ex_patch ex_rows) [ex_pane] [] [] = Inr ([\<lparr>sc_rect = ex_rect, sc_shift = 1\<rparr>], [ex_row 3 5])"
    using ex_pane_scroll by (simp add: ex_prev_def ex_pane_def ex_patch_def ex_frame_def [symmetric] Let_def MAX_SCROLLS_def) (simp add: ex_frame_def)
  have "filter (\<lambda>row. \<not> fully_inside row ex_rect) ex_rows = []"
    by (simp add: ex_rows_def ex_row_def fully_inside_def ex_rect_def)
  then show ?thesis using col
    by (simp add: scroll_message_def ex_prev_def ex_frame_def ex_patch_def Let_def ex_lib_def write_message_def u32_max_def scroll_bytes_def MAX_FRAME_SIZE_def)
qed

subsection \<open>Properties\<close>

text \<open>
  C10. A scroll message means exactly the patch it replaces: the receiver decodes it, its grid
  becomes what the patch would have made of it, and the ordinary patch it hands on has the
  same effect, disjoint rows, and every other field of the original.
\<close>

theorem scroll_message_equals_patch:
  assumes "scroll_lib_ok lib" and "fd_width (pf_frame prev) \<le> u16_max"
    and "scroll_message lib prev patch = Inr (Some msg)"
    and "rows_disjoint (sq_rows patch)"
    and "list_all (row_inside (fd_width (pf_frame prev)) (fd_height (pf_frame prev))) (sq_rows patch)"
    and "sorted_wrt (\<lambda>a b. \<not> rects_overlap a b) (map sp_inner_rect (sq_panes patch))"
  shows "\<exists>data sp cells patch'. msg = MsgEndpointControl SCROLL_KIND data \<and> scroll_decode lib data = Inr sp \<and>
    scroll_apply (fd_cells (pf_frame prev)) (fd_width (pf_frame prev)) (fd_height (pf_frame prev)) sp = (cells, Inr patch') \<and>
    apply_rows (fd_cells (pf_frame prev)) (fd_width (pf_frame prev)) (sq_rows patch) = Inr cells \<and>
    apply_rows (fd_cells (pf_frame prev)) (fd_width (pf_frame prev)) (sq_rows patch') = Inr cells \<and>
    rows_disjoint (sq_rows patch') \<and> patch'\<lparr>sq_rows := sq_rows patch\<rparr> = patch"
proof -
  have inside: "\<forall>r\<in>set (sq_rows patch). row_inside (fd_width (pf_frame prev)) (fd_height (pf_frame prev)) r"
    using assms(5) by (simp add: list_all_iff)
  show ?thesis
  proof (rule scroll_message_Some [OF assms(1-4) inside assms(6)])
    fix data sp c patch'
    assume *: "msg = MsgEndpointControl SCROLL_KIND data" "scroll_decode lib data = Inr sp"
      "scroll_apply (fd_cells (pf_frame prev)) (fd_width (pf_frame prev)) (fd_height (pf_frame prev)) sp = (c, Inr patch')"
      "apply_rows (fd_cells (pf_frame prev)) (fd_width (pf_frame prev)) (sq_rows patch) = Inr c"
      "rows_disjoint (sq_rows patch')" "patch'\<lparr>sq_rows := sq_rows patch\<rparr> = patch"
      "length (fd_cells (pf_frame prev)) = fd_width (pf_frame prev) * fd_height (pf_frame prev)"
    from scroll_apply_expands [OF *(7) assms(2) *(3)] * show ?thesis by blast
  qed
qed

theorem scroll_message_equals_patch_witness:
  "\<exists>msg data sp cells patch'. scroll_message ex_lib ex_prev (ex_patch ex_rows) = Inr (Some msg) \<and>
    msg = MsgEndpointControl SCROLL_KIND data \<and> scroll_decode ex_lib data = Inr sp \<and>
    scroll_apply (map ex_cell [1, 2, 3, 4]) 1 4 sp = (cells, Inr patch') \<and>
    apply_rows (map ex_cell [1, 2, 3, 4]) 1 ex_rows = Inr cells"
proof -
  obtain msg where msg: "scroll_message ex_lib ex_prev (ex_patch ex_rows) = Inr (Some msg)" using ex_message by blast
  have f: "fd_width (pf_frame ex_prev) = 1" "fd_height (pf_frame ex_prev) = 4" "fd_cells (pf_frame ex_prev) = map ex_cell [1, 2, 3, 4]"
    "sq_rows (ex_patch ex_rows) = ex_rows" "sq_panes (ex_patch ex_rows) = [ex_pane]"
    by (simp_all add: ex_prev_def ex_frame_def ex_patch_def)
  have "rows_disjoint ex_rows" "list_all (row_inside 1 4) ex_rows"
    by (simp_all add: ex_rows_def ex_row_def rows_apart_def row_inside_def)
  then show ?thesis
    using scroll_message_equals_patch [OF ex_lib_ok _ msg, unfolded f] msg by (auto simp: u16_max_def)
qed

text \<open>
  C11. Whatever a decoded scroll message holds, applying it to a grid either succeeds, and then
  the expanded patch it returns rebuilds the new grid from the old one, or is refused with
  the grid as it was; no index is ever out of range.
\<close>

theorem scroll_apply_expands_or_refuses:
  assumes "width \<le> u16_max"
  shows "(\<exists>cells' patch. scroll_apply cells width height sp = (cells', Inr patch) \<and>
      length cells' = length cells \<and> apply_rows cells width (sq_rows patch) = Inr cells') \<or>
    (\<exists>e. scroll_apply cells width height sp = (cells, Inl (Err e)))"
proof (cases "length cells = width * height")
  case True
  from scroll_apply_total [OF assms, of cells height sp] show ?thesis
    using scroll_apply_expands [OF True assms] True by fastforce
next
  case False
  then show ?thesis by (simp add: scroll_apply_def Let_def)
qed

theorem scroll_apply_expands_or_refuses_witness:
  "\<exists>e. scroll_apply [ex_cell 1, ex_cell 2] 1 2 \<lparr>xp_scrolls = [\<lparr>sc_rect = ex_rect, sc_shift = 1\<rparr>], xp_patch = ex_patch []\<rparr>
     = ([ex_cell 1, ex_cell 2], Inl (Err e))"
proof -
  let ?sp = "\<lparr>xp_scrolls = [\<lparr>sc_rect = ex_rect, sc_shift = 1\<rparr>], xp_patch = ex_patch []\<rparr>"
  have "\<not> scroll_fits \<lparr>sc_rect = ex_rect, sc_shift = 1\<rparr> 1 2" by (simp add: scroll_fits_def ex_rect_def checked_add_def)
  then have "\<forall>p. snd (scroll_apply [ex_cell 1, ex_cell 2] 1 2 ?sp) \<noteq> Inr p" by (simp add: scroll_apply_def)
  with scroll_apply_expands_or_refuses [of 1 "[ex_cell 1, ex_cell 2]" 2 ?sp] show ?thesis
    by (auto simp: u16_max_def)
qed

text \<open>
  A scroll moves the content of its region by the shift: each row whose source row lies in the
  region shows that row, and cells outside the region keep their content.
\<close>

theorem scroll_moves_rows:
  assumes "scroll_fits s width height" and "length cells = width * height"
  shows "\<exists>cells'. apply_scroll width s cells = Inr cells' \<and> length cells' = length cells \<and>
    (\<forall>x y. x < width \<and> y < height \<and> \<not> in_rect (sc_rect s) x y \<longrightarrow> cells' ! (y * width + x) = cells ! (y * width + x)) \<and>
    (\<forall>x y v. in_rect (sc_rect s) x y \<and> in_rect (sc_rect s) x v \<and> int v = int y + sc_shift s \<longrightarrow>
       cells' ! (y * width + x) = cells ! (v * width + x))"
proof -
  let ?r = "sc_rect s"
  note d = scroll_fitsD [OF assms(1)]
  obtain c where c: "apply_scroll width s cells = Inr c" "length c = width * height"
    and val: "\<And>x y. x < width \<Longrightarrow> y < height \<Longrightarrow> c ! (y * width + x) =
       (if in_rect ?r x y then cells ! ((sr_y ?r + scroll_source s (y - sr_y ?r)) * width + x) else cells ! (y * width + x))"
    using apply_scroll_grid [OF assms] by blast
  have "c ! (y * width + x) = cells ! (v * width + x)"
    if v: "in_rect ?r x y" "in_rect ?r x v" "int v = int y + sc_shift s" for x y v
  proof -
    have "int (scroll_source s (y - sr_y ?r)) = int (y - sr_y ?r) + sc_shift s"
      using d v by (intro scroll_source_moves) (auto simp: in_rect_def)
    then have "sr_y ?r + scroll_source s (y - sr_y ?r) = v" using v by (auto simp: in_rect_def)
    with val [of x y] in_rect_grid [OF assms(1) v(1)] v(1) show ?thesis by simp
  qed
  with c val assms(2) show ?thesis by auto
qed

theorem scroll_moves_rows_witness:
  "\<exists>cells'. apply_scroll 1 \<lparr>sc_rect = ex_rect, sc_shift = 1\<rparr> (map ex_cell [1, 2, 3, 4]) = Inr cells' \<and>
     cells' ! 0 = ex_cell 2 \<and> cells' ! 2 = ex_cell 4"
proof -
  have fits: "scroll_fits \<lparr>sc_rect = ex_rect, sc_shift = 1\<rparr> 1 4"
    by (simp add: scroll_fits_def ex_rect_def checked_add_def u16_max_def)
  have "length (map ex_cell [1, 2, 3, 4]) = 1 * 4" by simp
  from scroll_moves_rows [OF fits this] obtain c where c: "apply_scroll 1 \<lparr>sc_rect = ex_rect, sc_shift = 1\<rparr> (map ex_cell [1, 2, 3, 4]) = Inr c"
    and m: "\<And>x y v. in_rect ex_rect x y \<and> in_rect ex_rect x v \<and> int v = int y + 1 \<Longrightarrow> c ! (y * 1 + x) = map ex_cell [1, 2, 3, 4] ! (v * 1 + x)"
    by auto
  from m [of 0 0 1] m [of 0 2 3] c show ?thesis by (simp add: in_rect_def ex_rect_def nth_Cons_numeral)
qed

end
