(* ===== verification/TokenWire.thy ===== *)
theory TokenWire
  imports SurfaceDelta "HOL-Library.Countable"
begin

section \<open>A codec that satisfies the laws\<close>

text \<open>
  A concrete binary codec for the delta messages, used to instantiate the codec parameter.
  A stream is a list of tokens, one per written value.  One chosen stream has the text
  \<open>''a''\<close>, and every other stream is numbered and written as that many letters, so that the text of
  a small message is short while different streams have different texts.
\<close>

instance cell_data_ext :: (countable) countable
  by (rule countable_classI [of "\<lambda>r. to_nat (cd_symbol r, cd_fg r, cd_bg r, cd_modifier r, cd_skip r, cd_hyperlink r, cell_data.more r)"]) simp

instance cursor_state_ext :: (countable) countable
  by (rule countable_classI [of "\<lambda>r. to_nat (cs_x r, cs_y r, cs_visible r, cs_shape r, cursor_state.more r)"]) simp

instance surface_rect_ext :: (countable) countable
  by (rule countable_classI [of "\<lambda>r. to_nat (sr_x r, sr_y r, sr_width r, sr_height r, surface_rect.more r)"]) simp

instance scroll_metrics_ext :: (countable) countable
  by (rule countable_classI [of "\<lambda>r. to_nat (sm_offset_from_bottom r, sm_max_offset_from_bottom r, sm_viewport_rows r, scroll_metrics.more r)"]) simp

instance surface_pane_ext :: (countable) countable
  by (rule countable_classI [of "\<lambda>r. to_nat (sp_pane_id r, sp_content_revision r, sp_rect r, sp_inner_rect r, sp_scrollbar_rect r,
    sp_scroll r, sp_focused r, sp_mouse_reporting r, sp_sgr_pixel_mouse r, sp_alternate_screen_active r, sp_pixel_width r,
    sp_pixel_height r, surface_pane.more r)"]) simp

instance split_direction :: countable
  by countable_datatype

instance graphics_target :: countable
  by countable_datatype

instance graphics_source :: countable
  by countable_datatype

instance graphics_format :: countable
  by countable_datatype

instance popup_size :: countable
  by countable_datatype

instance asset_key_ext :: (countable) countable
  by (rule countable_classI [of "\<lambda>r. to_nat (ak_source r, ak_image_width r, ak_image_height r, ak_format r, ak_data_len r,
    ak_data_fingerprint r, asset_key.more r)"]) simp

instance graphics_placement_ext :: (countable) countable
  by (rule countable_classI [of "\<lambda>r. to_nat (gp_asset r, gp_logical_placement_id r, gp_x r, gp_y r, gp_cols r, gp_rows r, gp_source_x r,
    gp_source_y r, gp_source_width r, gp_source_height r, gp_x_offset r, gp_y_offset r, gp_z r, gp_scrollback_offset r,
    graphics_placement.more r)"]) simp

datatype token =
    TokNat nat
  | TokBool bool
  | TokString string
  | TokBytes "nat list"
  | TokCell cell_data
  | TokCursor "cursor_state option"
  | TokPane surface_pane
  | TokRect surface_rect
  | TokDirection split_direction
  | TokPopupSize "popup_size option"
  | TokAssetKey asset_key
  | TokPlacement graphics_placement

instance token :: countable
  by countable_datatype

definition next_token :: "(token \<Rightarrow> 'a option) \<Rightarrow> (token list, 'a) reader" where
  "next_token f s = (case s of [] \<Rightarrow> Inl (Err ''end of stream'')
     | t # ts \<Rightarrow> (case f t of None \<Rightarrow> Inl (Err ''unexpected token'') | Some x \<Rightarrow> Inr (x, ts)))"

definition nat_token :: "(token list, nat) reader" where
  "nat_token = next_token (\<lambda>t. case t of TokNat n \<Rightarrow> Some n | _ \<Rightarrow> None)"

definition token_text :: "token list \<Rightarrow> token list \<Rightarrow> string" where
  "token_text short b = (if b = short then ''a'' else replicate (2 + to_nat b) CHR ''x'')"

definition token_untext :: "token list \<Rightarrow> string \<Rightarrow> token list" where
  "token_untext short text = (if text = ''a'' then short else from_nat (length text - 2))"

definition token_wire :: "token list \<Rightarrow> (token list) wire" where
  "token_wire short = \<lparr>
     get_u8 = nat_token, get_u16 = nat_token, get_u32 = nat_token, get_u64 = nat_token,
     get_bool = next_token (\<lambda>t. case t of TokBool b \<Rightarrow> Some b | _ \<Rightarrow> None),
     get_string = next_token (\<lambda>t. case t of TokString s \<Rightarrow> Some s | _ \<Rightarrow> None),
     get_bytes = (\<lambda>n. next_token (\<lambda>t. case t of TokBytes b \<Rightarrow> if length b = n then Some b else None | _ \<Rightarrow> None)),
     get_cell = next_token (\<lambda>t. case t of TokCell c \<Rightarrow> Some c | _ \<Rightarrow> None),
     get_cursor = next_token (\<lambda>t. case t of TokCursor c \<Rightarrow> Some c | _ \<Rightarrow> None),
     get_pane = next_token (\<lambda>t. case t of TokPane p \<Rightarrow> Some p | _ \<Rightarrow> None),
     get_rect = next_token (\<lambda>t. case t of TokRect r \<Rightarrow> Some r | _ \<Rightarrow> None),
     get_direction = next_token (\<lambda>t. case t of TokDirection d \<Rightarrow> Some d | _ \<Rightarrow> None),
     get_popup_size = next_token (\<lambda>t. case t of TokPopupSize s \<Rightarrow> Some s | _ \<Rightarrow> None),
     get_asset_key = next_token (\<lambda>t. case t of TokAssetKey k \<Rightarrow> Some k | _ \<Rightarrow> None),
     get_placement = next_token (\<lambda>t. case t of TokPlacement p \<Rightarrow> Some p | _ \<Rightarrow> None),
     put_u8 = (\<lambda>n s. TokNat n # s), put_u16 = (\<lambda>n s. TokNat n # s), put_u32 = (\<lambda>n s. TokNat n # s),
     put_u64 = (\<lambda>n s. TokNat n # s), put_bool = (\<lambda>b s. TokBool b # s), put_string = (\<lambda>t s. TokString t # s),
     put_bytes = (\<lambda>b s. TokBytes b # s), put_cell = (\<lambda>c s. TokCell c # s), put_cursor = (\<lambda>c s. TokCursor c # s),
     put_pane = (\<lambda>p s. TokPane p # s), put_rect = (\<lambda>r s. TokRect r # s), put_direction = (\<lambda>d s. TokDirection d # s),
     put_popup_size = (\<lambda>z s. TokPopupSize z # s), put_asset_key = (\<lambda>k s. TokAssetKey k # s),
     put_placement = (\<lambda>p s. TokPlacement p # s),
     stream_end = [], at_end = (\<lambda>s. s = []), stream_len = (\<lambda>s. length (token_text short s)),
     b64_encode = token_text short, b64_decode = (\<lambda>t. Inr (token_untext short t)), b64_len = Some,
     size_span = (\<lambda>r. Inr 1), size_message = (\<lambda>m. case m of MsgPaneSurface _ \<Rightarrow> Inr 10 | _ \<Rightarrow> Inr 1)\<rparr>"

lemma token_text_back: "token_untext short (token_text short b) = b"
proof (cases "b = short")
  case False
  have "replicate (2 + to_nat b) CHR ''x'' \<noteq> ''a''" by simp
  with False show ?thesis by (simp add: token_text_def token_untext_def)
qed (simp add: token_text_def token_untext_def)

lemma token_wire_ok: "wire_ok (token_wire short)"
  by (simp add: wire_ok_def token_wire_def next_token_def nat_token_def token_text_back)

text \<open>What the writer produces does not depend on the chosen stream.\<close>

lemma token_puts:
  "put_u8 (token_wire short) = (\<lambda>n s. TokNat n # s)" "put_u16 (token_wire short) = (\<lambda>n s. TokNat n # s)"
  "put_u32 (token_wire short) = (\<lambda>n s. TokNat n # s)" "put_u64 (token_wire short) = (\<lambda>n s. TokNat n # s)"
  "put_bool (token_wire short) = (\<lambda>b s. TokBool b # s)" "put_string (token_wire short) = (\<lambda>t s. TokString t # s)"
  "put_bytes (token_wire short) = (\<lambda>b s. TokBytes b # s)" "put_cell (token_wire short) = (\<lambda>c s. TokCell c # s)"
  "put_cursor (token_wire short) = (\<lambda>c s. TokCursor c # s)" "put_pane (token_wire short) = (\<lambda>p s. TokPane p # s)"
  "put_rect (token_wire short) = (\<lambda>r s. TokRect r # s)" "put_direction (token_wire short) = (\<lambda>d s. TokDirection d # s)"
  "put_popup_size (token_wire short) = (\<lambda>z s. TokPopupSize z # s)" "put_asset_key (token_wire short) = (\<lambda>k s. TokAssetKey k # s)"
  "put_placement (token_wire short) = (\<lambda>p s. TokPlacement p # s)"
  by (simp_all add: token_wire_def)

lemma put_delta_token: "put_delta (token_wire a) d s = put_delta (token_wire b) d s"
  unfolding put_delta_def put_surface_def put_frame_def put_list_def put_bytes_vec_def put_split_def put_popup_def
    put_asset_def put_scene_def put_row_def put_popup_update_def token_puts by (rule refl)

end
