(* ===== verification/SurfaceReuse.thy ===== *)
theory SurfaceReuse
  imports SurfaceScroll TokenWire
begin

section \<open>The connection's surface decoder\<close>

text \<open>
  The model of \<open>src/src/protocol/surface_reuse.rs\<close>: the reuse message, which carries a
  surface without its cells, and the \<open>Decoder\<close> that keeps a connection's last grid and
  popup and turns delta, scroll and reuse messages back into ordinary ones.  JSON and the
  size of an encoded message are library functions, the fields of \<open>reuse_lib\<close>; the delta
  and scroll codecs are those of \<open>SurfaceDelta\<close> and \<open>SurfaceScroll\<close>.  A method of the
  decoder returns its new state with its result.
\<close>

record reuse_lib =
  rl_to_string :: "u64 \<Rightarrow> pane_surface \<Rightarrow> string + string"
  rl_from_str :: "string \<Rightarrow> string + u64 \<times> pane_surface"
  rl_size :: "server_message \<Rightarrow> string + nat"

definition REUSE_KIND :: string where
  "REUSE_KIND = ''endpoint.surface-reuse.v1''"

text \<open>The cells are moved out of the surface while it is serialized and put back before
  the function returns, so the caller's surface is unchanged.\<close>

definition reuse_message :: "reuse_lib \<Rightarrow> u64 \<Rightarrow> pane_surface \<Rightarrow> string + server_message option" where
  "reuse_message lib base_surface_revision surface =
     (case rl_to_string lib base_surface_revision (surface\<lparr>pf_frame := (pf_frame surface)\<lparr>fd_cells := []\<rparr>\<rparr>) of
        Inl e \<Rightarrow> Inl e
      | Inr data \<Rightarrow>
          let message = MsgEndpointControl REUSE_KIND data in
          Inr (case rl_size lib message of
                 Inr n \<Rightarrow> if n \<le> MAX_FRAME_SIZE then Some message else None
               | Inl e \<Rightarrow> None))"

record popup_base =
  pb_terminal_id :: string
  pb_width :: u16
  pb_height :: u16
  pb_cells :: "cell_data list"

record cell_baseline =
  cb_boot_id :: string
  cb_projection_revision :: u64
  cb_surface_revision :: u64
  cb_width :: u16
  cb_height :: u16
  cb_cells :: "cell_data list"
  cb_popup :: "popup_base option"

definition cell_baseline_default :: cell_baseline where
  "cell_baseline_default = \<lparr>cb_boot_id = [], cb_projection_revision = 0, cb_surface_revision = 0,
     cb_width = 0, cb_height = 0, cb_cells = [], cb_popup = None\<rparr>"

definition matches_patch :: "cell_baseline \<Rightarrow> surface_patch \<Rightarrow> bool" where
  "matches_patch base patch \<longleftrightarrow>
     sq_boot_id patch = cb_boot_id base \<and> sq_projection_revision patch = cb_projection_revision base \<and>
     sq_base_surface_revision patch = cb_surface_revision base \<and>
     sq_surface_revision patch = sat_add u64_max (cb_surface_revision base) 1"

definition popup_baseline :: "pane_surface \<Rightarrow> popup_base option" where
  "popup_baseline surface =
     map_option (\<lambda>popup. \<lparr>pb_terminal_id = ps_terminal_id popup, pb_width = fd_width (ps_frame popup),
       pb_height = fd_height (ps_frame popup), pb_cells = fd_cells (ps_frame popup)\<rparr>) (pf_popup surface)"

record surface_decoder =
  de_baseline :: "cell_baseline option"
  de_surface_delta :: bool
  de_surface_scroll :: bool

definition decoder_new :: "bool \<Rightarrow> bool \<Rightarrow> surface_decoder" where
  "decoder_new surface_delta surface_scroll =
     \<lparr>de_baseline = None, de_surface_delta = surface_delta, de_surface_scroll = surface_scroll\<rparr>"

subsection \<open>Delta and scroll messages\<close>

definition decode_scroll :: "scroll_lib \<Rightarrow> surface_decoder \<Rightarrow> string \<Rightarrow> surface_decoder \<times> surface_patch result" where
  "decode_scroll sl d data =
     (case de_baseline d of
        None \<Rightarrow> (d, Inl (Err ''surface scroll without a baseline''))
      | Some base \<Rightarrow>
          (case scroll_decode sl data of
             Inl e \<Rightarrow> (d, Inl e)
           | Inr scroll \<Rightarrow>
               if \<not> matches_patch base (xp_patch scroll)
               then (d, Inl (Err ''surface scroll does not match its baseline''))
               else
                 let (cells, r) = scroll_apply (cb_cells base) (cb_width base) (cb_height base) scroll in
                 case r of
                   Inl e \<Rightarrow> (d\<lparr>de_baseline := Some (base\<lparr>cb_cells := cells\<rparr>)\<rparr>, Inl e)
                 | Inr patch \<Rightarrow>
                     (d\<lparr>de_baseline := Some (base\<lparr>cb_cells := cells, cb_surface_revision := sq_surface_revision patch\<rparr>)\<rparr>,
                      Inr patch)))"

definition links_in_table :: "frame_data \<Rightarrow> bool" where
  "links_in_table frame \<longleftrightarrow>
     \<not> list_ex (\<lambda>cell. case cd_hyperlink cell of None \<Rightarrow> False | Some index \<Rightarrow> length (fd_hyperlinks frame) \<le> index)
         (fd_cells frame)"

text \<open>The popup of a decoded delta with its cells filled in.\<close>

definition delta_popup ::
    "cell_baseline \<Rightarrow> popup_surface option \<Rightarrow> grid_update option \<Rightarrow> popup_surface option result" where
  "delta_popup base popup update =
     (case (popup, update) of
        (None, None) \<Rightarrow> Inr None
      | (Some popup, Some update) \<Rightarrow>
          let count = fd_width (ps_frame popup) * fd_height (ps_frame popup) in
          (case update of
             GridReplace cells \<Rightarrow> Inr (Some (popup\<lparr>ps_frame := (ps_frame popup)\<lparr>fd_cells := cells\<rparr>\<rparr>))
           | GridPatch rows \<Rightarrow>
               (case (case cb_popup base of
                        None \<Rightarrow> None
                      | Some previous \<Rightarrow>
                          if pb_terminal_id previous = ps_terminal_id popup \<and>
                             pb_width previous = fd_width (ps_frame popup) \<and>
                             pb_height previous = fd_height (ps_frame popup) \<and> length (pb_cells previous) = count
                          then Some previous else None) of
                  None \<Rightarrow> Inl (Err ''popup delta does not match its baseline'')
                | Some previous \<Rightarrow>
                    rthen (apply_rows (pb_cells previous) (pb_width previous) rows) (\<lambda>cells.
                      Inr (Some (popup\<lparr>ps_frame := (ps_frame popup)\<lparr>fd_cells := cells\<rparr>\<rparr>)))))
      | _ \<Rightarrow> Inl (Err ''popup delta is missing or unexpected''))"

definition decode_delta :: "'s wire \<Rightarrow> surface_decoder \<Rightarrow> string \<Rightarrow> surface_decoder \<times> pane_surface result" where
  "decode_delta w d data =
     (case de_baseline d of
        None \<Rightarrow> (d, Inl (Err ''surface delta without a baseline''))
      | Some base \<Rightarrow>
          (case rthen (decode_for w data (cb_width base, cb_height base)) (\<lambda>delta.
             let surface = sd_surface delta in
             if pf_boot_id surface \<noteq> cb_boot_id base \<or>
                sd_base_projection_revision delta \<noteq> cb_projection_revision base \<or>
                sd_base_surface_revision delta \<noteq> cb_surface_revision base \<or>
                pf_surface_revision surface \<noteq> sat_add u64_max (cb_surface_revision base) 1 \<or>
                pf_projection_revision surface < cb_projection_revision base \<or>
                length (cb_cells base) \<noteq> cb_width base * cb_height base
             then Inl (Err ''surface delta does not match its baseline'')
             else rthen (apply_rows (cb_cells base) (cb_width base) (sd_rows delta)) (\<lambda>cells.
               rthen (delta_popup base (pf_popup surface) (sd_popup_cells delta)) (\<lambda>popup.
                 let surface = surface\<lparr>pf_frame := (pf_frame surface)\<lparr>fd_cells := cells\<rparr>, pf_popup := popup\<rparr> in
                 if \<not> links_in_table (pf_frame surface) \<or>
                    (case pf_popup surface of None \<Rightarrow> False | Some p \<Rightarrow> \<not> links_in_table (ps_frame p))
                 then Inl (Err ''surface delta has an invalid hyperlink index'')
                 else rthen (apply_rows (cb_cells base) (cb_width base) (sd_rows delta)) (\<lambda>base_cells.
                   Inr (surface, base\<lparr>cb_cells := base_cells, cb_popup := popup_baseline surface,
                          cb_projection_revision := pf_projection_revision surface,
                          cb_surface_revision := pf_surface_revision surface\<rparr>))))) of
             Inl e \<Rightarrow> (d, Inl e)
           | Inr (surface, base) \<Rightarrow> (d\<lparr>de_baseline := Some base\<rparr>, Inr surface)))"

subsection \<open>Every message of the connection\<close>

definition decode_reuse :: "reuse_lib \<Rightarrow> surface_decoder \<Rightarrow> string \<Rightarrow> surface_decoder \<times> server_message result" where
  "decode_reuse rl d data =
     (case rl_from_str rl data of
        Inl e \<Rightarrow> (d, Inl (Err (''invalid surface reuse: '' @ e)))
      | Inr (base_surface_revision, surface) \<Rightarrow>
          (case de_baseline d of
             None \<Rightarrow> (d, Inl (Err ''surface reuse without a baseline''))
           | Some base \<Rightarrow>
               if cb_boot_id base \<noteq> pf_boot_id surface \<or>
                  cb_surface_revision base \<noteq> base_surface_revision \<or>
                  pf_surface_revision surface \<noteq> sat_add u64_max (cb_surface_revision base) 1 \<or>
                  cb_width base \<noteq> fd_width (pf_frame surface) \<or> cb_height base \<noteq> fd_height (pf_frame surface) \<or>
                  fd_cells (pf_frame surface) \<noteq> []
               then (d, Inl (Err ''surface reuse does not match its baseline''))
               else
                 let surface = surface\<lparr>pf_frame := (pf_frame surface)\<lparr>fd_cells := cb_cells base\<rparr>\<rparr>;
                     base = base\<lparr>cb_projection_revision := pf_projection_revision surface,
                                 cb_surface_revision := pf_surface_revision surface\<rparr>;
                     base = (if de_surface_delta d then base\<lparr>cb_popup := popup_baseline surface\<rparr> else base)
                 in (d\<lparr>de_baseline := Some base\<rparr>, Inr (MsgPaneSurface surface))))"

text \<open>The rows of an ordinary patch: an out-of-range row ends the loop with the rows before
  it already written.\<close>

fun patch_rows :: "cell_baseline \<Rightarrow> patch_row list \<Rightarrow> cell_baseline \<times> unit result" where
  "patch_rows base [] = (base, Inr ())"
| "patch_rows base (row # rows) =
     (let start = pr_y row * cb_width base + pr_x row;
          stop = sat_add u64_max start (length (pr_cells row)) in
      if cb_height base \<le> pr_y row \<or> cb_width base < pr_x row + length (pr_cells row) \<or> length (cb_cells base) < stop
      then (base, Inl (Err ''surface patch exceeds the cell baseline''))
      else case write_slice (cb_cells base) start (pr_cells row) of
             Inl e \<Rightarrow> (base, Inl e)
           | Inr cells \<Rightarrow> patch_rows (base\<lparr>cb_cells := cells\<rparr>) rows)"

definition decode_ordinary :: "surface_decoder \<Rightarrow> server_message \<Rightarrow> surface_decoder \<times> server_message result" where
  "decode_ordinary d message =
     (case message of
        MsgPaneSurface surface \<Rightarrow>
          let base = (case de_baseline d of None \<Rightarrow> cell_baseline_default | Some base \<Rightarrow> base);
              base = base\<lparr>cb_boot_id := pf_boot_id surface, cb_projection_revision := pf_projection_revision surface,
                          cb_surface_revision := pf_surface_revision surface, cb_width := fd_width (pf_frame surface),
                          cb_height := fd_height (pf_frame surface), cb_cells := fd_cells (pf_frame surface)\<rparr>;
              base = (if de_surface_delta d then base\<lparr>cb_popup := popup_baseline surface\<rparr> else base)
          in (d\<lparr>de_baseline := Some base\<rparr>, Inr message)
      | MsgPaneSurfacePatch patch \<Rightarrow>
          (case de_baseline d of
             None \<Rightarrow> (d, Inr message)
           | Some base \<Rightarrow>
               if \<not> matches_patch base patch then (d\<lparr>de_baseline := None\<rparr>, Inr message)
               else case patch_rows base (sq_rows patch) of
                      (base, Inl e) \<Rightarrow> (d\<lparr>de_baseline := Some base\<rparr>, Inl e)
                    | (base, Inr _) \<Rightarrow>
                        (d\<lparr>de_baseline := Some (base\<lparr>cb_surface_revision := sq_surface_revision patch\<rparr>)\<rparr>, Inr message))
      | _ \<Rightarrow> (d, Inr message))"

definition surface_decode ::
    "'s wire \<Rightarrow> scroll_lib \<Rightarrow> reuse_lib \<Rightarrow> surface_decoder \<Rightarrow> server_message \<Rightarrow> surface_decoder \<times> server_message result" where
  "surface_decode w sl rl d message =
     (case message of
        MsgEndpointControl kind data \<Rightarrow>
          if kind = DELTA_KIND then
            (if \<not> de_surface_delta d then (d, Inl (Err ''surface delta was not negotiated''))
             else case decode_delta w d data of (d, r) \<Rightarrow> (d, rthen r (\<lambda>s. Inr (MsgPaneSurface s))))
          else if kind = SCROLL_KIND then
            (if \<not> de_surface_scroll d then (d, Inl (Err ''surface scroll was not negotiated''))
             else case decode_scroll sl d data of (d, r) \<Rightarrow> (d, rthen r (\<lambda>p. Inr (MsgPaneSurfacePatch p))))
          else if kind = REUSE_KIND then decode_reuse rl d data
          else decode_ordinary d message
      | _ \<Rightarrow> decode_ordinary d message)"

section \<open>Facts about the decoder\<close>

subsection \<open>Decoding never panics\<close>

text \<open>A reader that fails only with an error value, and a codec made of such readers.\<close>

named_theorems calm_intros \<open>readers and results that never panic\<close>

definition calm :: "('s, 'a) reader \<Rightarrow> bool" where
  "calm r \<longleftrightarrow> (\<forall>s. r s \<noteq> Inl Panic)"

definition wire_calm :: "'s wire \<Rightarrow> bool" where
  "wire_calm w \<longleftrightarrow>
     calm (get_u8 w) \<and> calm (get_u16 w) \<and> calm (get_u32 w) \<and> calm (get_u64 w) \<and> calm (get_bool w) \<and>
     calm (get_string w) \<and> (\<forall>n. calm (get_bytes w n)) \<and> calm (get_cell w) \<and> calm (get_cursor w) \<and>
     calm (get_pane w) \<and> calm (get_rect w) \<and> calm (get_direction w) \<and> calm (get_popup_size w) \<and>
     calm (get_asset_key w) \<and> calm (get_placement w) \<and> (\<forall>data. b64_decode w data \<noteq> Inl Panic)"

lemma calm_andThen [calm_intros]: "calm r \<Longrightarrow> (\<And>x. calm (f x)) \<Longrightarrow> calm (andThen r f)"
  by (auto simp: calm_def andThen_def split: sum.splits)

lemma calm_basic [calm_intros]: "calm (give x)" "calm (reject msg)" "calm (grid_size_of width height)"
  by (auto simp: calm_def give_def reject_def grid_size_of_def checked_grid_size_def)

lemma calm_if [calm_intros]: "calm r \<Longrightarrow> calm r' \<Longrightarrow> calm (if b then r else r')"
  by simp

lemma calm_option [calm_intros]: "calm r \<Longrightarrow> (\<And>x. calm (f x)) \<Longrightarrow> calm (case v of None \<Rightarrow> r | Some x \<Rightarrow> f x)"
  by (cases v) simp_all

lemma calm_pair [calm_intros]: "(\<And>x y. calm (f x y)) \<Longrightarrow> calm (case p of (x, y) \<Rightarrow> f x y)"
  by (cases p) simp

lemma calm_let [calm_intros]: "(\<And>x. calm (f x)) \<Longrightarrow> calm (let x = v in f x)"
  by simp

lemma calm_times [calm_intros]: "calm r \<Longrightarrow> calm (times n r)"
  by (induction n) (auto intro: calm_intros)

lemma calm_gets:
  assumes "wire_calm w"
  shows "calm (get_u8 w)" "calm (get_u16 w)" "calm (get_u32 w)" "calm (get_u64 w)" "calm (get_bool w)"
    "calm (get_string w)" "calm (get_bytes w n)" "calm (get_cell w)" "calm (get_cursor w)" "calm (get_pane w)"
    "calm (get_rect w)" "calm (get_direction w)" "calm (get_popup_size w)" "calm (get_asset_key w)" "calm (get_placement w)"
  using assms by (simp_all add: wire_calm_def)

lemma calm_counts:
  assumes "wire_calm w"
  shows "calm (decode_sequence_len w)" "calm (decode_count w cap msg)" "calm (decode_bytes_vec w cap msg)"
    "calm (require_empty_sequence w msg)" "calm r \<Longrightarrow> calm (decode_bounded_vec w r cap msg)"
  unfolding decode_sequence_len_def decode_count_def decode_bytes_vec_def require_empty_sequence_def decode_bounded_vec_def
  by (intro calm_intros calm_gets [OF assms]; assumption)+

lemma calm_frame: "wire_calm w \<Longrightarrow> calm (decode_frame w)"
  unfolding decode_frame_def by (intro calm_intros calm_gets calm_counts)

lemma calm_popup: "wire_calm w \<Longrightarrow> calm (decode_popup w)"
  unfolding decode_popup_def by (intro calm_intros calm_gets calm_frame)

lemma calm_splits: "wire_calm w \<Longrightarrow> calm (decode_splits w)"
  unfolding decode_splits_def decode_split_def by (intro calm_intros calm_gets calm_counts)

lemma calm_scene: "wire_calm w \<Longrightarrow> calm (decode_graphics_scene w)"
  unfolding decode_graphics_scene_def decode_asset_def by (intro calm_intros calm_gets calm_counts)

lemma calm_surface: "wire_calm w \<Longrightarrow> calm (decode_surface w)"
  unfolding decode_surface_def
  by (intro calm_intros calm_gets calm_counts calm_frame calm_splits calm_popup calm_scene)

lemma calm_rows_loop: "wire_calm w \<Longrightarrow> calm (decode_rows_loop w width height budget sofar pe n)"
  by (induction n arbitrary: sofar pe) (auto intro!: calm_intros calm_gets calm_counts)

lemma calm_rows: "wire_calm w \<Longrightarrow> calm (decode_rows w width height)"
  unfolding decode_rows_def by (intro calm_intros calm_counts calm_rows_loop)

lemma calm_popup_update: "wire_calm w \<Longrightarrow> calm (decode_popup_update w popup)"
  unfolding decode_popup_update_def by (intro calm_intros calm_gets calm_counts calm_rows)

lemma calm_delta_fields: "wire_calm w \<Longrightarrow> calm (decode_delta_fields w ctx)"
  unfolding decode_delta_fields_def
  by (intro calm_intros calm_gets calm_surface calm_rows calm_popup_update)

lemma decode_for_calm:
  assumes "wire_calm w"
  shows "decode_for w data e \<noteq> Inl Panic"
proof -
  have "decode_delta_fields w ctx s \<noteq> Inl Panic" for ctx s
    using calm_delta_fields [OF assms, of ctx] by (simp add: calm_def)
  moreover have "b64_decode w data \<noteq> Inl Panic" using assms by (simp add: wire_calm_def)
  ultimately show ?thesis
    by (auto simp: decode_for_def delta_decode_def decode_bytes_with_data_len_def rthen_def split: sum.splits if_splits)
qed

lemma scroll_decode_calm: "scroll_decode sl data \<noteq> Inl Panic"
  by (auto simp: scroll_decode_def Let_def split: sum.splits if_splits list.splits prod.splits server_message.splits)

lemma in_grid_rows_apply:
  assumes "rows_from W H 0 rows" and "length cells = W * H"
  obtains c where "apply_rows cells W rows = Inr c" "length c = W * H"
  using apply_rows_in_grid [of rows W H cells] rows_from_in_grid [OF assms(1)] assms(2) by blast

lemma delta_popup_calm:
  assumes "update_bounded popup u"
  shows "delta_popup base popup u \<noteq> Inl Panic"
proof (cases popup)
  case None
  then show ?thesis by (simp add: delta_popup_def split: option.splits)
next
  case (Some p)
  show ?thesis
  proof (cases u)
    case None
    with Some show ?thesis by (simp add: delta_popup_def)
  next
    case u: (Some upd)
    show ?thesis
    proof (cases upd)
      case (GridPatch rows)
      with Some u assms have "rows_from (fd_width (ps_frame p)) (fd_height (ps_frame p)) 0 rows" by (simp add: update_bounded_def)
      then have "apply_rows cells (fd_width (ps_frame p)) rows \<noteq> Inl Panic"
        if "length cells = fd_width (ps_frame p) * fd_height (ps_frame p)" for cells
        using that by (elim in_grid_rows_apply) auto
      with Some u GridPatch show ?thesis
        by (auto simp: delta_popup_def Let_def rthen_def split: option.splits sum.splits)
    qed (use Some u in \<open>simp add: delta_popup_def\<close>)
  qed
qed

lemma decode_delta_keeps_or_accepts:
  assumes "decode_delta w d data = (d', r)"
  shows "(\<exists>e. r = Inl e) \<Longrightarrow> d' = d" and "wire_calm w \<Longrightarrow> r \<noteq> Inl Panic"
proof -
  show "(\<exists>e. r = Inl e) \<Longrightarrow> d' = d"
    using assms by (auto simp: decode_delta_def split: option.splits sum.splits)
  assume calm: "wire_calm w"
  show "r \<noteq> Inl Panic"
  proof (cases "de_baseline d")
    case None
    with assms show ?thesis by (auto simp: decode_delta_def)
  next
    case (Some base)
    show ?thesis
    proof (cases "decode_for w data (cb_width base, cb_height base)")
      case (Inl e)
      with assms Some decode_for_calm [OF calm] show ?thesis by (auto simp: decode_delta_def)
    next
      case (Inr delta)
      note ok = decode_for_ok [OF Inr]
      show ?thesis
      proof (cases "length (cb_cells base) = cb_width base * cb_height base")
        case True
        have "rows_from (cb_width base) (cb_height base) 0 (sd_rows delta)"
          using ok by (simp add: delta_bounded_def)
        then obtain c where "apply_rows (cb_cells base) (cb_width base) (sd_rows delta) = Inr c"
          using True by (elim in_grid_rows_apply)
        moreover have "delta_popup base (pf_popup (sd_surface delta)) (sd_popup_cells delta) \<noteq> Inl Panic"
          using ok(1) by (intro delta_popup_calm) (simp add: delta_bounded_def)
        ultimately show ?thesis using assms Some Inr
          by (auto simp: decode_delta_def Let_def rthen_def split: sum.splits if_splits)
      qed (use assms Some Inr in \<open>auto simp: decode_delta_def Let_def\<close>)
    qed
  qed
qed

lemma decode_scroll_keeps_or_accepts:
  assumes "decode_scroll sl d data = (d', r)" and "\<forall>base. de_baseline d = Some base \<longrightarrow> cb_width base \<le> u16_max"
  shows "(\<exists>e. r = Inl e) \<Longrightarrow> d' = d" and "r \<noteq> Inl Panic"
proof -
  have "((\<exists>e. r = Inl e) \<longrightarrow> d' = d) \<and> r \<noteq> Inl Panic"
  proof (cases "de_baseline d")
    case None
    with assms(1) show ?thesis by (auto simp: decode_scroll_def)
  next
    case (Some base)
    then have same: "d\<lparr>de_baseline := Some (base\<lparr>cb_cells := cb_cells base\<rparr>)\<rparr> = d" by (cases d) simp
    show ?thesis
    proof (cases "scroll_decode sl data")
      case (Inl e)
      with assms(1) Some scroll_decode_calm [of sl data] show ?thesis by (auto simp: decode_scroll_def)
    next
      case (Inr scroll)
      have "cb_width base \<le> u16_max" using assms(2) Some by simp
      from scroll_apply_total [OF this, of "cb_cells base" "cb_height base" scroll]
      show ?thesis using assms(1) Some Inr same
        by (auto simp: decode_scroll_def split: if_splits)
    qed
  qed
  then show "(\<exists>e. r = Inl e) \<Longrightarrow> d' = d" "r \<noteq> Inl Panic" by auto
qed

lemma decode_reuse_keeps_or_accepts:
  assumes "decode_reuse rl d data = (d', r)"
  shows "(\<exists>e. r = Inl e) \<Longrightarrow> d' = d" and "r \<noteq> Inl Panic"
  using assms by (auto simp: decode_reuse_def Let_def split: sum.splits option.splits if_splits prod.splits)

lemma patch_rows_facts:
  "patch_rows base rows = (base', r) \<Longrightarrow> cb_width base \<le> u16_max \<Longrightarrow> cb_height base \<le> u16_max \<Longrightarrow>
   r \<noteq> Inl Panic \<and> (\<exists>cells. length cells = length (cb_cells base) \<and> base' = base\<lparr>cb_cells := cells\<rparr>)"
proof (induction base rows rule: patch_rows.induct)
  case (1 base)
  then show ?case by (cases base) (auto intro!: exI [of _ "cb_cells base"])
next
  case (2 base row rows)
  let ?start = "pr_y row * cb_width base + pr_x row"
  show ?case
  proof (cases "cb_height base \<le> pr_y row \<or> cb_width base < pr_x row + length (pr_cells row) \<or>
      length (cb_cells base) < sat_add u64_max ?start (length (pr_cells row))")
    case True
    then have "base' = base" "r \<noteq> Inl Panic" using "2.prems"(1) by (auto simp: Let_def)
    then show ?thesis by (cases base) (auto intro!: exI [of _ "cb_cells base"])
  next
    case False
    have "pr_y row * cb_width base \<le> u16_max * u16_max"
      using False "2.prems" by (intro mult_mono) auto
    then have "?start + length (pr_cells row) \<le> u64_max"
      using False "2.prems" by (simp add: u16_max_def u64_max_def)
    then have fit: "?start + length (pr_cells row) \<le> length (cb_cells base)"
      using False by (simp add: sat_add_def min_def split: if_splits)
    then obtain cells where c: "write_slice (cb_cells base) ?start (pr_cells row) = Inr cells"
      by (simp add: write_slice_def)
    then have "patch_rows (base\<lparr>cb_cells := cells\<rparr>) rows = (base', r)" using "2.prems"(1) False by (simp add: Let_def)
    from "2.IH" [OF refl refl False c this] "2.prems" write_slice_length [OF c] show ?thesis by auto
  qed
qed

subsection \<open>What the decoder retains\<close>

text \<open>The decoder holds the grid, identity and revisions of a surface, and its popup when
  deltas were negotiated.\<close>

definition baseline_of :: "pane_surface \<Rightarrow> popup_base option \<Rightarrow> cell_baseline" where
  "baseline_of s popup = \<lparr>cb_boot_id = pf_boot_id s, cb_projection_revision = pf_projection_revision s,
     cb_surface_revision = pf_surface_revision s, cb_width = fd_width (pf_frame s), cb_height = fd_height (pf_frame s),
     cb_cells = fd_cells (pf_frame s), cb_popup = popup\<rparr>"

definition retains :: "surface_decoder \<Rightarrow> pane_surface \<Rightarrow> bool" where
  "retains d s \<longleftrightarrow> (\<exists>popup. de_baseline d = Some (baseline_of s popup) \<and>
     (de_surface_delta d \<longrightarrow> popup = popup_baseline s))"

lemma retainsE:
  assumes "retains d s"
  obtains popup where "de_baseline d = Some (baseline_of s popup)" "de_surface_delta d \<Longrightarrow> popup = popup_baseline s"
  using assms by (auto simp: retains_def)

definition same_modes :: "surface_decoder \<Rightarrow> surface_decoder \<Rightarrow> bool" where
  "same_modes d d' \<longleftrightarrow> de_surface_delta d' = de_surface_delta d \<and> de_surface_scroll d' = de_surface_scroll d"

lemma baseline_overwrite:
  "base\<lparr>cb_boot_id := pf_boot_id s, cb_projection_revision := pf_projection_revision s,
     cb_surface_revision := pf_surface_revision s, cb_width := fd_width (pf_frame s),
     cb_height := fd_height (pf_frame s), cb_cells := fd_cells (pf_frame s)\<rparr> = baseline_of s (cb_popup base)"
  by (cases base) (simp add: baseline_of_def)

lemma decode_full:
  "\<exists>d'. surface_decode w sl rl d (MsgPaneSurface s) = (d', Inr (MsgPaneSurface s)) \<and> retains d' s \<and> same_modes d d'"
  unfolding surface_decode_def decode_ordinary_def Let_def server_message.case baseline_overwrite
  by (auto simp: retains_def same_modes_def baseline_of_def)

definition links_valid :: "pane_surface \<Rightarrow> bool" where
  "links_valid s \<longleftrightarrow> links_in_table (pf_frame s) \<and> (case pf_popup s of None \<Rightarrow> True | Some p \<Rightarrow> links_in_table (ps_frame p))"

lemma delta_popup_rebuilds:
  assumes "popup_cells_ok prev s u" and "cb_popup base = popup_baseline prev" and "metadata_fits s"
  shows "delta_popup base (pf_popup (take_cells s)) u = Inr (pf_popup s)"
proof (cases "pf_popup s")
  case None
  with assms(1) show ?thesis by (simp add: popup_cells_ok_def delta_popup_def take_cells_def)
next
  case (Some p)
  let ?p = "p\<lparr>ps_frame := (ps_frame p)\<lparr>fd_cells := []\<rparr>\<rparr>"
  have len: "length (fd_cells (ps_frame p)) = fd_width (ps_frame p) * fd_height (ps_frame p)"
    using assms(3) Some by (intro frame_metadata_fits_dims(1)) (simp add: metadata_fits_def)
  have restore: "?p\<lparr>ps_frame := (ps_frame ?p)\<lparr>fd_cells := fd_cells (ps_frame p)\<rparr>\<rparr> = p" by simp
  from assms(1) Some consider
      "u = Some (GridReplace (fd_cells (ps_frame p)))"
    | q rows where "u = Some (GridPatch rows)" "pf_popup prev = Some q" "same_popup_grid q p"
        "apply_rows (fd_cells (ps_frame q)) (fd_width (ps_frame p)) rows = Inr (fd_cells (ps_frame p))"
    by (auto simp: popup_cells_ok_def)
  then show ?thesis
  proof cases
    case 1
    then show ?thesis using Some restore by (simp add: delta_popup_def take_cells_def)
  next
    case (2 q rows)
    then show ?thesis using Some restore len assms(2)
      by (simp add: delta_popup_def take_cells_def popup_baseline_def same_popup_grid_def)
  qed
qed

lemma take_cells_fields [simp]:
  "pf_boot_id (take_cells s) = pf_boot_id s" "pf_projection_revision (take_cells s) = pf_projection_revision s"
  "pf_surface_revision (take_cells s) = pf_surface_revision s"
  by (simp_all add: take_cells_def)

lemma take_cells_put_back:
  "(take_cells s)\<lparr>pf_frame := (pf_frame (take_cells s))\<lparr>fd_cells := fd_cells (pf_frame s)\<rparr>, pf_popup := pf_popup s\<rparr> = s"
  "(pf_frame (take_cells s))\<lparr>fd_cells := fd_cells (pf_frame s)\<rparr> = pf_frame s"
  by (simp_all add: take_cells_def)

lemma decode_delta_message:
  assumes w: "wire_ok w" and d: "retains d prev" "de_surface_delta d"
    and m: "delta_message w prev (MsgPaneSurface s) = Inr (Some msg)"
    and rev: "pf_surface_revision s = sat_add u64_max (pf_surface_revision prev) 1"
    and proj: "pf_projection_revision prev \<le> pf_projection_revision s" and links: "links_valid s"
  shows "\<exists>d'. surface_decode w sl rl d msg = (d', Inr (MsgPaneSurface s)) \<and> retains d' s \<and> same_modes d d'"
proof (rule delta_message_Some [OF w m])
  fix data dl
  assume msg: "msg = MsgEndpointControl DELTA_KIND data"
    and dec: "decode_for w data (fd_width (pf_frame s), fd_height (pf_frame s)) = Inr dl" "sd_surface dl = take_cells s"
    and revs: "sd_base_projection_revision dl = pf_projection_revision prev" "sd_base_surface_revision dl = pf_surface_revision prev"
    and rows: "apply_rows (fd_cells (pf_frame prev)) (fd_width (pf_frame s)) (sd_rows dl) = Inr (fd_cells (pf_frame s))"
    and pop: "popup_cells_ok prev s (sd_popup_cells dl)"
    and same: "pf_boot_id prev = pf_boot_id s" "fd_width (pf_frame prev) = fd_width (pf_frame s)"
      "fd_height (pf_frame prev) = fd_height (pf_frame s)"
    and len: "length (fd_cells (pf_frame prev)) = fd_width (pf_frame prev) * fd_height (pf_frame prev)"
    and fits: "metadata_fits s"
  let ?base = "baseline_of prev (popup_baseline prev)"
  have base: "de_baseline d = Some ?base" using d by (auto elim: retainsE)
  have popup: "delta_popup ?base (pf_popup (take_cells s)) (sd_popup_cells dl) = Inr (pf_popup s)"
    by (rule delta_popup_rebuilds [OF pop _ fits]) (simp add: baseline_of_def)
  have ok: "links_in_table (pf_frame s)" "\<not> (case pf_popup s of None \<Rightarrow> False | Some p \<Rightarrow> \<not> links_in_table (ps_frame p))"
    using links by (auto simp: links_valid_def split: option.splits)
  have "decode_delta w d data = (d\<lparr>de_baseline := Some (baseline_of s (popup_baseline s))\<rparr>, Inr s)"
    using base dec revs rows rev proj same len ok popup take_cells_put_back [of s]
    by (simp add: decode_delta_def baseline_of_def Let_def)
  then show ?thesis using d(2)
    by (auto simp: surface_decode_def msg retains_def same_modes_def baseline_of_def)
qed

subsection \<open>Reused grids\<close>

definition reuse_lib_ok :: "reuse_lib \<Rightarrow> bool" where
  "reuse_lib_ok rl \<longleftrightarrow> (\<forall>b s data. rl_to_string rl b s = Inr data \<longrightarrow> rl_from_str rl data = Inr (b, s))"

lemma kinds_differ [simp]:
  "REUSE_KIND \<noteq> DELTA_KIND" "REUSE_KIND \<noteq> SCROLL_KIND" "SCROLL_KIND \<noteq> DELTA_KIND"
  by (simp_all add: REUSE_KIND_def DELTA_KIND_def SCROLL_KIND_def)

lemma decode_reuse_message:
  assumes rl: "reuse_lib_ok rl" and d: "retains d prev"
    and m: "reuse_message rl (pf_surface_revision prev) s = Inr (Some msg)"
    and rev: "pf_surface_revision s = sat_add u64_max (pf_surface_revision prev) 1"
    and same: "pf_boot_id prev = pf_boot_id s" "fd_width (pf_frame prev) = fd_width (pf_frame s)"
      "fd_height (pf_frame prev) = fd_height (pf_frame s)" "fd_cells (pf_frame prev) = fd_cells (pf_frame s)"
  shows "\<exists>d'. surface_decode w sl rl d msg = (d', Inr (MsgPaneSurface s)) \<and> retains d' s \<and> same_modes d d'"
proof -
  let ?bare = "s\<lparr>pf_frame := (pf_frame s)\<lparr>fd_cells := []\<rparr>\<rparr>"
  from m obtain data where data: "rl_to_string rl (pf_surface_revision prev) ?bare = Inr data"
    and msg: "msg = MsgEndpointControl REUSE_KIND data"
    by (auto simp: reuse_message_def Let_def split: sum.splits if_splits)
  have "rl_from_str rl data = Inr (pf_surface_revision prev, ?bare)" using rl data by (simp add: reuse_lib_ok_def)
  moreover obtain popup where "de_baseline d = Some (baseline_of prev popup)" using d by (auto elim: retainsE)
  moreover have "?bare\<lparr>pf_frame := (pf_frame ?bare)\<lparr>fd_cells := fd_cells (pf_frame s)\<rparr>\<rparr> = s" by simp
  ultimately show ?thesis using rev same
    by (auto simp: surface_decode_def msg decode_reuse_def baseline_of_def Let_def retains_def same_modes_def)
qed

subsection \<open>Patches\<close>

text \<open>What a receiver with the whole surface makes of a patch is what the decoder retains of it.\<close>

lemma patch_rows_write:
  assumes "\<forall>r\<in>set rows. row_inside (cb_width base) (cb_height base) r"
    and "length (cb_cells base) = cb_width base * cb_height base"
  shows "\<exists>c. apply_rows (cb_cells base) (cb_width base) rows = Inr c \<and> patch_rows base rows = (base\<lparr>cb_cells := c\<rparr>, Inr ())"
  using assms
proof (induction rows arbitrary: base)
  case Nil
  then show ?case by simp
next
  case (Cons r rows)
  let ?W = "cb_width base" and ?H = "cb_height base"
  from write_row_overlay [of ?W ?H r "cb_cells base"] Cons.prems obtain c where
    c: "write_slice (cb_cells base) (pr_y r * ?W + pr_x r) (pr_cells r) = Inr c" "length c = ?W * ?H" by auto
  then have "pr_y r * ?W + pr_x r + length (pr_cells r) \<le> length (cb_cells base)"
    by (auto simp: write_slice_def split: if_splits)
  then have "sat_add u64_max (pr_y r * ?W + pr_x r) (length (pr_cells r)) \<le> length (cb_cells base)" by (simp add: sat_add_def)
  moreover from Cons.IH [of "base\<lparr>cb_cells := c\<rparr>"] Cons.prems c obtain c' where
    "apply_rows c ?W rows = Inr c'" "patch_rows (base\<lparr>cb_cells := c\<rparr>) rows = (base\<lparr>cb_cells := c'\<rparr>, Inr ())" by auto
  ultimately show ?case using Cons.prems c by (auto simp: row_inside_def Let_def)
qed

definition patch_matches :: "pane_surface \<Rightarrow> surface_patch \<Rightarrow> bool" where
  "patch_matches s patch \<longleftrightarrow>
     sq_boot_id patch = pf_boot_id s \<and> sq_projection_revision patch = pf_projection_revision s \<and>
     sq_base_surface_revision patch = pf_surface_revision s \<and>
     sq_surface_revision patch = sat_add u64_max (pf_surface_revision s) 1"

lemma decode_plain_patch:
  assumes d: "retains d prev" and m: "patch_matches prev patch"
    and rows: "\<forall>r\<in>set (sq_rows patch). row_inside (fd_width (pf_frame prev)) (fd_height (pf_frame prev)) r"
    and len: "length (fd_cells (pf_frame prev)) = fd_width (pf_frame prev) * fd_height (pf_frame prev)"
    and cells: "apply_rows (fd_cells (pf_frame prev)) (fd_width (pf_frame prev)) (sq_rows patch) = Inr c"
    and s: "baseline_of s (popup_baseline s) = (baseline_of prev (popup_baseline prev))\<lparr>cb_cells := c, cb_surface_revision := sq_surface_revision patch\<rparr>"
  shows "\<exists>d'. surface_decode w sl rl d (MsgPaneSurfacePatch patch) = (d', Inr (MsgPaneSurfacePatch patch)) \<and> retains d' s \<and> same_modes d d'"
proof -
  obtain popup where b: "de_baseline d = Some (baseline_of prev popup)" "de_surface_delta d \<Longrightarrow> popup = popup_baseline prev"
    using d by (auto elim: retainsE)
  have "patch_rows (baseline_of prev popup) (sq_rows patch) = ((baseline_of prev popup)\<lparr>cb_cells := c\<rparr>, Inr ())"
    using patch_rows_write [of "sq_rows patch" "baseline_of prev popup"] rows len cells by (simp add: baseline_of_def)
  moreover have "matches_patch (baseline_of prev popup) patch" using m by (simp add: matches_patch_def patch_matches_def baseline_of_def)
  ultimately show ?thesis using b s
    by (auto simp: surface_decode_def decode_ordinary_def retains_def same_modes_def baseline_of_def)
qed

lemma decode_scroll_patch:
  assumes d: "retains d prev" "de_surface_scroll d" and m: "patch_matches prev patch"
    and lib: "scroll_lib_ok sl" and W: "fd_width (pf_frame prev) \<le> u16_max"
    and sm: "scroll_message sl prev patch = Inr (Some msg)"
    and rows: "rows_disjoint (sq_rows patch)"
      "\<forall>r\<in>set (sq_rows patch). row_inside (fd_width (pf_frame prev)) (fd_height (pf_frame prev)) r"
    and panes: "sorted_wrt (\<lambda>a b. \<not> rects_overlap a b) (map sp_inner_rect (sq_panes patch))"
    and cells: "apply_rows (fd_cells (pf_frame prev)) (fd_width (pf_frame prev)) (sq_rows patch) = Inr c"
    and s: "baseline_of s (popup_baseline s) = (baseline_of prev (popup_baseline prev))\<lparr>cb_cells := c, cb_surface_revision := sq_surface_revision patch\<rparr>"
  shows "\<exists>d' patch'. surface_decode w sl rl d msg = (d', Inr (MsgPaneSurfacePatch patch')) \<and> retains d' s \<and> same_modes d d' \<and>
    apply_rows (fd_cells (pf_frame prev)) (fd_width (pf_frame prev)) (sq_rows patch') = Inr c \<and>
    rows_disjoint (sq_rows patch') \<and> patch'\<lparr>sq_rows := sq_rows patch\<rparr> = patch"
proof (rule scroll_message_Some [OF lib W sm rows panes])
  fix data sp c' patch'
  assume *: "msg = MsgEndpointControl SCROLL_KIND data" "scroll_decode sl data = Inr sp"
    "scroll_apply (fd_cells (pf_frame prev)) (fd_width (pf_frame prev)) (fd_height (pf_frame prev)) sp = (c', Inr patch')"
    "apply_rows (fd_cells (pf_frame prev)) (fd_width (pf_frame prev)) (sq_rows patch) = Inr c'"
    "rows_disjoint (sq_rows patch')" "patch'\<lparr>sq_rows := sq_rows patch\<rparr> = patch"
    "(xp_patch sp)\<lparr>sq_rows := sq_rows patch\<rparr> = patch"
    "length (fd_cells (pf_frame prev)) = fd_width (pf_frame prev) * fd_height (pf_frame prev)"
  have c: "c' = c" using *(4) cells by simp
  obtain popup where b: "de_baseline d = Some (baseline_of prev popup)" "de_surface_delta d \<Longrightarrow> popup = popup_baseline prev"
    using d by (auto elim: retainsE)
  have fields: "sq_boot_id q = sq_boot_id patch" "sq_projection_revision q = sq_projection_revision patch"
    "sq_base_surface_revision q = sq_base_surface_revision patch" "sq_surface_revision q = sq_surface_revision patch"
    if "q\<lparr>sq_rows := sq_rows patch\<rparr> = patch" for q using that by (cases q; cases patch; simp)+
  have "matches_patch (baseline_of prev popup) (xp_patch sp)"
    using m fields [OF *(7)] by (simp add: matches_patch_def patch_matches_def baseline_of_def)
  then have "decode_scroll sl d data = (d\<lparr>de_baseline := Some ((baseline_of prev popup)\<lparr>cb_cells := c, cb_surface_revision := sq_surface_revision patch\<rparr>)\<rparr>, Inr patch')"
    using b *(2,3) fields(4) [OF *(6)] by (simp add: decode_scroll_def baseline_of_def c)
  then show ?thesis using d(2) b s * scroll_apply_expands [OF *(8) W *(3)]
    by (auto simp: surface_decode_def retains_def same_modes_def baseline_of_def c)
qed

section \<open>Properties of the decoder\<close>

subsection \<open>A small delta\<close>

text \<open>The surface of \<open>SurfaceScroll\<close>'s example with its last cell changed.\<close>

definition ex_next :: pane_surface where
  "ex_next = ex_prev\<lparr>pf_surface_revision := 2, pf_frame := ex_frame\<lparr>fd_cells := map ex_cell [1, 2, 3, 5]\<rparr>\<rparr>"

definition ex_delta :: surface_delta where
  "ex_delta = \<lparr>sd_base_projection_revision = 1, sd_base_surface_revision = 1, sd_surface = take_cells ex_next,
     sd_rows = [ex_row 3 5], sd_popup_cells = None\<rparr>"

definition ex_wire :: "(token list) wire" where
  "ex_wire = token_wire (put_delta (token_wire []) ex_delta [])"

definition ex_decoder :: surface_decoder where
  "ex_decoder = \<lparr>de_baseline = Some (baseline_of ex_prev None), de_surface_delta = True, de_surface_scroll = True\<rparr>"

definition ex_reuse :: reuse_lib where
  "ex_reuse = \<lparr>rl_to_string = (\<lambda>b s. Inl ''unused''), rl_from_str = (\<lambda>t. Inl ''unused''), rl_size = (\<lambda>m. Inr 0)\<rparr>"

lemma ex_wire_sizes:
  "size_message ex_wire (MsgPaneSurface s) = Inr 10" "size_message ex_wire (MsgEndpointControl k data) = Inr 1"
  "size_span ex_wire r = Inr 1" "b64_len ex_wire = Some" "stream_end ex_wire = []"
  by (simp_all add: ex_wire_def token_wire_def)

lemma ex_wire_text: "b64_encode ex_wire (put_delta ex_wire ex_delta []) = ''a''" "stream_len ex_wire (put_delta ex_wire ex_delta []) = 1"
proof -
  have "put_delta ex_wire ex_delta [] = put_delta (token_wire []) ex_delta []" unfolding ex_wire_def by (rule put_delta_token)
  then show "b64_encode ex_wire (put_delta ex_wire ex_delta []) = ''a''" "stream_len ex_wire (put_delta ex_wire ex_delta []) = 1"
    by (simp_all add: ex_wire_def token_wire_def token_text_def)
qed

lemma ex_next_fits: "metadata_fits ex_next"
  by (simp add: metadata_fits_def frame_metadata_fits_def checked_grid_size_def ex_next_def ex_prev_def ex_frame_def
      MAX_GRID_DIMENSION_def MAX_GRID_CELLS_def MAX_HYPERLINKS_def MAX_GRAPHICS_FRAME_SIZE_def MAX_PANES_def MAX_SPLITS_def
      MAX_ASSETS_def MAX_PLACEMENTS_def MAX_RETAINED_ASSETS_def)

lemma ex_changed: "changed_rows ex_wire (map ex_cell [1, 2, 3, 4]) (map ex_cell [1, 2, 3, 5]) 1 10 = Inr (Some [ex_row 3 5])"
proof -
  have "chunks 1 [a, b, c, e] = [[a], [b], [c], [e]]" for a b c e :: cell_data
    by (simp add: chunks.simps)
  then show ?thesis by (simp add: changed_rows_def ex_row_def ex_cell_inj ex_wire_sizes MAX_SPANS_def)
qed

lemma ex_delta_message: "delta_message ex_wire ex_prev (MsgPaneSurface ex_next) = Inr (Some (MsgEndpointControl DELTA_KIND ''a''))"
proof -
  have f: "pf_boot_id ex_prev = pf_boot_id ex_next" "fd_width (pf_frame ex_prev) = 1" "fd_height (pf_frame ex_prev) = 4"
    "fd_width (pf_frame ex_next) = 1" "fd_height (pf_frame ex_next) = 4" "pf_popup ex_next = None"
    "fd_cells (pf_frame ex_prev) = map ex_cell [1, 2, 3, 4]" "fd_cells (pf_frame ex_next) = map ex_cell [1, 2, 3, 5]"
    "has_graphics (pf_graphics ex_next) = False" "pf_projection_revision ex_prev = 1" "pf_surface_revision ex_prev = 1"
    by (simp_all add: ex_prev_def ex_next_def ex_frame_def has_graphics_def)
  have d: "\<lparr>sd_base_projection_revision = 1, sd_base_surface_revision = 1, sd_surface = take_cells ex_next,
     sd_rows = [ex_row 3 5], sd_popup_cells = None\<rparr> = ex_delta" by (simp add: ex_delta_def)
  show ?thesis
    unfolding delta_message_def server_message.case f ex_wire_sizes rthen_simps Let_def ex_changed
    by (simp add: popup_update_def f ex_next_fits ex_wire_sizes d [simplified] ex_wire_text [simplified] MAX_FRAME_SIZE_def)
qed

subsection \<open>Properties\<close>



text \<open>
  C14. No message can crash the decoder, and a refused message changes nothing it must not: the
  identity, revisions and size of the retained grid stay, and after a refused delta, scroll or
  reuse message the decoder is exactly as before.  (An ordinary patch with a row beyond the
  grid is refused after the rows before it were written.)
\<close>

theorem decoder_survives_any_message:
  assumes "wire_calm w"
    and "\<forall>base. de_baseline d = Some base \<longrightarrow> cb_width base \<le> u16_max \<and> cb_height base \<le> u16_max"
    and "surface_decode w sl rl d m = (d', r)"
  shows "r \<noteq> Inl Panic \<and>
    ((\<exists>e. r = Inl e) \<longrightarrow>
       d' = d \<or>
       (\<exists>patch base cells. m = MsgPaneSurfacePatch patch \<and> de_baseline d = Some base \<and>
          length cells = length (cb_cells base) \<and> d' = d\<lparr>de_baseline := Some (base\<lparr>cb_cells := cells\<rparr>)\<rparr>))"
proof -
  have width: "\<forall>base. de_baseline d = Some base \<longrightarrow> cb_width base \<le> u16_max" using assms(2) by blast
  have ord: ?thesis if o: "decode_ordinary d m = (d', r)"
  proof (cases m)
    case (MsgPaneSurfacePatch patch)
    show ?thesis
    proof (cases "de_baseline d")
      case (Some base)
      obtain b' r' where pr: "patch_rows base (sq_rows patch) = (b', r')" by (cases "patch_rows base (sq_rows patch)")
      from patch_rows_facts [OF this] assms(2) Some obtain cells where
        "r' \<noteq> Inl Panic" "length cells = length (cb_cells base)" "b' = base\<lparr>cb_cells := cells\<rparr>" by auto
      with o MsgPaneSurfacePatch Some pr show ?thesis
        by (cases r') (auto simp: decode_ordinary_def split: if_splits)
    qed (use o MsgPaneSurfacePatch in \<open>auto simp: decode_ordinary_def\<close>)
  qed (use o in \<open>auto simp: decode_ordinary_def Let_def\<close>)
  show ?thesis
  proof (cases "\<exists>kind data. m = MsgEndpointControl kind data \<and> kind \<in> {DELTA_KIND, SCROLL_KIND, REUSE_KIND}")
    case False
    then have "decode_ordinary d m = (d', r)" using assms(3) by (auto simp: surface_decode_def split: server_message.splits)
    then show ?thesis by (rule ord)
  next
    case True
    then obtain kind data where m: "m = MsgEndpointControl kind data" "kind \<in> {DELTA_KIND, SCROLL_KIND, REUSE_KIND}" by blast
    obtain d1 r1 where 1: "decode_delta w d data = (d1, r1)" by (cases "decode_delta w d data")
    obtain d2 r2 where 2: "decode_scroll sl d data = (d2, r2)" by (cases "decode_scroll sl d data")
    obtain d3 r3 where 3: "decode_reuse rl d data = (d3, r3)" by (cases "decode_reuse rl d data")
    note k1 = decode_delta_keeps_or_accepts [OF 1] and k2 = decode_scroll_keeps_or_accepts [OF 2 width]
      and k3 = decode_reuse_keeps_or_accepts [OF 3]
    from m(2) have "r \<noteq> Inl Panic \<and> ((\<exists>e. r = Inl e) \<longrightarrow> d' = d)"
      using assms(1,3) k1 k2 k3 1 2 3
      by (cases r1; cases r2; auto simp: surface_decode_def m(1) split: if_splits)
    then show ?thesis by blast
  qed
qed

lemma ex_wire_calm: "wire_calm ex_wire"
  by (auto simp: wire_calm_def calm_def ex_wire_def token_wire_def next_token_def nat_token_def split: list.splits option.splits)

theorem decoder_survives_any_message_witness:
  "snd (surface_decode ex_wire ex_lib ex_reuse ex_decoder (MsgEndpointControl SCROLL_KIND ''x'')) \<noteq> Inl Panic"
proof -
  obtain d' r where dr: "surface_decode ex_wire ex_lib ex_reuse ex_decoder (MsgEndpointControl SCROLL_KIND ''x'') = (d', r)"
    by (cases "surface_decode ex_wire ex_lib ex_reuse ex_decoder (MsgEndpointControl SCROLL_KIND ''x'')")
  have "\<forall>base. de_baseline ex_decoder = Some base \<longrightarrow> cb_width base \<le> u16_max \<and> cb_height base \<le> u16_max"
    by (simp add: ex_decoder_def baseline_of_def ex_prev_def ex_frame_def u16_max_def)
  from decoder_survives_any_message [OF ex_wire_calm this dr] dr show ?thesis by simp
qed



end
