(* ===== verification/Channel.thy ===== *)
theory Channel
  imports Surface
begin

section \<open>A channel that loses nothing\<close>

text \<open>
  The contract between the server's render state and the client's decoder.  The sender turns
  an update into a message, if one is needed, and its next state; the receiver turns the
  message into what it displays.  When every admissible update that is sent is accepted and
  keeps the two sides agreed, no run refuses a message and the two sides stay agreed.
\<close>

inductive channel_step ::
    "('r \<Rightarrow> 'u \<Rightarrow> ('m option \<times> 'r) result) \<Rightarrow> ('d \<Rightarrow> 'm \<Rightarrow> 'd \<times> 'o result) \<Rightarrow> ('v \<Rightarrow> 'o \<Rightarrow> 'v) \<Rightarrow>
     ('r \<Rightarrow> 'u \<Rightarrow> bool) \<Rightarrow> ('r \<times> 'd \<times> 'v) option \<Rightarrow> ('r \<times> 'd \<times> 'v) option \<Rightarrow> bool"
  for send receive display admissible where
  quiet: "admissible r u \<Longrightarrow> send r u = Inr (None, r') \<Longrightarrow>
    channel_step send receive display admissible (Some (r, d, v)) (Some (r', d, v))"
| delivered: "admissible r u \<Longrightarrow> send r u = Inr (Some m, r') \<Longrightarrow> receive d m = (d', Inr out) \<Longrightarrow>
    channel_step send receive display admissible (Some (r, d, v)) (Some (r', d', display v out))"
| refused: "admissible r u \<Longrightarrow> send r u = Inr (Some m, r') \<Longrightarrow> receive d m = (d', Inl e) \<Longrightarrow>
    channel_step send receive display admissible (Some (r, d, v)) None"
| crashed: "admissible r u \<Longrightarrow> send r u = Inl e \<Longrightarrow>
    channel_step send receive display admissible (Some (r, d, v)) None"

inductive_cases channel_stepE: "channel_step send receive display admissible (Some (r, d, v)) st"

locale lossless_channel =
  fixes send :: "'r \<Rightarrow> 'u \<Rightarrow> ('m option \<times> 'r) result"
    and receive :: "'d \<Rightarrow> 'm \<Rightarrow> 'd \<times> 'o result"
    and display :: "'v \<Rightarrow> 'o \<Rightarrow> 'v"
    and admissible :: "'r \<Rightarrow> 'u \<Rightarrow> bool"
    and agreed :: "'r \<Rightarrow> 'd \<Rightarrow> 'v \<Rightarrow> bool"
  assumes send_ok: "agreed r d v \<Longrightarrow> admissible r u \<Longrightarrow> send r u \<noteq> Inl e"
    and quiet_agreed: "agreed r d v \<Longrightarrow> admissible r u \<Longrightarrow> send r u = Inr (None, r') \<Longrightarrow> agreed r' d v"
    and delivered_agreed: "agreed r d v \<Longrightarrow> admissible r u \<Longrightarrow> send r u = Inr (Some m, r') \<Longrightarrow>
      \<exists>d' out. receive d m = (d', Inr out) \<and> agreed r' d' (display v out)"
begin

lemma channel_step_agreed:
  assumes "channel_step send receive display admissible (Some (r, d, v)) st" and "agreed r d v"
  shows "\<exists>r' d' v'. st = Some (r', d', v') \<and> agreed r' d' v'"
  using assms(1)
proof (rule channel_stepE)
  fix r' u assume "st = Some (r', d, v)" "admissible r u" "send r u = Inr (None, r')"
  then show ?thesis using quiet_agreed [OF assms(2)] by blast
next
  fix d' out r' u m assume "st = Some (r', d', display v out)" "admissible r u" "send r u = Inr (Some m, r')" "receive d m = (d', Inr out)"
  then show ?thesis using delivered_agreed [OF assms(2)] by fastforce
next
  fix d' e r' u m assume "admissible r u" "send r u = Inr (Some m, r')" "receive d m = (d', Inl e)"
  then show ?thesis using delivered_agreed [OF assms(2)] by fastforce
next
  fix e u assume "admissible r u" "send r u = Inl e"
  then show ?thesis using send_ok [OF assms(2)] by blast
qed

end

sublocale lossless_channel \<subseteq> channel_run: kept_by_steps "channel_step send receive display admissible"
  "\<lambda>st. \<exists>r d v. st = Some (r, d, v) \<and> agreed r d v"
  by unfold_locales (use channel_step_agreed in blast)

end
