(* ===== verification/RenderStream.thy ===== *)
theory RenderStream
  imports SurfaceReuse Channel
begin

section \<open>The server's render state of a client\<close>

text \<open>
  The model of \<open>src/src/server/render_stream.rs\<close>: what the server remembers of a client
  that receives semantic frames, the messages it prepares, and the commit after a message
  was sent.  \<open>render_state\<close> is the variant \<open>ClientRenderState::Semantic\<close>; the variant
  \<open>TerminalAnsi\<close>, whose state is the terminal encoder, is not modelled.  Warnings that are
  only logged have no counterpart.
\<close>

record render_state =
  rs_last_surface :: "pane_surface option"
  rs_surface_revision :: u64
  rs_surface_reuse :: bool
  rs_surface_delta :: bool
  rs_surface_scroll :: bool
  rs_recompute_pending :: bool

datatype prepared_render =
    PreparedSemantic server_message pane_surface "asset_key list"
  | PreparedPatch server_message "surface_patch option"

definition render_state_new :: render_state where
  "render_state_new = \<lparr>rs_last_surface = None, rs_surface_revision = 0, rs_surface_reuse = False,
     rs_surface_delta = False, rs_surface_scroll = False, rs_recompute_pending = False\<rparr>"

definition enable_surface_reuse :: "bool \<Rightarrow> render_state \<Rightarrow> render_state" where
  "enable_surface_reuse enabled rs = rs\<lparr>rs_surface_reuse := enabled\<rparr>"

definition enable_surface_delta :: "bool \<Rightarrow> render_state \<Rightarrow> render_state" where
  "enable_surface_delta enabled rs = rs\<lparr>rs_surface_delta := enabled\<rparr>"

definition enable_surface_scroll :: "bool \<Rightarrow> render_state \<Rightarrow> render_state" where
  "enable_surface_scroll enabled rs = rs\<lparr>rs_surface_scroll := enabled\<rparr>"

definition reset_baseline :: "render_state \<Rightarrow> render_state" where
  "reset_baseline rs = rs\<lparr>rs_last_surface := None\<rparr>"

definition request_repaint :: "render_state \<Rightarrow> render_state" where
  "request_repaint rs = rs\<lparr>rs_last_surface := None\<rparr>"

definition request_recompute :: "render_state \<Rightarrow> render_state" where
  "request_recompute rs = (if rs_surface_delta rs then rs\<lparr>rs_recompute_pending := True\<rparr> else request_repaint rs)"

definition requires_recompute :: "render_state \<Rightarrow> bool" where
  "requires_recompute rs \<longleftrightarrow> rs_recompute_pending rs"

text \<open>The codecs the server calls: the delta codec, the scroll codec and JSON.\<close>

record 's codecs =
  co_wire :: "'s wire"
  co_scroll :: scroll_lib
  co_reuse :: reuse_lib

text \<open>An encoding error is logged and the next encoding is tried; only a panic propagates.\<close>

definition logged :: "'a option result \<Rightarrow> 'a option result" where
  "logged r = (case r of Inl (Err e) \<Rightarrow> Inr None | _ \<Rightarrow> r)"

definition reuse_attempt :: "'s codecs \<Rightarrow> u64 \<Rightarrow> pane_surface \<Rightarrow> server_message option" where
  "reuse_attempt co base surface = (case reuse_message (co_reuse co) base surface of Inl e \<Rightarrow> None | Inr m \<Rightarrow> m)"

definition unchanged_surface :: "pane_surface \<Rightarrow> pane_surface \<Rightarrow> bool" where
  "unchanged_surface prev surface \<longleftrightarrow>
     pf_projection_revision prev = pf_projection_revision surface \<and> pf_frame prev = pf_frame surface \<and>
     pf_panes prev = pf_panes surface \<and> pf_splits prev = pf_splits surface \<and> pf_popup prev = pf_popup surface \<and>
     gs_placements (pf_graphics prev) = gs_placements (pf_graphics surface) \<and>
     gs_retained_assets (pf_graphics prev) = gs_retained_assets (pf_graphics surface)"

definition prepare_pane_surface_with_file ::
    "'s codecs \<Rightarrow> render_state \<Rightarrow> pane_surface \<Rightarrow> bool \<Rightarrow> prepared_render option result" where
  "prepare_pane_surface_with_file co rs surface has_file_upload =
     (if \<not> has_file_upload \<and> \<not> rs_recompute_pending rs \<and> gs_assets (pf_graphics surface) = [] \<and>
         (case rs_last_surface rs of None \<Rightarrow> False | Some prev \<Rightarrow> unchanged_surface prev surface)
      then Inr None
      else
        let surface = surface\<lparr>pf_surface_revision := sat_add u64_max (rs_surface_revision rs) 1\<rparr>;
            queued = map ga_key (gs_assets (pf_graphics surface));
            committed = surface\<lparr>pf_graphics := (pf_graphics surface)\<lparr>gs_assets := []\<rparr>\<rparr>;
            message = MsgPaneSurface surface
        in rthen (case rs_last_surface rs of
                    Some prev \<Rightarrow> if rs_surface_delta rs then logged (delta_message (co_wire co) prev message) else Inr None
                  | None \<Rightarrow> Inr None) (\<lambda>delta.
             let reused = (case rs_last_surface rs of
                   Some prev \<Rightarrow>
                     if delta = None \<and> rs_surface_reuse rs \<and> pf_boot_id prev = pf_boot_id surface \<and>
                        pf_frame prev = pf_frame surface \<and> pf_popup surface = None \<and> gs_assets (pf_graphics surface) = []
                     then reuse_attempt co (pf_surface_revision prev) surface else None
                 | None \<Rightarrow> None)
             in Inr (Some (PreparedSemantic
                  (case delta of Some m \<Rightarrow> m | None \<Rightarrow> (case reused of Some m \<Rightarrow> m | None \<Rightarrow> message)) committed queued))))"

definition prepare_pane_surface :: "'s codecs \<Rightarrow> render_state \<Rightarrow> pane_surface \<Rightarrow> prepared_render option result" where
  "prepare_pane_surface co rs surface = prepare_pane_surface_with_file co rs surface False"

definition prepare_projection_restamp :: "'s codecs \<Rightarrow> render_state \<Rightarrow> u64 \<Rightarrow> prepared_render option" where
  "prepare_projection_restamp co rs projection_revision =
     (if rs_recompute_pending rs then None
      else case rs_last_surface rs of
             None \<Rightarrow> None
           | Some prev \<Rightarrow>
               let surface = prev\<lparr>pf_projection_revision := projection_revision,
                                  pf_surface_revision := sat_add u64_max (rs_surface_revision rs) 1\<rparr>;
                   reused = (if rs_surface_reuse rs \<and> pf_popup surface = None
                             then reuse_attempt co (pf_surface_revision prev) surface else None)
               in Some (PreparedSemantic (case reused of Some m \<Rightarrow> m | None \<Rightarrow> MsgPaneSurface surface) surface []))"

text \<open>The loops of \<open>apply_pane_surface_patch\<close>: a row beyond the grid is skipped, and an
  updated pane replaces the first one with its id.\<close>

fun write_patch_rows :: "u16 \<Rightarrow> patch_row list \<Rightarrow> cell_data list \<Rightarrow> cell_data list" where
  "write_patch_rows width [] cells = cells"
| "write_patch_rows width (row # rows) cells =
     (case write_slice cells (pr_y row * width + pr_x row) (pr_cells row) of
        Inl _ \<Rightarrow> write_patch_rows width rows cells
      | Inr cells' \<Rightarrow> write_patch_rows width rows cells')"

fun replace_pane :: "surface_pane \<Rightarrow> surface_pane list \<Rightarrow> surface_pane list" where
  "replace_pane updated [] = []"
| "replace_pane updated (pane # panes) =
     (if sp_pane_id pane = sp_pane_id updated then updated # panes else pane # replace_pane updated panes)"

definition apply_pane_surface_patch :: "pane_surface \<Rightarrow> surface_patch \<Rightarrow> pane_surface" where
  "apply_pane_surface_patch surface patch =
     (let frame = (pf_frame surface)
            \<lparr>fd_hyperlinks := fd_hyperlinks (pf_frame surface) @ sq_hyperlink_uris patch,
             fd_cells := write_patch_rows (fd_width (pf_frame surface)) (sq_rows patch) (fd_cells (pf_frame surface)),
             fd_cursor := sq_cursor patch\<rparr>
      in surface\<lparr>pf_frame := frame, pf_panes := fold replace_pane (sq_panes patch) (pf_panes surface),
                 pf_surface_revision := sq_surface_revision patch\<rparr>)"

definition prepare_pane_surface_patch ::
    "'s codecs \<Rightarrow> render_state \<Rightarrow> surface_patch \<Rightarrow> prepared_render option result" where
  "prepare_pane_surface_patch co rs patch =
     (if requires_recompute rs then Inr None
      else case rs_last_surface rs of
             None \<Rightarrow> Inr None
           | Some prev \<Rightarrow>
               if pf_boot_id prev \<noteq> sq_boot_id patch \<or> pf_projection_revision prev \<noteq> sq_projection_revision patch \<or>
                  pf_surface_revision prev \<noteq> sq_base_surface_revision patch
               then Inr None
               else
                 let patch = patch\<lparr>sq_surface_revision := sat_add u64_max (rs_surface_revision rs) 1\<rparr> in
                 if sq_hyperlink_uris patch \<noteq> [] then prepare_pane_surface co rs (apply_pane_surface_patch prev patch)
                 else rthen (if rs_surface_scroll rs then scroll_message (co_scroll co) prev patch else Inr None) (\<lambda>scrolled.
                   Inr (Some (case scrolled of
                                Some message \<Rightarrow> PreparedPatch message (Some patch)
                              | None \<Rightarrow> PreparedPatch (MsgPaneSurfacePatch patch) None))))"

definition prepared_message :: "prepared_render \<Rightarrow> server_message" where
  "prepared_message p = (case p of PreparedSemantic m _ _ \<Rightarrow> m | PreparedPatch m _ \<Rightarrow> m)"

definition commit_sent_frame :: "render_state \<Rightarrow> prepared_render \<Rightarrow> render_state result" where
  "commit_sent_frame rs prepared =
     (case prepared of
        PreparedSemantic _ committed _ \<Rightarrow>
          Inr (rs\<lparr>rs_surface_revision := pf_surface_revision committed, rs_last_surface := Some committed,
                  rs_recompute_pending := False\<rparr>)
      | PreparedPatch message encoded \<Rightarrow>
          rthen (case (encoded, message) of
                   (Some patch, _) \<Rightarrow> Inr patch
                 | (None, MsgPaneSurfacePatch patch) \<Rightarrow> Inr patch
                 | _ \<Rightarrow> Inl Panic) (\<lambda>patch.
            case rs_last_surface rs of
              None \<Rightarrow> Inr rs
            | Some surface \<Rightarrow>
                Inr (rs\<lparr>rs_last_surface := Some (apply_pane_surface_patch surface patch),
                        rs_surface_revision := sq_surface_revision patch\<rparr>)))"

definition has_queued_surface_assets :: "prepared_render \<Rightarrow> bool" where
  "has_queued_surface_assets p = (case p of PreparedSemantic _ _ queued \<Rightarrow> queued \<noteq> [] | _ \<Rightarrow> False)"

text \<open>\<open>max_by_key\<close> on the payload size and then the index: the last of the largest.\<close>

fun largest_asset :: "nat \<Rightarrow> graphics_asset list \<Rightarrow> (nat \<times> nat) option" where
  "largest_asset i [] = None"
| "largest_asset i (a # as) =
     (case largest_asset (Suc i) as of
        None \<Rightarrow> Some (length (ga_data a), i)
      | Some best \<Rightarrow> if best < (length (ga_data a), i) then Some (length (ga_data a), i) else Some best)"

definition remove_at :: "nat \<Rightarrow> 'a list \<Rightarrow> 'a list" where
  "remove_at i xs = take i xs @ drop (Suc i) xs"

definition pop_pane_surface_asset :: "prepared_render \<Rightarrow> prepared_render \<times> asset_key option" where
  "pop_pane_surface_asset p =
     (case p of
        PreparedSemantic (MsgPaneSurface surface) committed queued \<Rightarrow>
          (case largest_asset 0 (gs_assets (pf_graphics surface)) of
             None \<Rightarrow> (p, None)
           | Some (_, index) \<Rightarrow>
               let assets = gs_assets (pf_graphics surface); key = ga_key (assets ! index);
                   surface = surface\<lparr>pf_graphics := (pf_graphics surface)\<lparr>gs_assets := remove_at index assets\<rparr>\<rparr>;
                   queued = (case position (\<lambda>q. q = key) queued of None \<Rightarrow> queued | Some i \<Rightarrow> remove_at i queued)
               in (PreparedSemantic (MsgPaneSurface surface) committed queued, Some key))
      | _ \<Rightarrow> (p, None))"

section \<open>Server and client stay in step\<close>

definition codecs_ok :: "'s codecs \<Rightarrow> bool" where
  "codecs_ok co \<longleftrightarrow> wire_ok (co_wire co) \<and> scroll_lib_ok (co_scroll co) \<and> reuse_lib_ok (co_reuse co)"

abbreviation receive :: "'s codecs \<Rightarrow> surface_decoder \<Rightarrow> server_message \<Rightarrow> surface_decoder \<times> server_message result" where
  "receive co \<equiv> surface_decode (co_wire co) (co_scroll co) (co_reuse co)"

definition grid_ok :: "pane_surface \<Rightarrow> bool" where
  "grid_ok s \<longleftrightarrow> length (fd_cells (pf_frame s)) = fd_width (pf_frame s) * fd_height (pf_frame s) \<and>
     fd_width (pf_frame s) \<le> u16_max \<and> fd_height (pf_frame s) \<le> u16_max"

text \<open>The client's decoder holds the surface the server committed last, if the server has one.\<close>

definition in_step :: "render_state \<Rightarrow> surface_decoder \<Rightarrow> bool" where
  "in_step rs d \<longleftrightarrow>
     (rs_surface_delta rs \<longrightarrow> de_surface_delta d) \<and> (rs_surface_scroll rs \<longrightarrow> de_surface_scroll d) \<and>
     (\<forall>s. rs_last_surface rs = Some s \<longrightarrow>
        retains d s \<and> pf_surface_revision s = rs_surface_revision rs \<and> grid_ok s \<and> gs_assets (pf_graphics s) = [])"

lemma retains_graphics [simp]: "retains d (s\<lparr>pf_graphics := g\<rparr>) \<longleftrightarrow> retains d s"
  by (simp add: retains_def baseline_of_def popup_baseline_def)

lemma in_step_forget: "in_step rs d \<Longrightarrow> in_step (rs\<lparr>rs_last_surface := None\<rparr>) d"
  by (simp add: in_step_def)

lemma in_step_requests:
  assumes "in_step rs d"
  shows "in_step (reset_baseline rs) d" "in_step (request_repaint rs) d" "in_step (request_recompute rs) d"
  using assms by (simp_all add: reset_baseline_def request_repaint_def request_recompute_def in_step_def)

text \<open>The revision a prepared surface carries.\<close>

definition next_revision :: "render_state \<Rightarrow> u64" where
  "next_revision rs = sat_add u64_max (rs_surface_revision rs) 1"

lemma in_step_commit:
  assumes "in_step rs d" and "retains d' s" and "same_modes d d'" and "grid_ok s"
    and "gs_assets (pf_graphics s) = []"
  shows "in_step (rs\<lparr>rs_surface_revision := pf_surface_revision s, rs_last_surface := Some s, rs_recompute_pending := p\<rparr>) d'"
  using assms by (simp add: in_step_def same_modes_def)

lemma reuse_attempt_Some: "reuse_attempt co b s = Some m \<longleftrightarrow> reuse_message (co_reuse co) b s = Inr (Some m)"
  by (simp add: reuse_attempt_def split: sum.splits)

lemma surface_delivered:
  assumes co: "codecs_ok co" and step: "in_step rs d" and ok: "grid_ok s" "links_valid s"
    and proj: "\<forall>prev. rs_last_surface rs = Some prev \<longrightarrow> pf_projection_revision prev \<le> pf_projection_revision s"
    and prep: "prepare_pane_surface_with_file co rs s upload = Inr (Some p)"
  shows "\<exists>d' rs'. receive co d (prepared_message p) = (d', Inr (MsgPaneSurface (s\<lparr>pf_surface_revision := next_revision rs\<rparr>))) \<and>
    commit_sent_frame rs p = Inr rs' \<and> in_step rs' d' \<and> same_modes d d' \<and>
    rs_last_surface rs' = Some (s\<lparr>pf_surface_revision := next_revision rs, pf_graphics := (pf_graphics s)\<lparr>gs_assets := []\<rparr>\<rparr>)"
proof -
  define t where "t = s\<lparr>pf_surface_revision := next_revision rs\<rparr>"
  define committed where "committed = t\<lparr>pf_graphics := (pf_graphics t)\<lparr>gs_assets := []\<rparr>\<rparr>"
  have t: "links_valid t" "grid_ok t" "pf_surface_revision t = next_revision rs" "pf_projection_revision t = pf_projection_revision s"
    using ok by (auto simp: t_def links_valid_def grid_ok_def)
  from prep obtain msg queued where p: "p = PreparedSemantic msg committed queued"
    and how: "msg = MsgPaneSurface t \<or>
      (\<exists>prev. rs_last_surface rs = Some prev \<and>
        (rs_surface_delta rs \<and> delta_message (co_wire co) prev (MsgPaneSurface t) = Inr (Some msg) \<or>
         pf_boot_id prev = pf_boot_id t \<and> pf_frame prev = pf_frame t \<and>
         reuse_message (co_reuse co) (pf_surface_revision prev) t = Inr (Some msg)))"
    unfolding prepare_pane_surface_with_file_def Let_def next_revision_def [symmetric] t_def [symmetric] committed_def [symmetric]
    by (auto simp: rthen_Inr_iff logged_def reuse_attempt_Some split: if_splits option.splits sum.splits failure.splits)
  have "\<exists>d'. receive co d msg = (d', Inr (MsgPaneSurface t)) \<and> retains d' t \<and> same_modes d d'"
  proof -
    from how consider "msg = MsgPaneSurface t"
      | prev where "rs_last_surface rs = Some prev" "rs_surface_delta rs" "delta_message (co_wire co) prev (MsgPaneSurface t) = Inr (Some msg)"
      | prev where "rs_last_surface rs = Some prev" "pf_boot_id prev = pf_boot_id t" "pf_frame prev = pf_frame t"
          "reuse_message (co_reuse co) (pf_surface_revision prev) t = Inr (Some msg)"
      by blast
    then show ?thesis
    proof cases
      case 1
      then show ?thesis by (simp add: decode_full)
    next
      case (2 prev)
      then have "retains d prev" "pf_surface_revision prev = rs_surface_revision rs" "de_surface_delta d"
        using step by (auto simp: in_step_def)
      then show ?thesis using co 2 t proj by (intro decode_delta_message) (auto simp: codecs_ok_def next_revision_def)
    next
      case (3 prev)
      then have "retains d prev" "pf_surface_revision prev = rs_surface_revision rs" using step by (auto simp: in_step_def)
      then show ?thesis using co 3 t by (intro decode_reuse_message [where prev = prev]) (auto simp: codecs_ok_def next_revision_def)
    qed
  qed
  then obtain d' where d': "receive co d msg = (d', Inr (MsgPaneSurface t))" "retains d' t" "same_modes d d'" by blast
  have "retains d' committed" "grid_ok committed" "gs_assets (pf_graphics committed) = []"
    using d'(2) t(2) by (simp_all add: committed_def grid_ok_def)
  from in_step_commit [OF step this(1) d'(3) this(2,3), of False] d' show ?thesis
    by (simp add: p prepared_message_def commit_sent_frame_def committed_def t_def)
qed

lemma restamp_delivered:
  assumes co: "codecs_ok co" and step: "in_step rs d" and prep: "prepare_projection_restamp co rs r = Some p"
  obtains prev d' rs' where "rs_last_surface rs = Some prev"
    "receive co d (prepared_message p) =
       (d', Inr (MsgPaneSurface (prev\<lparr>pf_projection_revision := r, pf_surface_revision := next_revision rs\<rparr>)))"
    "commit_sent_frame rs p = Inr rs'" "in_step rs' d'" "same_modes d d'"
    "rs_last_surface rs' = Some (prev\<lparr>pf_projection_revision := r, pf_surface_revision := next_revision rs\<rparr>)"
proof -
  from prep obtain prev where prev: "rs_last_surface rs = Some prev"
    by (auto simp: prepare_projection_restamp_def split: if_splits option.splits)
  define t where "t = prev\<lparr>pf_projection_revision := r, pf_surface_revision := next_revision rs\<rparr>"
  from prep prev obtain msg where p: "p = PreparedSemantic msg t []"
    and how: "msg = MsgPaneSurface t \<or> reuse_message (co_reuse co) (pf_surface_revision prev) t = Inr (Some msg)"
    unfolding prepare_projection_restamp_def Let_def next_revision_def [symmetric]
    by (auto simp: t_def reuse_attempt_Some split: if_splits option.splits)
  have ret: "retains d prev" "pf_surface_revision prev = rs_surface_revision rs" "grid_ok prev" "gs_assets (pf_graphics prev) = []"
    using step prev by (auto simp: in_step_def)
  have "\<exists>d'. receive co d msg = (d', Inr (MsgPaneSurface t)) \<and> retains d' t \<and> same_modes d d'"
  proof (cases "msg = MsgPaneSurface t")
    case True
    then show ?thesis by (simp add: decode_full)
  next
    case False
    with how have "reuse_message (co_reuse co) (pf_surface_revision prev) t = Inr (Some msg)" by simp
    then show ?thesis using co ret by (intro decode_reuse_message [where prev = prev]) (auto simp: codecs_ok_def next_revision_def t_def)
  qed
  then obtain d' where d': "receive co d msg = (d', Inr (MsgPaneSurface t))" "retains d' t" "same_modes d d'" by blast
  have "grid_ok t" "gs_assets (pf_graphics t) = []" using ret(3,4) by (simp_all add: grid_ok_def t_def)
  from in_step_commit [OF step d'(2,3) this, of False] d' prev show ?thesis
    by (intro that [of prev]) (auto simp: p prepared_message_def commit_sent_frame_def t_def)
qed

subsection \<open>Patches\<close>

lemma write_patch_rows_apply: "apply_rows cells W rows = Inr c \<Longrightarrow> write_patch_rows W rows cells = c"
  by (induction rows arbitrary: cells) (auto simp: rthen_Inr_iff)

lemma patch_applied_baseline:
  assumes "apply_rows (fd_cells (pf_frame prev)) (fd_width (pf_frame prev)) (sq_rows patch) = Inr c"
  shows "baseline_of (apply_pane_surface_patch prev patch) (popup_baseline (apply_pane_surface_patch prev patch)) =
    (baseline_of prev (popup_baseline prev))\<lparr>cb_cells := c, cb_surface_revision := sq_surface_revision patch\<rparr>"
  using write_patch_rows_apply [OF assms]
  by (simp add: baseline_of_def apply_pane_surface_patch_def Let_def popup_baseline_def)

lemma same_rows_same_surface:
  assumes "q\<lparr>sq_rows := sq_rows patch\<rparr> = patch"
    and "apply_rows (fd_cells (pf_frame prev)) (fd_width (pf_frame prev)) (sq_rows q) = Inr c"
    and "apply_rows (fd_cells (pf_frame prev)) (fd_width (pf_frame prev)) (sq_rows patch) = Inr c"
  shows "apply_pane_surface_patch prev q = apply_pane_surface_patch prev patch"
proof -
  have "sq_hyperlink_uris q = sq_hyperlink_uris patch" "sq_cursor q = sq_cursor patch" "sq_panes q = sq_panes patch"
    "sq_surface_revision q = sq_surface_revision patch"
    using assms(1) by (cases q; cases patch; simp)+
  then show ?thesis using write_patch_rows_apply [OF assms(2)] write_patch_rows_apply [OF assms(3)]
    by (simp add: apply_pane_surface_patch_def)
qed

text \<open>What the server knows of a patch it plans: its rows lie in the grid and do not overlap,
  the panes do not overlap, and the links it adds are numbered from the end of the table.\<close>

definition patch_planned :: "pane_surface \<Rightarrow> surface_patch \<Rightarrow> bool" where
  "patch_planned prev patch \<longleftrightarrow>
     rows_disjoint (sq_rows patch) \<and>
     list_all (row_inside (fd_width (pf_frame prev)) (fd_height (pf_frame prev))) (sq_rows patch) \<and>
     sorted_wrt (\<lambda>a b. \<not> rects_overlap a b) (map sp_inner_rect (sq_panes patch)) \<and>
     (sq_hyperlink_uris patch \<noteq> [] \<longrightarrow> links_valid (apply_pane_surface_patch prev patch))"

text \<open>The surface a receiver holds after a message, given the one it held before.\<close>

definition shown :: "pane_surface option \<Rightarrow> server_message \<Rightarrow> pane_surface option" where
  "shown v m = (case m of
      MsgPaneSurface s \<Rightarrow> Some s
    | MsgPaneSurfacePatch q \<Rightarrow> map_option (\<lambda>s. apply_pane_surface_patch s q) v
    | _ \<Rightarrow> v)"

definition without_assets :: "pane_surface \<Rightarrow> pane_surface" where
  "without_assets s = s\<lparr>pf_graphics := (pf_graphics s)\<lparr>gs_assets := []\<rparr>\<rparr>"

lemma apply_patch_without_assets:
  "without_assets (apply_pane_surface_patch s q) = apply_pane_surface_patch (without_assets s) q"
  by (simp add: without_assets_def apply_pane_surface_patch_def Let_def)

lemma apply_patch_grid_ok:
  assumes "grid_ok prev" and "apply_rows (fd_cells (pf_frame prev)) (fd_width (pf_frame prev)) (sq_rows patch) = Inr c"
    and "length c = length (fd_cells (pf_frame prev))"
  shows "grid_ok (apply_pane_surface_patch prev patch)"
  using assms write_patch_rows_apply [OF assms(2)] by (simp add: grid_ok_def apply_pane_surface_patch_def Let_def)

lemma patch_delivered:
  assumes co: "codecs_ok co" and step: "in_step rs d" and prev: "rs_last_surface rs = Some prev"
    and plan: "patch_planned prev patch"
    and prep: "prepare_pane_surface_patch co rs patch = Inr (Some p)"
  shows "\<exists>d' rs' out t. receive co d (prepared_message p) = (d', Inr out) \<and> commit_sent_frame rs p = Inr rs' \<and>
    in_step rs' d' \<and> same_modes d d' \<and> rs_last_surface rs' = Some t \<and>
    (\<forall>v. without_assets v = prev \<longrightarrow> map_option without_assets (shown (Some v) out) = Some t)"
proof -
  define patch1 where "patch1 = patch\<lparr>sq_surface_revision := next_revision rs\<rparr>"
  let ?t = "apply_pane_surface_patch prev patch1"
  have last: "retains d prev" "pf_surface_revision prev = rs_surface_revision rs" "grid_ok prev" "gs_assets (pf_graphics prev) = []"
    using step prev by (auto simp: in_step_def)
  have rows: "rows_disjoint (sq_rows patch1)" "\<forall>r\<in>set (sq_rows patch1). row_inside (fd_width (pf_frame prev)) (fd_height (pf_frame prev)) r"
    "sorted_wrt (\<lambda>a b. \<not> rects_overlap a b) (map sp_inner_rect (sq_panes patch1))"
    using plan by (auto simp: patch_planned_def patch1_def list_all_iff)
  have dims: "length (fd_cells (pf_frame prev)) = fd_width (pf_frame prev) * fd_height (pf_frame prev)"
    "fd_width (pf_frame prev) \<le> u16_max" using last(3) by (auto simp: grid_ok_def)
  from apply_rows_overlay [OF rows(2) dims(1)] obtain c where
    c: "apply_rows (fd_cells (pf_frame prev)) (fd_width (pf_frame prev)) (sq_rows patch1) = Inr c" "length c = length (fd_cells (pf_frame prev))"
    using dims(1) by auto
  note base = patch_applied_baseline [OF c(1)]
  have grid: "grid_ok ?t" by (rule apply_patch_grid_ok [OF last(3) c])
  have assets: "gs_assets (pf_graphics ?t) = []" using last(4) by (simp add: apply_pane_surface_patch_def Let_def)
  then have wt: "without_assets ?t = ?t" by (simp add: without_assets_def)
  have head: "pf_boot_id prev = sq_boot_id patch" "pf_projection_revision prev = sq_projection_revision patch"
    "pf_surface_revision prev = sq_base_surface_revision patch"
    using prep prev by (auto simp: prepare_pane_surface_patch_def split: if_splits)
  have fields: "pf_surface_revision ?t = next_revision rs" "pf_projection_revision ?t = pf_projection_revision prev"
    by (simp_all add: apply_pane_surface_patch_def Let_def patch1_def)
  show ?thesis
  proof (cases "sq_hyperlink_uris patch = []")
    case False
    then have "links_valid ?t" using plan
      by (simp add: patch_planned_def links_valid_def patch1_def apply_pane_surface_patch_def Let_def)
    moreover have "prepare_pane_surface_with_file co rs ?t False = Inr (Some p)"
      using prep prev False head
      by (simp add: prepare_pane_surface_patch_def patch1_def next_revision_def prepare_pane_surface_def split: if_splits)
    ultimately obtain d' rs' where "receive co d (prepared_message p) = (d', Inr (MsgPaneSurface (?t\<lparr>pf_surface_revision := next_revision rs\<rparr>)))"
      "commit_sent_frame rs p = Inr rs'" "in_step rs' d'" "same_modes d d'"
      "rs_last_surface rs' = Some (?t\<lparr>pf_surface_revision := next_revision rs, pf_graphics := (pf_graphics ?t)\<lparr>gs_assets := []\<rparr>\<rparr>)"
      using surface_delivered [OF co step grid] prev fields(2) by fastforce
    moreover have "?t\<lparr>pf_surface_revision := next_revision rs\<rparr> = ?t" using fields(1) by simp
    ultimately show ?thesis by (auto simp: shown_def without_assets_def)
  next
    case True
    have pm: "patch_matches prev patch1" using head last(2)
      by (simp add: patch_matches_def patch1_def next_revision_def)
    have co': "scroll_lib_ok (co_scroll co)" using co by (simp add: codecs_ok_def)
    have "rthen (if rs_surface_scroll rs then scroll_message (co_scroll co) prev patch1 else Inr None) (\<lambda>scrolled.
        Inr (Some (case scrolled of Some message \<Rightarrow> PreparedPatch message (Some patch1)
                   | None \<Rightarrow> PreparedPatch (MsgPaneSurfacePatch patch1) None))) = Inr (Some p)"
      unfolding patch1_def next_revision_def using prep prev True head
      by (simp add: prepare_pane_surface_patch_def Let_def del: One_nat_def split: if_splits)
    then obtain msg enc where p: "p = PreparedPatch msg enc"
      and how: "msg = MsgPaneSurfacePatch patch1 \<and> enc = None \<or>
        rs_surface_scroll rs \<and> enc = Some patch1 \<and> scroll_message (co_scroll co) prev patch1 = Inr (Some msg)"
      by (auto simp: rthen_Inr_iff split: if_splits option.splits)
    define rs' where "rs' = rs\<lparr>rs_last_surface := Some ?t, rs_surface_revision := sq_surface_revision patch1\<rparr>"
    have commit: "commit_sent_frame rs p = Inr rs'" using how prev by (auto simp: p commit_sent_frame_def rs'_def)
    have linked: "in_step rs' d'" if "retains d' ?t" "same_modes d d'" for d'
      using that step grid assets fields(1) by (auto simp: in_step_def same_modes_def rs'_def patch1_def)
    have "\<exists>d' q. receive co d msg = (d', Inr (MsgPaneSurfacePatch q)) \<and> retains d' ?t \<and> same_modes d d' \<and>
        apply_pane_surface_patch prev q = ?t"
      using how
    proof
      assume "msg = MsgPaneSurfacePatch patch1 \<and> enc = None"
      with decode_plain_patch [OF last(1) pm rows(2) dims(1) c(1) base] show ?thesis by blast
    next
      assume *: "rs_surface_scroll rs \<and> enc = Some patch1 \<and> scroll_message (co_scroll co) prev patch1 = Inr (Some msg)"
      then have "de_surface_scroll d" using step by (simp add: in_step_def)
      from decode_scroll_patch [OF last(1) this pm co' dims(2) _ rows c(1) base, of msg "co_wire co" "co_reuse co"] *
      obtain d' q where "receive co d msg = (d', Inr (MsgPaneSurfacePatch q))" "retains d' ?t" "same_modes d d'"
        "apply_rows (fd_cells (pf_frame prev)) (fd_width (pf_frame prev)) (sq_rows q) = Inr c"
        "q\<lparr>sq_rows := sq_rows patch1\<rparr> = patch1" by blast
      with same_rows_same_surface [OF this(5,4) c(1)] show ?thesis by blast
    qed
    then obtain d' q where q: "receive co d msg = (d', Inr (MsgPaneSurfacePatch q))" "retains d' ?t" "same_modes d d'"
      "apply_pane_surface_patch prev q = ?t" by blast
    then show ?thesis using commit linked [OF q(2,3)]
      by (auto simp: p prepared_message_def shown_def apply_patch_without_assets rs'_def intro!: exI [of _ d'] exI [of _ "MsgPaneSurfacePatch q"])
  qed
qed

subsection \<open>Preparing a message never panics\<close>

definition sizes_calm :: "'s wire \<Rightarrow> bool" where
  "sizes_calm w \<longleftrightarrow> (\<forall>r. size_span w r \<noteq> Inl Panic) \<and> (\<forall>m. size_message w m \<noteq> Inl Panic)"

lemma rthen_Panic_iff: "rthen r f = Inl Panic \<longleftrightarrow> r = Inl Panic \<or> (\<exists>x. r = Inr x \<and> f x = Inl Panic)"
  by (cases r) auto

lemma keep_spans_calm: "sizes_calm w \<Longrightarrow> keep_spans w full_size kept sofar sps \<noteq> Inl Panic"
  by (induction sps arbitrary: kept sofar) (auto simp: sizes_calm_def rthen_Panic_iff split: if_splits)

lemma changed_rows_calm:
  assumes "sizes_calm w" and "length old = width * height" and "length new = width * height"
    and "width \<le> 65535" and "height \<le> 65535"
  shows "changed_rows w old new width full_size \<noteq> Inl Panic"
proof (cases "width = 0")
  case False
  then have "0 < width" by simp
  from grid_spans_apply [OF this assms(4) _ assms(5) assms(2,3), of 0 "[]"]
  show ?thesis using False keep_spans_calm [OF assms(1)] by (auto simp: changed_rows_def)
qed (simp add: changed_rows_def)

lemma popup_update_calm:
  assumes "sizes_calm w" and "metadata_fits surface"
  shows "popup_update w prev surface full_size \<noteq> Inl Panic"
proof (cases "pf_popup surface")
  case (Some p)
  then have "frame_metadata_fits (ps_frame p)" using assms(2) by (simp add: metadata_fits_def)
  note f = frame_metadata_fits_dims [OF this]
  have "changed_rows w cells (fd_cells (ps_frame p)) (fd_width (ps_frame p)) full_size \<noteq> Inl Panic"
    if "length cells = length (fd_cells (ps_frame p))" for cells
    using changed_rows_calm [OF assms(1) _ f(1,2,3)] that f(1) by simp
  then show ?thesis using Some
    by (auto simp: popup_update_def Let_def rthen_Panic_iff split: option.splits if_splits)
qed (simp add: popup_update_def)

lemma delta_message_calm:
  assumes "sizes_calm w"
  shows "delta_message w prev m \<noteq> Inl Panic"
proof (cases m)
  case (MsgPaneSurface s)
  show ?thesis
  proof (cases "pf_boot_id prev \<noteq> pf_boot_id s \<or> fd_width (pf_frame prev) \<noteq> fd_width (pf_frame s) \<or>
      fd_height (pf_frame prev) \<noteq> fd_height (pf_frame s) \<or>
      length (fd_cells (pf_frame prev)) \<noteq> fd_width (pf_frame s) * fd_height (pf_frame s) \<or> \<not> metadata_fits s")
    case True
    then show ?thesis unfolding MsgPaneSurface delta_message_def server_message.case by (simp only: if_True) simp
  next
    case False
    then have fits: "metadata_fits s" by simp
    then have "frame_metadata_fits (pf_frame s)" by (simp add: metadata_fits_def)
    note f = frame_metadata_fits_dims [OF this]
    have "changed_rows w (fd_cells (pf_frame prev)) (fd_cells (pf_frame s)) (fd_width (pf_frame s)) n \<noteq> Inl Panic" for n
      using changed_rows_calm [OF assms _ f(1,2,3)] False by simp
    moreover have "size_message w x \<noteq> Inl Panic" for x using assms by (simp add: sizes_calm_def)
    moreover note popup_update_calm [OF assms fits]
    ultimately show ?thesis
      unfolding MsgPaneSurface delta_message_def server_message.case if_not_P [OF False] Let_def
      by (auto simp: rthen_Panic_iff split: option.splits if_splits)
  qed
qed (simp_all add: delta_message_def)

lemma scroll_message_total: "\<exists>r. scroll_message sl prev patch = Inr r"
proof (cases "length (fd_cells (pf_frame prev)) = fd_width (pf_frame prev) * fd_height (pf_frame prev)")
  case True
  have "collected (pf_frame prev) (sq_rows patch) [] []" by (simp add: collected_def)
  from collect_scrolls_ok [OF True this, of "sq_panes patch"] obtain scrolls residual where
    "collect_scrolls prev patch (sq_panes patch) [] [] = Inr (scrolls, residual)" by (auto simp: MAX_SCROLLS_def)
  with True show ?thesis unfolding scroll_message_def Let_def by (auto split: sum.splits)
qed (simp add: scroll_message_def)

section \<open>The connection as a channel\<close>

text \<open>What the server does with a client: it renders a surface, restamps the committed one,
  sends a patch, or drops its baseline.  A prepared message is sent and committed.\<close>

datatype render_update =
    UpdateSurface pane_surface bool
  | UpdateRestamp u64
  | UpdatePatch surface_patch
  | UpdateReset
  | UpdateRepaint
  | UpdateRecompute

definition send_prepared :: "render_state \<Rightarrow> prepared_render option result \<Rightarrow> (server_message option \<times> render_state) result" where
  "send_prepared rs r = rthen r (\<lambda>p.
     case p of
       None \<Rightarrow> Inr (None, rs)
     | Some p \<Rightarrow> rthen (commit_sent_frame rs p) (\<lambda>rs'. Inr (Some (prepared_message p), rs')))"

definition render_send :: "'s codecs \<Rightarrow> render_state \<Rightarrow> render_update \<Rightarrow> (server_message option \<times> render_state) result" where
  "render_send co rs u =
     (case u of
        UpdateSurface s upload \<Rightarrow> send_prepared rs (prepare_pane_surface_with_file co rs s upload)
      | UpdateRestamp r \<Rightarrow> send_prepared rs (Inr (prepare_projection_restamp co rs r))
      | UpdatePatch patch \<Rightarrow> send_prepared rs (prepare_pane_surface_patch co rs patch)
      | UpdateReset \<Rightarrow> Inr (None, reset_baseline rs)
      | UpdateRepaint \<Rightarrow> Inr (None, request_repaint rs)
      | UpdateRecompute \<Rightarrow> Inr (None, request_recompute rs))"

text \<open>A rendered surface has a full grid and valid links, and the projection never goes
  back; a patch is planned against the committed surface.\<close>

definition render_admissible :: "'s codecs \<Rightarrow> render_state \<Rightarrow> render_update \<Rightarrow> bool" where
  "render_admissible co rs u \<longleftrightarrow>
     codecs_ok co \<and> sizes_calm (co_wire co) \<and>
     (case u of
        UpdateSurface s _ \<Rightarrow> grid_ok s \<and> links_valid s \<and>
          (\<forall>prev. rs_last_surface rs = Some prev \<longrightarrow> pf_projection_revision prev \<le> pf_projection_revision s)
      | UpdatePatch patch \<Rightarrow> (\<forall>prev. rs_last_surface rs = Some prev \<longrightarrow> patch_planned prev patch)
      | _ \<Rightarrow> True)"

definition render_agreed :: "render_state \<Rightarrow> surface_decoder \<Rightarrow> pane_surface option \<Rightarrow> bool" where
  "render_agreed rs d v \<longleftrightarrow> in_step rs d \<and>
     (\<forall>s. rs_last_surface rs = Some s \<longrightarrow> map_option without_assets v = Some s)"

lemma prepare_surface_total:
  assumes "sizes_calm (co_wire co)"
  shows "\<exists>r. prepare_pane_surface_with_file co rs s upload = Inr r"
proof -
  have "\<exists>r. logged (delta_message (co_wire co) prev m) = Inr r" for prev m
    using delta_message_calm [OF assms, of prev m]
    by (cases "delta_message (co_wire co) prev m") (auto simp: logged_def split: failure.splits)
  then have "\<exists>r. (case rs_last_surface rs of
      Some prev \<Rightarrow> if rs_surface_delta rs then logged (delta_message (co_wire co) prev m) else Inr None
    | None \<Rightarrow> Inr None) = Inr r" for m
    by (simp split: option.splits)
  then show ?thesis unfolding prepare_pane_surface_with_file_def Let_def by (metis rthen_simps(2))
qed

lemma prepare_patch_total:
  assumes "sizes_calm (co_wire co)"
  shows "\<exists>r. prepare_pane_surface_patch co rs patch = Inr r"
proof -
  have "\<exists>r. (if b then scroll_message (co_scroll co) prev q else Inr None) = Inr r" for b prev q
    using scroll_message_total by simp
  then show ?thesis using prepare_surface_total [OF assms]
    unfolding prepare_pane_surface_patch_def prepare_pane_surface_def Let_def
    by (auto split: option.splits) (metis rthen_simps(2))
qed

lemma send_prepared_quiet: "send_prepared rs r = Inr (None, rs') \<Longrightarrow> rs' = rs"
  by (auto simp: send_prepared_def rthen_Inr_iff split: option.splits)

lemma send_prepared_Some:
  "send_prepared rs r = Inr (Some m, rs') \<longleftrightarrow>
     (\<exists>p. r = Inr (Some p) \<and> commit_sent_frame rs p = Inr rs' \<and> m = prepared_message p)"
  by (auto simp: send_prepared_def rthen_Inr_iff split: option.splits)

text \<open>Each update: what is sent is accepted, and both sides agree again.\<close>

lemma agreed_after:
  assumes "in_step rs' d'" and "rs_last_surface rs' = Some t" and "map_option without_assets v' = Some t"
  shows "render_agreed rs' d' v'"
  using assms by (simp add: render_agreed_def)

lemma surface_sent:
  assumes "render_agreed rs d v" and "render_admissible co rs (UpdateSurface s upload)"
    and "prepare_pane_surface_with_file co rs s upload = Inr (Some p)"
  shows "\<exists>rs' d' out. commit_sent_frame rs p = Inr rs' \<and> receive co d (prepared_message p) = (d', Inr out) \<and>
    render_agreed rs' d' (shown v out)"
proof -
  from assms have "codecs_ok co" "in_step rs d" "grid_ok s" "links_valid s"
    "\<forall>prev. rs_last_surface rs = Some prev \<longrightarrow> pf_projection_revision prev \<le> pf_projection_revision s"
    by (auto simp: render_admissible_def render_agreed_def)
  from surface_delivered [OF this assms(3)] show ?thesis
    by (fastforce simp: shown_def without_assets_def intro: agreed_after)
qed

lemma restamp_sent:
  assumes "render_agreed rs d v" and "render_admissible co rs u" and "prepare_projection_restamp co rs r = Some p"
  shows "\<exists>rs' d' out. commit_sent_frame rs p = Inr rs' \<and> receive co d (prepared_message p) = (d', Inr out) \<and>
    render_agreed rs' d' (shown v out)"
proof -
  from assms(1,2) have "codecs_ok co" and step: "in_step rs d" by (auto simp: render_admissible_def render_agreed_def)
  from restamp_delivered [OF this assms(3)] obtain prev d' rs' where last: "rs_last_surface rs = Some prev"
    and d': "receive co d (prepared_message p) =
       (d', Inr (MsgPaneSurface (prev\<lparr>pf_projection_revision := r, pf_surface_revision := next_revision rs\<rparr>)))"
    and c: "commit_sent_frame rs p = Inr rs'" "in_step rs' d'"
      "rs_last_surface rs' = Some (prev\<lparr>pf_projection_revision := r, pf_surface_revision := next_revision rs\<rparr>)" by metis
  have "gs_assets (pf_graphics prev) = []" using step last by (auto simp: in_step_def)
  then have "map_option without_assets (shown v (MsgPaneSurface (prev\<lparr>pf_projection_revision := r, pf_surface_revision := next_revision rs\<rparr>))) =
      Some (prev\<lparr>pf_projection_revision := r, pf_surface_revision := next_revision rs\<rparr>)"
    by (simp add: shown_def without_assets_def)
  from agreed_after [OF c(2,3) this] c(1) d' show ?thesis by blast
qed

lemma patch_sent:
  assumes "render_agreed rs d v" and "render_admissible co rs (UpdatePatch patch)"
    and "prepare_pane_surface_patch co rs patch = Inr (Some p)"
  shows "\<exists>rs' d' out. commit_sent_frame rs p = Inr rs' \<and> receive co d (prepared_message p) = (d', Inr out) \<and>
    render_agreed rs' d' (shown v out)"
proof -
  from assms(3) obtain prev where prev: "rs_last_surface rs = Some prev"
    by (auto simp: prepare_pane_surface_patch_def split: if_splits option.splits)
  from assms(1) prev obtain view where view: "v = Some view" "without_assets view = prev"
    by (auto simp: render_agreed_def)
  from assms prev have "codecs_ok co" "in_step rs d" "patch_planned prev patch"
    by (auto simp: render_admissible_def render_agreed_def)
  from patch_delivered [OF this(1,2) prev this(3) assms(3)] view show ?thesis
    by (metis agreed_after)
qed

lemma send_prepared_agreed:
  assumes "r = Inr q" and "\<And>p. q = Some p \<Longrightarrow> \<exists>rs' d' out. commit_sent_frame rs p = Inr rs' \<and>
      receive co d (prepared_message p) = (d', Inr out) \<and> render_agreed rs' d' (shown v out)"
    and "render_agreed rs d v"
  shows "send_prepared rs r \<noteq> Inl e"
    and "send_prepared rs r = Inr (None, rs') \<Longrightarrow> render_agreed rs' d v"
    and "send_prepared rs r = Inr (Some m, rs') \<Longrightarrow>
      \<exists>d' out. receive co d m = (d', Inr out) \<and> render_agreed rs' d' (shown v out)"
proof -
  show "send_prepared rs r \<noteq> Inl e" using assms(1,2) by (cases q) (fastforce simp: send_prepared_def)+
  show "send_prepared rs r = Inr (None, rs') \<Longrightarrow> render_agreed rs' d v"
    using assms(3) send_prepared_quiet by blast
  show "send_prepared rs r = Inr (Some m, rs') \<Longrightarrow>
      \<exists>d' out. receive co d m = (d', Inr out) \<and> render_agreed rs' d' (shown v out)"
    using assms(1,2) by (fastforce simp: send_prepared_Some)
qed

lemma render_send_agreed:
  assumes a: "render_agreed rs d v" and ad: "render_admissible co rs u"
  shows "render_send co rs u \<noteq> Inl e"
    and "render_send co rs u = Inr (None, rs') \<Longrightarrow> render_agreed rs' d v"
    and "render_send co rs u = Inr (Some m, rs') \<Longrightarrow>
      \<exists>d' out. receive co d m = (d', Inr out) \<and> render_agreed rs' d' (shown v out)"
proof -
  have calm: "sizes_calm (co_wire co)" using ad by (simp add: render_admissible_def)
  have forget: "render_agreed (reset_baseline rs) d v" "render_agreed (request_repaint rs) d v" "render_agreed (request_recompute rs) d v"
    using a in_step_requests [of rs d]
    by (auto simp: render_agreed_def reset_baseline_def request_repaint_def request_recompute_def)
  have "render_send co rs u \<noteq> Inl e \<and> (render_send co rs u = Inr (None, rs') \<longrightarrow> render_agreed rs' d v) \<and>
    (render_send co rs u = Inr (Some m, rs') \<longrightarrow> (\<exists>d' out. receive co d m = (d', Inr out) \<and> render_agreed rs' d' (shown v out)))"
  proof (cases u)
    case (UpdateSurface s upload)
    obtain q where "prepare_pane_surface_with_file co rs s upload = Inr q" using prepare_surface_total [OF calm] by blast
    from send_prepared_agreed [OF this, of rs co d v] surface_sent [OF a ad [unfolded UpdateSurface]] a this
    show ?thesis by (simp add: UpdateSurface render_send_def)
  next
    case (UpdateRestamp r)
    from send_prepared_agreed [OF refl, of "prepare_projection_restamp co rs r" rs co d v] restamp_sent [OF a ad] a
    show ?thesis by (simp add: UpdateRestamp render_send_def)
  next
    case (UpdatePatch patch)
    obtain q where "prepare_pane_surface_patch co rs patch = Inr q" using prepare_patch_total [OF calm] by blast
    from send_prepared_agreed [OF this, of rs co d v] patch_sent [OF a ad [unfolded UpdatePatch]] a this
    show ?thesis by (simp add: UpdatePatch render_send_def)
  qed (use forget in \<open>auto simp: render_send_def\<close>)
  then show "render_send co rs u \<noteq> Inl e"
    and "render_send co rs u = Inr (None, rs') \<Longrightarrow> render_agreed rs' d v"
    and "render_send co rs u = Inr (Some m, rs') \<Longrightarrow>
      \<exists>d' out. receive co d m = (d', Inr out) \<and> render_agreed rs' d' (shown v out)" by blast+
qed

interpretation render_channel: lossless_channel "render_send co" "receive co" shown "render_admissible co" render_agreed
  for co :: "'s codecs"
  by unfold_locales (rule render_send_agreed; assumption)+

lemma largest_asset_Some:
  "largest_asset i as = Some (n, k) \<Longrightarrow>
     i \<le> k \<and> k < i + length as \<and> n = length (ga_data (as ! (k - i))) \<and> (\<forall>j<length as. (length (ga_data (as ! j)), i + j) \<le> (n, k))"
proof (induction i as arbitrary: n k rule: largest_asset.induct)
  case (2 i a as)
  show ?case
  proof (cases "largest_asset (Suc i) as")
    case None
    then have "as = []" by (cases as) (auto split: option.splits if_splits)
    with "2.prems" show ?thesis by simp
  next
    case (Some best)
    obtain m l where best: "best = (m, l)" by (cases best)
    note IH = "2.IH" [OF Some [unfolded best]]
    have all: "\<forall>j<length as. (length (ga_data (as ! j)), i + Suc j) \<le> (m, l)" using IH by auto
    show ?thesis
    proof (cases "best < (length (ga_data a), i)")
      case True
      then have nk: "n = length (ga_data a)" "k = i" using "2.prems" Some by auto
      have "(length (ga_data ((a # as) ! j)), i + j) \<le> (n, k)" if "j < length (a # as)" for j
        using that all True nk best by (cases j) (auto intro: order_trans less_imp_le)
      with nk show ?thesis by simp
    next
      case False
      then have nk: "n = m" "k = l" using "2.prems" Some best by auto
      have "(length (ga_data ((a # as) ! j)), i + j) \<le> (n, k)" if "j < length (a # as)" for j
        using that all False nk best by (cases j) auto
      moreover have "l - i = Suc (l - Suc i)" using IH by auto
      then have "(a # as) ! (l - i) = as ! (l - Suc i)" by simp
      ultimately show ?thesis using IH nk by auto
    qed
  qed
qed simp

section \<open>Properties of the render stream\<close>

subsection \<open>A connection that has just been negotiated\<close>

definition ex_codecs :: "(token list) codecs" where
  "ex_codecs = \<lparr>co_wire = ex_wire, co_scroll = ex_lib, co_reuse = ex_reuse\<rparr>"

definition ex_fresh :: render_state where
  "ex_fresh = enable_surface_delta True (enable_surface_scroll True render_state_new)"

definition ex_sent :: "pane_surface \<Rightarrow> render_state" where
  "ex_sent s = ex_fresh\<lparr>rs_surface_revision := pf_surface_revision s, rs_last_surface := Some s\<rparr>"

definition ex_asset :: "nat \<Rightarrow> graphics_asset" where
  "ex_asset n = \<lparr>ga_key = \<lparr>ak_source = SourceTerminal (TargetPane ''p'') n, ak_image_width = 1, ak_image_height = 1,
     ak_format = FormatRgb, ak_data_len = n, ak_data_fingerprint = 0\<rparr>, ga_data = replicate n 0\<rparr>"

lemma ex_codecs_ok: "codecs_ok ex_codecs" "sizes_calm (co_wire ex_codecs)"
  using ex_lib_ok token_wire_ok
  by (auto simp: codecs_ok_def ex_codecs_def ex_wire_def reuse_lib_ok_def ex_reuse_def sizes_calm_def token_wire_def
      split: server_message.splits)

lemma ex_surfaces_fine: "grid_ok ex_prev" "links_valid ex_prev" "grid_ok ex_next" "links_valid ex_next"
  by (simp_all add: grid_ok_def links_valid_def links_in_table_def ex_next_def ex_prev_def ex_frame_def ex_cell_def u16_max_def)

lemma ex_first_send: "render_send ex_codecs ex_fresh (UpdateSurface ex_prev False) = Inr (Some (MsgPaneSurface ex_prev), ex_sent ex_prev)"
proof -
  have rev: "ex_prev\<lparr>pf_surface_revision := sat_add u64_max 0 1\<rparr> = ex_prev" "gs_assets (pf_graphics ex_prev) = []"
    "ex_prev\<lparr>pf_graphics := (pf_graphics ex_prev)\<lparr>gs_assets := []\<rparr>\<rparr> = ex_prev"
    by (simp_all add: ex_prev_def sat_add_def u64_max_def)
  have st: "rs_last_surface ex_fresh = None" "rs_surface_revision ex_fresh = 0"
    by (simp_all add: ex_fresh_def enable_surface_delta_def enable_surface_scroll_def render_state_new_def)
  have "prepare_pane_surface_with_file ex_codecs ex_fresh ex_prev False = Inr (Some (PreparedSemantic (MsgPaneSurface ex_prev) ex_prev []))"
    unfolding prepare_pane_surface_with_file_def Let_def st rev by (simp add: rev)
  moreover have "ex_fresh\<lparr>rs_surface_revision := pf_surface_revision ex_prev, rs_last_surface := Some ex_prev, rs_recompute_pending := False\<rparr> = ex_sent ex_prev"
    by (simp add: ex_sent_def ex_fresh_def enable_surface_delta_def enable_surface_scroll_def render_state_new_def)
  ultimately show ?thesis by (simp add: render_send_def send_prepared_def commit_sent_frame_def prepared_message_def)
qed

lemma ex_second_send:
  "render_send ex_codecs (ex_sent ex_prev) (UpdateSurface ex_next False) = Inr (Some (MsgEndpointControl DELTA_KIND ''a''), ex_sent ex_next)"
proof -
  have frames: "pf_frame ex_prev \<noteq> pf_frame ex_next" by (simp add: ex_prev_def ex_next_def ex_frame_def ex_cell_inj)
  have rev: "ex_next\<lparr>pf_surface_revision := sat_add u64_max 1 1\<rparr> = ex_next" "pf_surface_revision ex_prev = 1" "pf_surface_revision ex_next = 2"
    "ex_next\<lparr>pf_graphics := (pf_graphics ex_next)\<lparr>gs_assets := []\<rparr>\<rparr> = ex_next" "gs_assets (pf_graphics ex_next) = []"
    by (simp_all add: ex_next_def ex_prev_def sat_add_def u64_max_def)
  have st: "rs_last_surface (ex_sent ex_prev) = Some ex_prev" "rs_surface_revision (ex_sent ex_prev) = 1" "rs_surface_delta (ex_sent ex_prev)"
    "\<not> rs_recompute_pending (ex_sent ex_prev)"
    by (simp_all add: ex_sent_def ex_fresh_def enable_surface_delta_def enable_surface_scroll_def render_state_new_def rev)
  have "prepare_pane_surface_with_file ex_codecs (ex_sent ex_prev) ex_next False =
      Inr (Some (PreparedSemantic (MsgEndpointControl DELTA_KIND ''a'') ex_next []))"
    unfolding prepare_pane_surface_with_file_def Let_def st rev using frames ex_delta_message
    by (simp add: unchanged_surface_def logged_def ex_codecs_def st rev)
  moreover have "(ex_sent ex_prev)\<lparr>rs_surface_revision := pf_surface_revision ex_next, rs_last_surface := Some ex_next, rs_recompute_pending := False\<rparr> = ex_sent ex_next"
    by (simp add: ex_sent_def ex_fresh_def enable_surface_delta_def enable_surface_scroll_def render_state_new_def)
  ultimately show ?thesis by (simp add: render_send_def send_prepared_def commit_sent_frame_def prepared_message_def)
qed

subsection \<open>Properties\<close>



text \<open>
  Shedding image data from a message that is too large takes the largest payload first,
  of equal ones the last in the scene, keeps the others in order, and leaves everything else of
  the surface, its placements included, as it was.
\<close>

theorem pop_asset_takes_largest:
  assumes "pop_pane_surface_asset (PreparedSemantic (MsgPaneSurface s) committed queued) = (p, Some key)"
  shows "\<exists>before a rest. gs_assets (pf_graphics s) = before @ a # rest \<and> ga_key a = key \<and>
    (\<forall>b\<in>set before. length (ga_data b) \<le> length (ga_data a)) \<and>
    (\<forall>b\<in>set rest. length (ga_data b) < length (ga_data a)) \<and>
    prepared_message p = MsgPaneSurface (s\<lparr>pf_graphics := (pf_graphics s)\<lparr>gs_assets := before @ rest\<rparr>\<rparr>)"
proof -
  let ?as = "gs_assets (pf_graphics s)"
  from assms obtain n i where big: "largest_asset 0 ?as = Some (n, i)" and key: "key = ga_key (?as ! i)"
    and p: "prepared_message p = MsgPaneSurface (s\<lparr>pf_graphics := (pf_graphics s)\<lparr>gs_assets := remove_at i ?as\<rparr>\<rparr>)"
    by (auto simp: pop_pane_surface_asset_def Let_def prepared_message_def split: option.splits)
  note l = largest_asset_Some [OF big, simplified]
  have split: "?as = take i ?as @ ?as ! i # drop (Suc i) ?as" using l by (simp add: id_take_nth_drop)
  moreover have "\<forall>b\<in>set (take i ?as). length (ga_data b) \<le> length (ga_data (?as ! i))"
    using l by (auto simp: in_set_conv_nth less_eq_prod_def) (metis less_trans order_less_imp_le)
  moreover have "length (ga_data b) < length (ga_data (?as ! i))" if "b \<in> set (drop (Suc i) ?as)" for b
  proof -
    from that obtain j where j: "j < length (drop (Suc i) ?as)" "b = drop (Suc i) ?as ! j" by (auto simp: in_set_conv_nth)
    then have "Suc i + j < length ?as" "b = ?as ! (Suc i + j)" by auto
    with l show ?thesis by (fastforce simp: less_eq_prod_def)
  qed
  ultimately show ?thesis using key p
    by (intro exI [of _ "take i ?as"] exI [of _ "?as ! i"] exI [of _ "drop (Suc i) ?as"]) (simp add: remove_at_def)
qed

theorem pop_asset_takes_largest_witness:
  "\<exists>p. pop_pane_surface_asset (PreparedSemantic (MsgPaneSurface (ex_prev\<lparr>pf_graphics := (pf_graphics ex_prev)\<lparr>gs_assets := [ex_asset 1, ex_asset 3, ex_asset 2]\<rparr>\<rparr>)) ex_prev [])
      = (p, Some (ga_key (ex_asset 3))) \<and>
    prepared_message p = MsgPaneSurface (ex_prev\<lparr>pf_graphics := (pf_graphics ex_prev)\<lparr>gs_assets := [ex_asset 1, ex_asset 2]\<rparr>\<rparr>)"
proof -
  let ?s = "ex_prev\<lparr>pf_graphics := (pf_graphics ex_prev)\<lparr>gs_assets := [ex_asset 1, ex_asset 3, ex_asset 2]\<rparr>\<rparr>"
  have big: "largest_asset 0 [ex_asset 1, ex_asset 3, ex_asset 2] = Some (3, 1)" by (simp add: ex_asset_def less_prod_def)
  obtain p where p: "pop_pane_surface_asset (PreparedSemantic (MsgPaneSurface ?s) ex_prev []) = (p, Some (ga_key (ex_asset 3)))"
    by (simp add: pop_pane_surface_asset_def big [simplified] Let_def)
  have inj: "ex_asset a = ex_asset b \<longleftrightarrow> a = b" for a b by (auto simp: ex_asset_def)
  from pop_asset_takes_largest [OF p] obtain before a rest where
    "[ex_asset 1, ex_asset 3, ex_asset 2] = before @ a # rest" "\<forall>b\<in>set before. length (ga_data b) \<le> length (ga_data a)"
    "\<forall>b\<in>set rest. length (ga_data b) < length (ga_data a)"
    "prepared_message p = MsgPaneSurface (?s\<lparr>pf_graphics := (pf_graphics ?s)\<lparr>gs_assets := before @ rest\<rparr>\<rparr>)" by auto
  then have "before = [ex_asset 1] \<and> rest = [ex_asset 2]"
    by (auto simp: Cons_eq_append_conv ex_asset_def)
  with p \<open>prepared_message p = _\<close> show ?thesis by auto
qed

end
