(* ===== verification/ClientPatch.thy ===== *)
theory ClientPatch
  imports RenderStream
begin

section \<open>Surface patches at the client\<close>

text \<open>
  \<open>src/src/client/shell/surface_patch.rs\<close>: what the shell of a client does with a surface
  patch.  The guards of \<open>ClientShellState::apply_pane_surface_patch\<close>, the loops that write
  rows and panes, the choice between the fast path (the surface changes in place, the hit map
  of the panes is brought up to date and the changed rows are handed to the terminal) and the
  full path (the patched copy goes to \<open>set_pane_surface\<close>).  The state is the part of
  \<open>ClientShellState\<close> these functions read and write; an optional field of which only the
  presence matters is a Boolean.  The area of the surface on the screen, which
  \<open>ClientShellState::layout\<close> computes, is an argument.  After the fast path the shell also drops
  a copied selection, a hovered link and an input source that are no longer valid, and
  \<open>set_pane_surface\<close> has rules of its own: these are outside this theory.
\<close>

subsection \<open>Rows and panes\<close>

definition row_fits_frame :: "patch_row \<Rightarrow> frame_data \<Rightarrow> bool" where
  "row_fits_frame row frame \<longleftrightarrow>
     sat_add u16_max (pr_x row) (min (length (pr_cells row)) u16_max) \<le> fd_width frame \<and> pr_y row < fd_height frame"

definition apply_row :: "patch_row \<Rightarrow> frame_data \<Rightarrow> bool \<times> frame_data" where
  "apply_row row frame =
     (if \<not> row_fits_frame row frame then (False, frame)
      else
        let start = pr_y row * fd_width frame + pr_x row; e = start + length (pr_cells row) in
        if e > length (fd_cells frame) then (False, frame)
        else (True, frame\<lparr>fd_cells := take start (fd_cells frame) @ pr_cells row @ drop e (fd_cells frame)\<rparr>))"

fun apply_row_list :: "patch_row list \<Rightarrow> frame_data \<Rightarrow> bool \<times> frame_data" where
  "apply_row_list [] frame = (True, frame)"
| "apply_row_list (row # rows) frame =
     (case apply_row row frame of
        (False, frame') \<Rightarrow> (False, frame')
      | (True, frame') \<Rightarrow> apply_row_list rows frame')"

fun apply_pane_list :: "surface_pane list \<Rightarrow> surface_pane list \<Rightarrow> bool \<times> surface_pane list" where
  "apply_pane_list [] panes = (True, panes)"
| "apply_pane_list (updated # rest) panes =
     (case position (\<lambda>pane. sp_pane_id pane = sp_pane_id updated) panes of
        None \<Rightarrow> (False, panes)
      | Some i \<Rightarrow> apply_pane_list rest (panes[i := updated]))"

text \<open>The surface is changed in place: a refusal in the middle leaves what was written.\<close>

definition apply_patch_to_surface :: "pane_surface \<Rightarrow> surface_patch \<Rightarrow> bool \<times> pane_surface" where
  "apply_patch_to_surface surface patch =
     (let linked = (pf_frame surface)\<lparr>fd_hyperlinks := fd_hyperlinks (pf_frame surface) @ sq_hyperlink_uris patch\<rparr>;
          (rows_ok, frame) = apply_row_list (sq_rows patch) linked in
      if \<not> rows_ok then (False, surface\<lparr>pf_frame := frame\<rparr>)
      else
        let (panes_ok, panes) = apply_pane_list (sq_panes patch) (pf_panes surface) in
        if \<not> panes_ok then (False, surface\<lparr>pf_frame := frame, pf_panes := panes\<rparr>)
        else (True, surface\<lparr>pf_frame := frame\<lparr>fd_cursor := sq_cursor patch\<rparr>, pf_panes := panes,
                            pf_surface_revision := sq_surface_revision patch\<rparr>))"

subsection \<open>The state of the shell\<close>

datatype client_shell_mode = ModeTerminal | ModePrefix | ModeNavigate | ModeResize | ModeCopy

record pane_hit =
  ph_rect :: surface_rect
  ph_inner_rect :: surface_rect
  ph_scrollbar_rect :: "surface_rect option"
  ph_scroll :: "scroll_metrics option"
  ph_pane_id :: string
  ph_popup :: bool
  ph_mouse_reporting :: bool
  ph_sgr_pixel_mouse :: bool
  ph_pixel_width :: u32
  ph_pixel_height :: u32

text \<open>Of the hovered link: whether it has regions, and the pane it is in.\<close>

record link_hover =
  lh_has_regions :: bool
  lh_pane_id :: string

record client_shell =
  cl_pane_surface :: "pane_surface option"
  cl_pane_surface_generation :: u64
  cl_active_snapshot_generation :: u64
  cl_mode :: client_shell_mode
  cl_overlay :: bool
  cl_endpoint_error :: bool
  cl_config_diagnostic :: bool
  cl_visible_endpoint_notice :: bool
  cl_visible_notification :: bool
  cl_copy_feedback :: bool
  cl_link_hover :: "link_hover option"
  cl_selection :: bool
  cl_selection_capture :: bool
  cl_copy_mode :: bool
  cl_selection_highlight_clear_deadline :: bool
  cl_hits :: "pane_hit list"
  cl_pane_scroll_targets :: "string \<rightharpoonup> usize"

definition link_hover_blocks_patch :: "client_shell \<Rightarrow> surface_patch \<Rightarrow> bool" where
  "link_hover_blocks_patch cl patch =
     (case cl_link_hover cl of
        None \<Rightarrow> False
      | Some hover \<Rightarrow> lh_has_regions hover \<and> list_ex (\<lambda>pane. sp_pane_id pane = lh_pane_id hover) (sq_panes patch))"

definition fast_path_blocker :: "client_shell \<Rightarrow> surface_patch \<Rightarrow> string option" where
  "fast_path_blocker cl patch =
     (if cl_mode cl \<noteq> ModeTerminal then Some ''client_surface_patch.fallback.mode''
      else if cl_overlay cl then Some ''client_surface_patch.fallback.overlay''
      else if cl_endpoint_error cl then Some ''client_surface_patch.fallback.endpoint_error''
      else if cl_config_diagnostic cl then Some ''client_surface_patch.fallback.config_diagnostic''
      else if cl_visible_endpoint_notice cl then Some ''client_surface_patch.fallback.endpoint_notice''
      else if cl_visible_notification cl then Some ''client_surface_patch.fallback.notification''
      else if cl_copy_feedback cl then Some ''client_surface_patch.fallback.copy_feedback''
      else if link_hover_blocks_patch cl patch then Some ''client_surface_patch.fallback.link_hover''
      else if cl_selection cl \<or> cl_selection_capture cl then Some ''client_surface_patch.fallback.selection''
      else if cl_copy_mode cl then Some ''client_surface_patch.fallback.copy_mode''
      else if cl_selection_highlight_clear_deadline cl then Some ''client_surface_patch.fallback.selection_deadline''
      else if sq_hyperlink_uris patch \<noteq> [] \<or>
              list_ex (\<lambda>row. list_ex (\<lambda>cell. cd_hyperlink cell \<noteq> None) (pr_cells row)) (sq_rows patch)
           then Some ''client_surface_patch.fallback.hyperlinks''
      else if list_ex (\<lambda>pane. \<not> list_ex (\<lambda>hit. ph_pane_id hit = sp_pane_id pane) (cl_hits cl)) (sq_panes patch)
           then Some ''client_surface_patch.fallback.pane_hits''
      else None)"

subsection \<open>The guards\<close>

definition pane_geometry_matches :: "surface_pane \<Rightarrow> surface_pane \<Rightarrow> bool" where
  "pane_geometry_matches left right \<longleftrightarrow>
     sp_pane_id left = sp_pane_id right \<and> sp_rect left = sp_rect right \<and> sp_inner_rect left = sp_inner_rect right \<and>
     sp_focused left = sp_focused right \<and> sp_pixel_width left = sp_pixel_width right \<and>
     sp_pixel_height left = sp_pixel_height right"

definition patch_follows :: "client_shell \<Rightarrow> pane_surface \<Rightarrow> surface_patch \<Rightarrow> bool" where
  "patch_follows cl current patch \<longleftrightarrow>
     cl_pane_surface_generation cl = cl_active_snapshot_generation cl \<and> sq_boot_id patch = pf_boot_id current \<and>
     sq_projection_revision patch = pf_projection_revision current \<and>
     sq_base_surface_revision patch = pf_surface_revision current \<and>
     sq_surface_revision patch = sat_add u64_max (pf_surface_revision current) 1 \<and>
     pf_popup current = None \<and> gs_placements (pf_graphics current) = [] \<and> gs_retained_assets (pf_graphics current) = []"

definition pane_known :: "pane_surface \<Rightarrow> surface_pane \<Rightarrow> bool" where
  "pane_known current updated =
     (case find (\<lambda>pane. sp_pane_id pane = sp_pane_id updated) (pf_panes current) of
        None \<Rightarrow> False
      | Some existing \<Rightarrow> pane_geometry_matches existing updated)"

definition row_in_pane :: "pane_surface \<Rightarrow> patch_row \<Rightarrow> surface_pane \<Rightarrow> bool" where
  "row_in_pane current row pane =
     (let inner = sp_inner_rect pane;
          terminal_row = (pr_x row \<ge> sr_x inner \<and> pr_y row \<ge> sr_y inner \<and>
            pr_y row < sat_add u16_max (sr_y inner) (sr_height inner) \<and>
            sat_add u16_max (pr_x row) (min (length (pr_cells row)) u16_max)
              \<le> sat_add u16_max (sr_x inner) (sr_width inner));
          scrollbar_rect = (case sp_scrollbar_rect pane of
              Some rect \<Rightarrow> Some rect
            | None \<Rightarrow> (case find (\<lambda>existing. sp_pane_id existing = sp_pane_id pane) (pf_panes current) of
                None \<Rightarrow> None | Some existing \<Rightarrow> sp_scrollbar_rect existing));
          scrollbar_row = (case scrollbar_rect of
              None \<Rightarrow> False
            | Some rect \<Rightarrow> pr_x row = sr_x rect \<and> pr_y row \<ge> sr_y rect \<and>
                pr_y row < sat_add u16_max (sr_y rect) (sr_height rect) \<and> length (pr_cells row) = sr_width rect)
      in terminal_row \<or> scrollbar_row)"

definition row_acceptable :: "pane_surface \<Rightarrow> surface_patch \<Rightarrow> patch_row \<Rightarrow> bool" where
  "row_acceptable current patch row \<longleftrightarrow>
     row_fits_frame row (pf_frame current) \<and> pr_cells row \<noteq> [] \<and> list_ex (row_in_pane current row) (sq_panes patch)"

definition accepts_patch :: "client_shell \<Rightarrow> pane_surface \<Rightarrow> surface_patch \<Rightarrow> bool" where
  "accepts_patch cl current patch \<longleftrightarrow>
     patch_follows cl current patch \<and> list_all (pane_known current) (sq_panes patch) \<and>
     list_all (row_acceptable current patch) (sq_rows patch)"

subsection \<open>Applying a patch\<close>

record composed_patch =
  cp_rows :: "patch_row list"
  cp_cursor :: "cursor_state option"

definition composed_surface_patch :: "surface_rect \<Rightarrow> surface_patch \<Rightarrow> composed_patch" where
  "composed_surface_patch area patch =
     \<lparr>cp_rows = map (\<lambda>row. \<lparr>pr_x = sat_add u16_max (sr_x area) (pr_x row), pr_y = sat_add u16_max (sr_y area) (pr_y row),
                            pr_cells = pr_cells row\<rparr>) (sq_rows patch),
      cp_cursor = map_option (\<lambda>cursor. \<lparr>cs_x = sat_add u16_max (sr_x area) (cs_x cursor),
        cs_y = sat_add u16_max (sr_y area) (cs_y cursor), cs_visible = cs_visible cursor, cs_shape = cs_shape cursor\<rparr>)
        (sq_cursor patch)\<rparr>"

definition update_hit :: "surface_rect \<Rightarrow> surface_pane \<Rightarrow> pane_hit \<Rightarrow> pane_hit" where
  "update_hit area updated hit =
     hit\<lparr>ph_scrollbar_rect := map_option (\<lambda>rect. \<lparr>sr_x = sat_add u16_max (sr_x area) (sr_x rect),
           sr_y = sat_add u16_max (sr_y area) (sr_y rect), sr_width = sr_width rect, sr_height = sr_height rect\<rparr>)
           (sp_scrollbar_rect updated),
         ph_scroll := sp_scroll updated, ph_mouse_reporting := sp_mouse_reporting updated,
         ph_sgr_pixel_mouse := sp_sgr_pixel_mouse updated, ph_pixel_width := sp_pixel_width updated,
         ph_pixel_height := sp_pixel_height updated\<rparr>"

definition settle_scroll_target :: "surface_pane \<Rightarrow> (string \<rightharpoonup> usize) \<Rightarrow> string \<rightharpoonup> usize" where
  "settle_scroll_target updated targets =
     (case (targets (sp_pane_id updated), sp_scroll updated) of
        (Some target, Some scroll) \<Rightarrow>
          if sm_offset_from_bottom scroll = min target (sm_max_offset_from_bottom scroll)
          then targets(sp_pane_id updated := None) else targets
      | _ \<Rightarrow> targets)"

text \<open>A pane that has no hit target is passed over, its scroll target included.\<close>

definition refresh_hit :: "surface_rect \<Rightarrow> surface_pane \<Rightarrow> client_shell \<Rightarrow> client_shell" where
  "refresh_hit area updated cl =
     (case position (\<lambda>hit. ph_pane_id hit = sp_pane_id updated) (cl_hits cl) of
        None \<Rightarrow> cl
      | Some i \<Rightarrow> cl\<lparr>cl_hits := (cl_hits cl)[i := update_hit area updated (cl_hits cl ! i)],
                     cl_pane_scroll_targets := settle_scroll_target updated (cl_pane_scroll_targets cl)\<rparr>)"

text \<open>
  The outcome, and for the full path the surface that is passed to \<open>set_pane_surface\<close>.
\<close>

datatype patch_outcome =
    PatchRejected
  | AppliedInPlace composed_patch
  | AppliedInFull pane_surface

definition client_apply_patch :: "surface_rect \<Rightarrow> client_shell \<Rightarrow> surface_patch \<Rightarrow> patch_outcome \<times> client_shell" where
  "client_apply_patch area cl patch =
     (case cl_pane_surface cl of
        None \<Rightarrow> (PatchRejected, cl)
      | Some current \<Rightarrow>
          if \<not> accepts_patch cl current patch then (PatchRejected, cl)
          else if fast_path_blocker cl patch = None then
            let (applied, surface) = apply_patch_to_surface current patch; cl' = cl\<lparr>cl_pane_surface := Some surface\<rparr> in
            if \<not> applied then (PatchRejected, cl')
            else (AppliedInPlace (composed_surface_patch area patch), fold (refresh_hit area) (sq_panes patch) cl')
          else
            let (applied, next) = apply_patch_to_surface current patch in
            if \<not> applied then (PatchRejected, cl) else (AppliedInFull next, cl))"

subsection \<open>The client's loops against the server's\<close>

text \<open>A surface that a client can display: a full grid that a coordinate can address.\<close>

definition displayable :: "pane_surface \<Rightarrow> bool" where
  "displayable s \<longleftrightarrow> grid_ok s \<and> fd_width (pf_frame s) < u16_max"

lemma fitting_row_in_grid:
  assumes "row_fits_frame row f" and "length (fd_cells f) = fd_width f * fd_height f" and "fd_width f < u16_max"
  shows "pr_y row * fd_width f + pr_x row + length (pr_cells row) \<le> length (fd_cells f)"
proof -
  have x: "pr_x row + length (pr_cells row) \<le> fd_width f" and y: "Suc (pr_y row) \<le> fd_height f"
    using assms by (auto simp: row_fits_frame_def machine_simps min_def split: if_splits)
  have "pr_y row * fd_width f + fd_width f \<le> fd_height f * fd_width f"
    using mult_le_mono1 [OF y, of "fd_width f"] by simp
  with x assms(2) show ?thesis by (simp add: mult.commute)
qed

lemma apply_row_fits:
  assumes "row_fits_frame row f" and "length (fd_cells f) = fd_width f * fd_height f" and "fd_width f < u16_max"
  shows "\<exists>cells. write_slice (fd_cells f) (pr_y row * fd_width f + pr_x row) (pr_cells row) = Inr cells \<and>
    apply_row row f = (True, f\<lparr>fd_cells := cells\<rparr>) \<and> length cells = length (fd_cells f)"
  using assms fitting_row_in_grid [OF assms] by (auto simp: apply_row_def write_slice_def Let_def)

lemma row_fits_frame_cells [simp]: "row_fits_frame row (f\<lparr>fd_cells := cells\<rparr>) \<longleftrightarrow> row_fits_frame row f"
  by (simp add: row_fits_frame_def)

lemma apply_row_list_is_server:
  assumes "\<forall>row\<in>set rows. row_fits_frame row f" and "length (fd_cells f) = fd_width f * fd_height f"
    and "fd_width f < u16_max"
  shows "apply_row_list rows f = (True, f\<lparr>fd_cells := write_patch_rows (fd_width f) rows (fd_cells f)\<rparr>)"
  using assms
proof (induction rows arbitrary: f)
  case Nil
  then show ?case by simp
next
  case (Cons row rows)
  then obtain cells where step: "write_slice (fd_cells f) (pr_y row * fd_width f + pr_x row) (pr_cells row) = Inr cells"
    "apply_row row f = (True, f\<lparr>fd_cells := cells\<rparr>)" "length cells = length (fd_cells f)"
    using apply_row_fits [of row f] by auto
  show ?case using Cons.prems step by (simp add: Cons.IH)
qed

lemma replace_pane_at:
  "position (\<lambda>pane. sp_pane_id pane = sp_pane_id u) panes = Some i \<Longrightarrow> replace_pane u panes = panes[i := u]"
  by (induction panes arbitrary: i) (auto split: if_splits)

lemma replace_pane_ids [simp]: "map sp_pane_id (replace_pane u panes) = map sp_pane_id panes"
  by (induction panes) auto

lemma apply_pane_list_is_server:
  assumes "\<forall>u\<in>set us. sp_pane_id u \<in> set (map sp_pane_id panes)"
  shows "apply_pane_list us panes = (True, fold replace_pane us panes)"
  using assms
proof (induction us arbitrary: panes)
  case Nil
  then show ?case by simp
next
  case (Cons u us)
  from Cons.prems obtain p where "p \<in> set panes" "sp_pane_id p = sp_pane_id u" by auto
  then obtain i where i: "position (\<lambda>pane. sp_pane_id pane = sp_pane_id u) panes = Some i"
    using position_Some_ex [of p panes "\<lambda>pane. sp_pane_id pane = sp_pane_id u"] by auto
  have "\<forall>v\<in>set us. sp_pane_id v \<in> set (map sp_pane_id (replace_pane u panes))"
    using Cons.prems unfolding replace_pane_ids by simp
  from Cons.IH [OF this] show ?case by (simp add: i replace_pane_at [OF i])
qed

lemma pane_known_id: "pane_known s u \<Longrightarrow> sp_pane_id u \<in> set (map sp_pane_id (pf_panes s))"
  by (auto simp: pane_known_def find_Some_iff split: option.splits) (metis imageI nth_mem)

lemma accepted_patch_applies:
  assumes "accepts_patch cl s patch" and "displayable s"
  shows "apply_patch_to_surface s patch = (True, apply_pane_surface_patch s patch)"
proof -
  let ?f = "(pf_frame s)\<lparr>fd_hyperlinks := fd_hyperlinks (pf_frame s) @ sq_hyperlink_uris patch\<rparr>"
  have "\<forall>row\<in>set (sq_rows patch). row_fits_frame row ?f"
    using assms(1) by (auto simp: accepts_patch_def row_acceptable_def list_all_iff row_fits_frame_def)
  moreover have "length (fd_cells ?f) = fd_width ?f * fd_height ?f" "fd_width ?f < u16_max"
    using assms(2) by (auto simp: displayable_def grid_ok_def)
  ultimately have rows: "apply_row_list (sq_rows patch) ?f =
      (True, ?f\<lparr>fd_cells := write_patch_rows (fd_width ?f) (sq_rows patch) (fd_cells ?f)\<rparr>)"
    by (rule apply_row_list_is_server)
  have "\<forall>u\<in>set (sq_panes patch). sp_pane_id u \<in> set (map sp_pane_id (pf_panes s))"
    using assms(1) pane_known_id by (auto simp: accepts_patch_def list_all_iff)
  from apply_pane_list_is_server [OF this] rows show ?thesis
    by (simp add: apply_patch_to_surface_def apply_pane_surface_patch_def)
qed

lemma refresh_hit_surface [simp]: "cl_pane_surface (refresh_hit area u cl) = cl_pane_surface cl"
  by (simp add: refresh_hit_def split: option.split)

lemma refresh_hits_surface [simp]: "cl_pane_surface (fold (refresh_hit area) us cl) = cl_pane_surface cl"
  by (induction us arbitrary: cl) auto

text \<open>
  C17. A client that holds a displayable surface applies a patch exactly as the server does:
  an accepted patch is never refused half-way, whichever path it takes, and the surface that
  results is the one the server computed when it committed the patch; a patch that is not
  accepted leaves the client as it was.
\<close>

theorem client_applies_patch_as_server:
  assumes "cl_pane_surface cl = Some s" and "displayable s"
  shows "case client_apply_patch area cl patch of
      (PatchRejected, cl') \<Rightarrow> \<not> accepts_patch cl s patch \<and> cl' = cl
    | (AppliedInPlace composed, cl') \<Rightarrow>
        accepts_patch cl s patch \<and> cl_pane_surface cl' = Some (apply_pane_surface_patch s patch) \<and>
        sq_hyperlink_uris patch = [] \<and> cp_rows composed =
          map (\<lambda>row. row\<lparr>pr_x := sat_add u16_max (sr_x area) (pr_x row), pr_y := sat_add u16_max (sr_y area) (pr_y row)\<rparr>)
            (sq_rows patch)
    | (AppliedInFull next, cl') \<Rightarrow>
        accepts_patch cl s patch \<and> cl' = cl \<and> next = apply_pane_surface_patch s patch"
proof (cases "accepts_patch cl s patch")
  case True
  note applied = accepted_patch_applies [OF this assms(2)]
  have links: "sq_hyperlink_uris patch = []" if "fast_path_blocker cl patch = None"
    using that by (simp add: fast_path_blocker_def split: if_splits)
  show ?thesis
    using True assms(1) links by (simp add: client_apply_patch_def applied composed_surface_patch_def)
next
  case False
  with assms(1) show ?thesis by (simp add: client_apply_patch_def)
qed

subsection \<open>A patch on a concrete surface\<close>

definition ex_shell :: client_shell where
  "ex_shell = \<lparr>cl_pane_surface = Some ex_prev, cl_pane_surface_generation = 3, cl_active_snapshot_generation = 3,
     cl_mode = ModeTerminal, cl_overlay = False, cl_endpoint_error = False, cl_config_diagnostic = False,
     cl_visible_endpoint_notice = False, cl_visible_notification = False, cl_copy_feedback = False,
     cl_link_hover = None, cl_selection = False, cl_selection_capture = False, cl_copy_mode = False,
     cl_selection_highlight_clear_deadline = False,
     cl_hits = [\<lparr>ph_rect = ex_rect, ph_inner_rect = ex_rect, ph_scrollbar_rect = None, ph_scroll = None,
       ph_pane_id = ''p'', ph_popup = False, ph_mouse_reporting = True, ph_sgr_pixel_mouse = False,
       ph_pixel_width = 0, ph_pixel_height = 0\<rparr>],
     cl_pane_scroll_targets = Map.empty\<rparr>"

lemmas ex_shell_simps = ex_shell_def ex_prev_def ex_frame_def ex_pane_def ex_rect_def ex_patch_def ex_rows_def ex_row_def ex_cell_def

lemma ex_shell_accepts: "accepts_patch ex_shell ex_prev (ex_patch ex_rows)"
  by (simp add: accepts_patch_def patch_follows_def pane_known_def pane_geometry_matches_def row_acceptable_def
      row_fits_frame_def row_in_pane_def ex_shell_simps machine_simps)

lemma ex_shell_fast: "fast_path_blocker ex_shell (ex_patch ex_rows) = None"
  by (simp add: fast_path_blocker_def link_hover_blocks_patch_def ex_shell_simps)

theorem client_applies_patch_as_server_witness:
  "cl_pane_surface (snd (client_apply_patch ex_rect ex_shell (ex_patch ex_rows))) =
     Some (apply_pane_surface_patch ex_prev (ex_patch ex_rows))"
proof -
  have shown: "cl_pane_surface ex_shell = Some ex_prev" by (simp add: ex_shell_def)
  have grid: "displayable ex_prev"
    by (simp add: displayable_def grid_ok_def ex_prev_def ex_frame_def machine_simps)
  have "fst (client_apply_patch ex_rect ex_shell (ex_patch ex_rows)) =
      AppliedInPlace (composed_surface_patch ex_rect (ex_patch ex_rows))"
    by (simp add: client_apply_patch_def shown ex_shell_accepts ex_shell_fast accepted_patch_applies [OF ex_shell_accepts grid])
  with client_applies_patch_as_server [where area = ex_rect and patch = "ex_patch ex_rows", OF shown grid]
  show ?thesis by (simp split: prod.splits)
qed

end
