(* ===== verification/Text.thy ===== *)
theory Text
  imports Prelude "HOL-Library.Sublist"
begin

section \<open>Display text: whitespace, clipping, output cleaning and markdown\<close>

text \<open>
  The text helpers of \<open>harness/text.rs\<close>, which every line shown to the user about an agent
  goes through.  A Rust \<open>char\<close> is its code point and a string a list of code points; the
  byte length of a string is the sum of the UTF-8 lengths of its characters.  The
  character classes are those of the standard library: \<open>is_control\<close> is the category Cc and
  \<open>is_whitespace\<close> the property White\_Space.

  \<open>compact_count_rounded\<close> formats a double and is not modelled.
\<close>

type_synonym uchar = nat
type_synonym ustring = "uchar list"

named_theorems text_simps \<open>character classes and string operations\<close>

subsection \<open>Characters and strings of the standard library\<close>

definition is_control :: "uchar \<Rightarrow> bool" where
  "is_control c \<longleftrightarrow> c \<le> 31 \<or> 127 \<le> c \<and> c \<le> 159"

definition is_whitespace :: "uchar \<Rightarrow> bool" where
  "is_whitespace c \<longleftrightarrow> 9 \<le> c \<and> c \<le> 13 \<or> c = 32 \<or> c = 133 \<or> c = 160 \<or> c = 5760 \<or>
     8192 \<le> c \<and> c \<le> 8202 \<or> c = 8232 \<or> c = 8233 \<or> c = 8239 \<or> c = 8287 \<or> c = 12288"

definition is_ascii_alphanumeric :: "uchar \<Rightarrow> bool" where
  "is_ascii_alphanumeric c \<longleftrightarrow> 48 \<le> c \<and> c \<le> 57 \<or> 65 \<le> c \<and> c \<le> 90 \<or> 97 \<le> c \<and> c \<le> 122"

definition utf8_len :: "uchar \<Rightarrow> nat" where
  "utf8_len c = (if c < 128 then 1 else if c < 2048 then 2 else if c < 65536 then 3 else 4)"

definition byte_len :: "ustring \<Rightarrow> nat" where
  "byte_len s = sum_list (map utf8_len s)"

definition ellipsis :: uchar where
  "ellipsis = 8230"

definition trim_start_by :: "(uchar \<Rightarrow> bool) \<Rightarrow> ustring \<Rightarrow> ustring" where
  "trim_start_by P s = dropWhile P s"

definition trim_end_by :: "(uchar \<Rightarrow> bool) \<Rightarrow> ustring \<Rightarrow> ustring" where
  "trim_end_by P s = rev (dropWhile P (rev s))"

definition trim :: "ustring \<Rightarrow> ustring" where
  "trim s = trim_end_by is_whitespace (trim_start_by is_whitespace s)"

definition starts_with :: "ustring \<Rightarrow> ustring \<Rightarrow> bool" where
  "starts_with p s \<longleftrightarrow> take (length p) s = p"

definition strip_prefix :: "ustring \<Rightarrow> ustring \<Rightarrow> ustring option" where
  "strip_prefix p s = (if starts_with p s then Some (drop (length p) s) else None)"

text \<open>\<open>str::lines\<close>: a final newline ends the last line, and a carriage return before a newline belongs to it.\<close>

fun split_newlines :: "ustring \<Rightarrow> ustring \<Rightarrow> ustring list" where
  "split_newlines line [] = (if line = [] then [] else [line])"
| "split_newlines line (c # cs) =
     (if c = 10
      then (if line \<noteq> [] \<and> last line = 13 then butlast line else line) # split_newlines [] cs
      else split_newlines (line @ [c]) cs)"

definition str_lines :: "ustring \<Rightarrow> ustring list" where
  "str_lines s = split_newlines [] s"

fun join :: "ustring \<Rightarrow> ustring list \<Rightarrow> ustring" where
  "join sep [] = []"
| "join sep [x] = x"
| "join sep (x # y # ys) = x @ sep @ join sep (y # ys)"

lemmas [text_simps] = is_control_def is_whitespace_def ellipsis_def trim_def trim_start_by_def trim_end_by_def

subsection \<open>Whitespace and clipping\<close>

abbreviation blank :: "uchar \<Rightarrow> bool" where
  "blank c \<equiv> is_whitespace c \<or> is_control c"

fun collapse_loop :: "ustring \<Rightarrow> bool \<Rightarrow> ustring \<Rightarrow> ustring" where
  "collapse_loop out pending_space [] = out"
| "collapse_loop out pending_space (c # cs) =
     (if blank c then collapse_loop out (out \<noteq> []) cs
      else collapse_loop ((if pending_space then out @ [32] else out) @ [c]) False cs)"

definition collapse :: "ustring \<Rightarrow> ustring" where
  "collapse text = collapse_loop [] False text"

definition clip_chars :: "ustring \<Rightarrow> nat \<Rightarrow> ustring" where
  "clip_chars text max_chars =
     take max_chars text @ (if drop max_chars text \<noteq> [] then [ellipsis] else [])"

definition fit_chars :: "ustring \<Rightarrow> nat \<Rightarrow> ustring" where
  "fit_chars text max_chars =
     (if length text \<le> max_chars then text
      else if max_chars = 0 then []
      else take (max_chars - 1) text @ [ellipsis])"

text \<open>
  A byte offset is a character boundary when some prefix of the string has that byte length;
  slicing there takes this prefix.
\<close>

fun split_at_byte :: "nat \<Rightarrow> ustring \<Rightarrow> ustring option" where
  "split_at_byte n [] = (if n = 0 then Some [] else None)"
| "split_at_byte n (c # cs) =
     (if n = 0 then Some []
      else if n < utf8_len c then None
      else map_option (Cons c) (split_at_byte (n - utf8_len c) cs))"

definition is_char_boundary :: "ustring \<Rightarrow> nat \<Rightarrow> bool" where
  "is_char_boundary text n \<longleftrightarrow> split_at_byte n text \<noteq> None"

fun boundary_down :: "ustring \<Rightarrow> nat \<Rightarrow> nat" where
  "boundary_down text 0 = 0"
| "boundary_down text (Suc n) = (if is_char_boundary text (Suc n) then Suc n else boundary_down text n)"

definition clip_bytes :: "ustring \<Rightarrow> nat \<Rightarrow> ustring option" where
  "clip_bytes text max_bytes =
     (if byte_len text \<le> max_bytes then Some text
      else split_at_byte (boundary_down text max_bytes) text)"

definition clean_line :: "ustring \<Rightarrow> nat \<Rightarrow> ustring option" where
  "clean_line text max_chars =
     (let line = collapse text in if line \<noteq> [] then Some (fit_chars line max_chars) else None)"

subsection \<open>Counts, identifiers and cursors\<close>

definition decimal :: "nat \<Rightarrow> ustring" where
  "decimal n = map of_char (show_nat n)"

definition compact_count :: "u64 \<Rightarrow> ustring" where
  "compact_count value =
     (if value < 1000 then decimal value
      else if value < 1000000 then decimal (value div 1000) @ [46] @ decimal (value mod 1000 div 100) @ [107]
      else decimal (value div 1000000) @ [46] @ decimal (value mod 1000000 div 100000) @ [77])"

definition first_line :: "ustring \<Rightarrow> ustring option" where
  "first_line text = List.find (\<lambda>line. line \<noteq> []) (map trim (str_lines text))"

definition is_plain_identifier :: "ustring \<Rightarrow> nat \<Rightarrow> bool" where
  "is_plain_identifier text max_len \<longleftrightarrow>
     text \<noteq> [] \<and> byte_len text \<le> max_len \<and>
     (\<forall>c\<in>set text. is_ascii_alphanumeric c \<or> c = 45 \<or> c = 95)"

text \<open>
  \<open>u64::from_str\<close>: an optional plus sign, then at least one digit, with every intermediate
  value checked against the range.
\<close>

fun parse_digits :: "u64 \<Rightarrow> ustring \<Rightarrow> u64 option" where
  "parse_digits acc [] = Some acc"
| "parse_digits acc (c # cs) =
     (if 48 \<le> c \<and> c \<le> 57 \<and> acc * 10 + (c - 48) \<le> u64_max
      then parse_digits (acc * 10 + (c - 48)) cs else None)"

definition parse_u64 :: "ustring \<Rightarrow> u64 option" where
  "parse_u64 s =
     (let digits = (case s of c # cs \<Rightarrow> if c = 43 then cs else s | [] \<Rightarrow> [])
      in if digits = [] then None else parse_digits 0 digits)"

definition parse_offset :: "ustring \<Rightarrow> u64 option" where
  "parse_offset cursor = parse_u64 (trim cursor)"

definition keep_line_breaks :: "ustring \<Rightarrow> ustring" where
  "keep_line_breaks text = filter (\<lambda>c. \<not> is_control c \<or> c = 10 \<or> c = 9) text"

subsection \<open>Cleaning tool output\<close>

text \<open>After \<open>ESC [\<close> everything up to and including the final byte of the sequence is dropped.\<close>

fun skip_csi :: "ustring \<Rightarrow> ustring" where
  "skip_csi [] = []"
| "skip_csi (c # cs) = (if 64 \<le> c \<and> c \<le> 126 then cs else skip_csi cs)"

lemma skip_csi_length: "length (skip_csi cs) \<le> length cs"
  by (induction cs) auto

definition skip_escape :: "ustring \<Rightarrow> ustring" where
  "skip_escape cs = (case cs of [] \<Rightarrow> [] | c # rest \<Rightarrow> if c = 91 then skip_csi rest else rest)"

lemma skip_escape_length [termination_simp]: "length (skip_escape cs) < Suc (length cs)"
  using skip_csi_length [of "tl cs"] by (cases cs) (auto simp: skip_escape_def less_Suc_eq_le)

fun clean_output_loop :: "nat \<Rightarrow> bool \<Rightarrow> ustring \<Rightarrow> nat \<Rightarrow> ustring \<Rightarrow> ustring" where
  "clean_output_loop max_chars keep_newlines out kept [] = out"
| "clean_output_loop max_chars keep_newlines out kept (c # cs) =
     (if c = 27 then clean_output_loop max_chars keep_newlines out kept (skip_escape cs)
      else if is_control c \<and> \<not> (c = 9 \<or> keep_newlines \<and> c = 10)
      then clean_output_loop max_chars keep_newlines out kept cs
      else if kept = max_chars then out @ [ellipsis]
      else clean_output_loop max_chars keep_newlines
             ((if c = 10 then trim_end_by (\<lambda>d. d = 32 \<or> d = 9) out else out) @ [c]) (kept + 1) cs)"

definition clean_output :: "ustring \<Rightarrow> nat \<Rightarrow> bool \<Rightarrow> ustring" where
  "clean_output text max_chars keep_newlines =
     trim_end_by is_whitespace (clean_output_loop max_chars keep_newlines [] 0 text)"

subsection \<open>Markdown\<close>

text \<open>The text and the rest after \<open>[text](target)\<close>, once its opening bracket is read.\<close>

definition markdown_link :: "ustring \<Rightarrow> (ustring \<times> ustring) option" where
  "markdown_link cs =
     (case position (\<lambda>c. c = 93) cs of
        None \<Rightarrow> None
      | Some close \<Rightarrow>
          (case drop (close + 1) cs of
             [] \<Rightarrow> None
           | c # target \<Rightarrow>
               if c = 40
               then (case position (\<lambda>c. c = 41) target of
                       None \<Rightarrow> None
                     | Some e \<Rightarrow> Some (take close cs, drop (e + 1) target))
               else None))"

lemma markdown_link_length [termination_simp]:
  "markdown_link cs = Some (t, rest) \<Longrightarrow> length rest < Suc (length cs)"
proof -
  assume "markdown_link cs = Some (t, rest)"
  then obtain k c target e where "drop (Suc k) cs = c # target" "rest = drop (Suc e) target"
    by (auto simp: markdown_link_def split: option.splits list.splits if_splits)
  moreover have "length (drop (Suc k) cs) \<le> length cs" by simp
  ultimately show ?thesis by simp
qed

fun strip_inline_markdown :: "ustring \<Rightarrow> ustring" where
  "strip_inline_markdown [] = []"
| "strip_inline_markdown (c # cs) =
     (if c = 42 \<or> c = 96 then strip_inline_markdown cs
      else if c = 126 \<and> cs \<noteq> [] \<and> hd cs = 126 then strip_inline_markdown (tl cs)
      else if c = 33 \<and> cs \<noteq> [] \<and> hd cs = 91 then strip_inline_markdown cs
      else if c = 91
      then (case markdown_link cs of
              Some (label, rest) \<Rightarrow> label @ strip_inline_markdown rest
            | None \<Rightarrow> c # strip_inline_markdown cs)
      else c # strip_inline_markdown cs)"

definition list_prefixes :: "ustring list" where
  "list_prefixes = [[45, 32, 91, 32, 93, 32], [45, 32, 91, 120, 93, 32], [45, 32], [42, 32], [43, 32]]"

fun find_map :: "('a \<Rightarrow> 'b option) \<Rightarrow> 'a list \<Rightarrow> 'b option" where
  "find_map f [] = None"
| "find_map f (x # xs) = (case f x of Some y \<Rightarrow> Some y | None \<Rightarrow> find_map f xs)"

definition strip_line_markdown :: "ustring \<Rightarrow> ustring option" where
  "strip_line_markdown raw =
     (let line = trim raw in
      if starts_with [96, 96, 96] line \<or> starts_with [126, 126, 126] line then None
      else
        let line = trim_start_by is_whitespace (trim_start_by (\<lambda>c. c = 35) line);
            line = trim_start_by is_whitespace (trim_start_by (\<lambda>c. c = 62) line);
            line = (case find_map (\<lambda>p. strip_prefix p line) list_prefixes of Some l \<Rightarrow> l | None \<Rightarrow> line)
        in Some (strip_inline_markdown line))"

definition strip_markdown :: "ustring \<Rightarrow> ustring" where
  "strip_markdown text = collapse (join [32] (List.map_filter strip_line_markdown (str_lines text)))"

definition summary_text :: "ustring \<Rightarrow> nat \<Rightarrow> ustring option" where
  "summary_text text max_chars = clean_line (strip_markdown text) max_chars"

subsection \<open>Collapsing whitespace is joining words\<close>

lemma length_dropWhile_less [termination_simp]: "length (dropWhile P xs) < Suc (length xs)"
  using length_dropWhile_le [of P xs] by simp

text \<open>The words of a text: its maximal runs of characters that are not blank.\<close>

fun words :: "ustring \<Rightarrow> ustring list" where
  "words [] = []"
| "words (c # cs) =
     (if blank c then words cs
      else (c # takeWhile (\<lambda>d. \<not> blank d) cs) # words (dropWhile (\<lambda>d. \<not> blank d) cs))"

lemma words_not_blank: "w \<in> set (words t) \<Longrightarrow> w \<noteq> [] \<and> (\<forall>c\<in>set w. \<not> blank c)"
proof (induction t rule: words.induct)
  case (2 c cs)
  show ?case
  proof (cases "blank c")
    case True
    with 2 show ?thesis by simp
  next
    case False
    with "2.prems" have "w = c # takeWhile (\<lambda>d. \<not> blank d) cs \<or> w \<in> set (words (dropWhile (\<lambda>d. \<not> blank d) cs))"
      by simp
    then show ?thesis
    proof
      assume "w = c # takeWhile (\<lambda>d. \<not> blank d) cs"
      with False show ?thesis by (auto dest: set_takeWhileD)
    qed (use "2.IH"(2) False in blast)
  qed
qed simp

lemma filter_dropWhile_takeWhile: "takeWhile P xs @ filter P (dropWhile P xs) = filter P xs"
  by (induction xs) auto

lemma concat_words: "concat (words t) = filter (\<lambda>c. \<not> blank c) t"
  by (induction t rule: words.induct) (simp_all add: filter_dropWhile_takeWhile)

lemma join_Cons: "join sep (x # xs) = x @ (if xs = [] then [] else sep @ join sep xs)"
  by (cases xs) auto

lemma collapse_loop_words:
  "collapse_loop [] False cs = join [32] (words cs)"
  "out \<noteq> [] \<Longrightarrow> collapse_loop out True cs = out @ (if words cs = [] then [] else 32 # join [32] (words cs))"
  "out \<noteq> [] \<Longrightarrow> collapse_loop out False cs =
     out @ takeWhile (\<lambda>d. \<not> blank d) cs @
       (let ws = words (dropWhile (\<lambda>d. \<not> blank d) cs) in if ws = [] then [] else 32 # join [32] ws)"
  by (induction cs arbitrary: out) (simp_all add: join_Cons Let_def)

lemma collapse_words: "collapse t = join [32] (words t)"
  by (simp add: collapse_def collapse_loop_words(1))

lemma blank_space [simp]: "blank 32" "is_whitespace 32"
  by (simp_all add: text_simps)

lemma not_control_space [simp]: "\<not> is_control 32"
  by (simp add: text_simps)

lemma words_append_space:
  assumes "w \<noteq> []" and "\<forall>c\<in>set w. \<not> blank c"
  shows "words (w @ 32 # t) = w # words t" and "words w = [w]"
proof -
  obtain c cs where "w = c # cs" "\<not> blank c" "\<forall>d\<in>set cs. \<not> blank d"
    using assms by (cases w) auto
  moreover from this have "takeWhile (\<lambda>d. \<not> blank d) (cs @ 32 # t) = cs"
    and "dropWhile (\<lambda>d. \<not> blank d) (cs @ 32 # t) = 32 # t"
    and "takeWhile (\<lambda>d. \<not> blank d) cs = cs" and "words (dropWhile (\<lambda>d. \<not> blank d) cs) = []"
    by (auto simp: takeWhile_tail dropWhile_eq_Nil_conv [THEN iffD2])
  ultimately show "words (w @ 32 # t) = w # words t" "words w = [w]" by auto
qed

lemma words_join:
  "(\<forall>w\<in>set ws. w \<noteq> [] \<and> (\<forall>c\<in>set w. \<not> blank c)) \<Longrightarrow> words (join [32] ws) = ws"
proof (induction ws rule: induct_list012)
  case (3 x y zs)
  then show ?case using words_append_space(1) [of x "join [32] (y # zs)"] by simp
qed (auto simp: words_append_space)

lemma collapse_collapse [simp]: "collapse (collapse t) = collapse t"
  by (simp add: collapse_words words_join words_not_blank)

lemma join_chars: "c \<in> set (join sep ws) \<Longrightarrow> c \<in> set sep \<or> (\<exists>w\<in>set ws. c \<in> set w)"
  by (induction ws rule: induct_list012) auto

lemma collapse_chars: "c \<in> set (collapse t) \<Longrightarrow> c = 32 \<or> \<not> blank c"
  using words_not_blank by (auto simp: collapse_words dest: join_chars)

text \<open>
  C18.  Collapsing a text is joining its words with single spaces: the words are not empty
  and hold no whitespace or control character, they keep every other character of the text
  in order, and collapsing once more changes nothing.
\<close>

theorem collapse_joins_words:
  "collapse t = join [32] (words t) \<and>
   list_all (\<lambda>w. w \<noteq> [] \<and> list_all (\<lambda>c. \<not> is_whitespace c \<and> \<not> is_control c) w) (words t) \<and>
   concat (words t) = filter (\<lambda>c. \<not> (is_whitespace c \<or> is_control c)) t \<and>
   collapse (collapse t) = collapse t"
  using words_not_blank by (auto simp: collapse_words [symmetric] concat_words list_all_iff)

subsection \<open>Clipping at a byte limit takes the longest prefix that fits\<close>

lemma utf8_len_pos [simp]: "utf8_len c \<noteq> 0"
  by (simp add: utf8_len_def)

lemma byte_len_simps [simp]:
  "byte_len [] = 0" "byte_len (c # s) = utf8_len c + byte_len s" "byte_len (s @ t) = byte_len s + byte_len t"
  by (simp_all add: byte_len_def)

lemma byte_len_eq_0 [simp]: "byte_len s = 0 \<longleftrightarrow> s = []"
  by (cases s) (auto simp: less_not_refl2)

lemma split_at_byte_Some: "split_at_byte n s = Some p \<longleftrightarrow> (\<exists>k. p = take k s \<and> byte_len p = n)"
proof (induction s arbitrary: n p)
  case Nil
  then show ?case by auto
next
  case (Cons c s)
  have "(\<exists>k. p = take k (c # s) \<and> byte_len p = n) \<longleftrightarrow>
      p = [] \<and> n = 0 \<or> (\<exists>q k. p = c # q \<and> q = take k s \<and> utf8_len c + byte_len q = n)"
  proof -
    have "(\<exists>k. P (take k (c # s))) \<longleftrightarrow> P [] \<or> (\<exists>k. P (c # take k s))" for P
      by (metis take0 take_Suc_Cons not0_implies_Suc)
    from this [of "\<lambda>q. p = q \<and> byte_len p = n"] show ?thesis by auto
  qed
  also have "\<dots> \<longleftrightarrow> split_at_byte n (c # s) = Some p"
  proof (cases "n = 0")
    case True
    then show ?thesis by auto
  next
    case n: False
    show ?thesis
    proof (cases "n < utf8_len c")
      case True
      with n show ?thesis by auto
    next
      case False
      then have "utf8_len c + byte_len q = n \<longleftrightarrow> byte_len q = n - utf8_len c" for q by arith
      with n False show ?thesis by (auto simp: Cons.IH map_option_eq_Some)
    qed
  qed
  finally show ?case by simp
qed

lemma boundary_down_spec:
  "boundary_down t n \<le> n \<and> is_char_boundary t (boundary_down t n) \<and>
   (\<forall>k. is_char_boundary t k \<longrightarrow> k \<le> n \<longrightarrow> k \<le> boundary_down t n)"
proof (induction n)
  case 0
  then show ?case by (cases t) (auto simp: is_char_boundary_def)
next
  case (Suc n)
  then show ?case by (auto simp: le_Suc_eq)
qed

lemma is_char_boundary_iff: "is_char_boundary t n \<longleftrightarrow> (\<exists>k. byte_len (take k t) = n)"
  using split_at_byte_Some [of n t] by (auto simp: is_char_boundary_def)

lemma byte_len_take_mono: "j \<le> k \<Longrightarrow> byte_len (take j t) \<le> byte_len (take k t)"
proof -
  assume "j \<le> k"
  then have "take k t = take j t @ take (k - j) (drop j t)"
    by (metis le_add_diff_inverse take_add)
  then show ?thesis by simp
qed

lemma take_eq_by_byte_len:
  assumes "byte_len (take j t) \<le> byte_len (take k t)" shows "prefix (take j t) (take k t)"
proof (cases "j \<le> k")
  case True
  then show ?thesis by (metis min.absorb1 take_is_prefix take_take)
next
  case False
  then obtain u where u: "take j t = take k t @ u"
    by (metis nat_le_linear min.absorb1 prefixE take_is_prefix take_take)
  with assms show ?thesis by simp
qed

text \<open>
  C19.  Clipping to a byte limit never cuts a character: it returns a prefix of the text
  within the limit, and every prefix within the limit is a prefix of the result.
\<close>

theorem clip_bytes_longest_prefix:
  "\<exists>s. clip_bytes t n = Some s \<and> prefix s t \<and> byte_len s \<le> n \<and>
       (\<forall>p. prefix p t \<and> byte_len p \<le> n \<longrightarrow> prefix p s)"
proof (cases "byte_len t \<le> n")
  case True
  then show ?thesis by (auto simp: clip_bytes_def)
next
  case False
  define b where "b = boundary_down t n"
  have b: "b \<le> n" "is_char_boundary t b" "\<And>k. is_char_boundary t k \<Longrightarrow> k \<le> n \<Longrightarrow> k \<le> b"
    using boundary_down_spec [of t n] by (auto simp: b_def)
  then obtain j where j: "byte_len (take j t) = b" by (auto simp: is_char_boundary_iff)
  have "prefix p (take j t)" if "prefix p t" "byte_len p \<le> n" for p
  proof -
    from that(1) obtain i where i: "p = take i t" by (metis append_eq_conv_conj prefixE)
    with that(2) b(3) j have "byte_len (take i t) \<le> byte_len (take j t)"
      by (auto simp: is_char_boundary_iff)
    with i show ?thesis using take_eq_by_byte_len by simp
  qed
  moreover have "clip_bytes t n = Some (take j t)"
    using False j split_at_byte_Some [of b t "take j t"] by (auto simp: clip_bytes_def b_def)
  ultimately show ?thesis using b(1) j take_is_prefix by auto
qed

theorem clip_bytes_longest_prefix_witness:
  "clip_bytes [97, 200] 2 = Some [97] \<and> prefix [97] [97, 200] \<and> byte_len [97] \<le> 2"
proof -
  have u: "utf8_len 97 = Suc 0" "utf8_len 200 = Suc (Suc 0)" by (simp_all add: utf8_len_def)
  have "clip_bytes [97, 200] 2 = Some [97]"
    by (simp add: clip_bytes_def u is_char_boundary_def numeral_2_eq_2)
  with clip_bytes_longest_prefix [of "[97, 200]" 2] show ?thesis by auto
qed

subsection \<open>Cleaned output\<close>

text \<open>What a cleaned text may hold: no control character but those asked for, and no line with trailing blanks.\<close>

definition clean_char :: "bool \<Rightarrow> uchar \<Rightarrow> bool" where
  "clean_char keep_newlines c \<longleftrightarrow> \<not> is_control c \<or> c = 9 \<or> keep_newlines \<and> c = 10"

fun lines_trimmed :: "ustring \<Rightarrow> bool" where
  "lines_trimmed (c # d # s) \<longleftrightarrow> (d = 10 \<longrightarrow> c \<noteq> 32 \<and> c \<noteq> 9) \<and> lines_trimmed (d # s)"
| "lines_trimmed _ \<longleftrightarrow> True"

lemma trim_end_by_split: "\<exists>b. s = trim_end_by P s @ b \<and> (\<forall>c\<in>set b. P c)"
proof -
  have "s = rev (dropWhile P (rev s)) @ rev (takeWhile P (rev s))"
    by (metis rev_append rev_rev_ident takeWhile_dropWhile_id)
  then show ?thesis by (metis set_rev set_takeWhileD trim_end_by_def)
qed

lemma trim_end_by_set: "set (trim_end_by P s) \<subseteq> set s"
  using trim_end_by_split [of s P] by (metis Un_upper1 set_append)

lemma trim_end_by_length: "length (trim_end_by P s) \<le> length s"
  using trim_end_by_split [of s P] by (metis le_add1 length_append)

lemma trim_end_by_last: "trim_end_by P s \<noteq> [] \<Longrightarrow> \<not> P (last (trim_end_by P s))"
  using hd_dropWhile [of P "rev s"] by (auto simp: trim_end_by_def last_rev)

lemma trim_end_by_fixed: "s = [] \<or> \<not> P (last s) \<Longrightarrow> trim_end_by P s = s"
  by (cases s rule: rev_cases) (auto simp: trim_end_by_def)

lemma lines_trimmed_append: "lines_trimmed (s @ t) \<Longrightarrow> lines_trimmed s"
  by (induction s rule: lines_trimmed.induct) auto

lemma lines_trimmed_trim_end: "lines_trimmed s \<Longrightarrow> lines_trimmed (trim_end_by P s)"
  using trim_end_by_split [of s P] lines_trimmed_append by metis

lemma lines_trimmed_snoc:
  "lines_trimmed (s @ [c]) \<longleftrightarrow> lines_trimmed s \<and> (c = 10 \<longrightarrow> s = [] \<or> last s \<noteq> 32 \<and> last s \<noteq> 9)"
  by (induction s rule: lines_trimmed.induct) auto

definition clean_text :: "bool \<Rightarrow> ustring \<Rightarrow> bool" where
  "clean_text keep_newlines s \<longleftrightarrow> list_all (clean_char keep_newlines) s \<and> lines_trimmed s"

lemma ellipsis_clean [simp]: "clean_char k ellipsis" "ellipsis \<noteq> 10" "\<not> blank ellipsis"
  by (simp_all add: clean_char_def text_simps)

lemma clean_text_snoc:
  "clean_text k out \<Longrightarrow> clean_char k c \<Longrightarrow>
   clean_text k ((if c = 10 then trim_end_by (\<lambda>d. d = 32 \<or> d = 9) out else out) @ [c])"
  using trim_end_by_last [of "\<lambda>d. d = 32 \<or> d = 9" out] trim_end_by_set [of "\<lambda>d. d = 32 \<or> d = 9" out]
  by (auto simp: clean_text_def lines_trimmed_snoc lines_trimmed_trim_end list_all_iff)

lemma clean_output_loop_clean:
  "clean_text k out \<Longrightarrow> length out \<le> kept \<Longrightarrow> kept \<le> n \<Longrightarrow>
   clean_text k (clean_output_loop n k out kept cs) \<and> length (clean_output_loop n k out kept cs) \<le> n + 1"
proof (induction n k out kept cs rule: clean_output_loop.induct)
  case (2 n k out kept c cs)
  let ?out = "(if c = 10 then trim_end_by (\<lambda>d. d = 32 \<or> d = 9) out else out) @ [c]"
  consider (esc) "c = 27" | (control) "c \<noteq> 27" "is_control c \<and> \<not> (c = 9 \<or> k \<and> c = 10)"
    | (full) "c \<noteq> 27" "\<not> (is_control c \<and> \<not> (c = 9 \<or> k \<and> c = 10))" "kept = n"
    | (keep) "c \<noteq> 27" "\<not> (is_control c \<and> \<not> (c = 9 \<or> k \<and> c = 10))" "kept \<noteq> n" by blast
  then show ?case
  proof cases
    case esc
    with 2 show ?thesis by simp
  next
    case control
    with 2 show ?thesis by simp
  next
    case full
    with 2 show ?thesis by (auto simp: clean_text_def lines_trimmed_snoc)
  next
    case keep
    from keep(2) have "clean_char k c" by (auto simp: clean_char_def)
    then have "clean_text k ?out" using "2.prems"(1) by (rule clean_text_snoc [rotated])
    moreover have "length ?out \<le> kept + 1" using "2.prems"(2) trim_end_by_length [of _ out]
      by (auto intro: order_trans)
    moreover have "clean_output_loop n k out kept (c # cs) = clean_output_loop n k ?out (kept + 1) cs"
      using keep by (simp only: clean_output_loop.simps if_False)
    ultimately show ?thesis using "2.IH"(3) keep "2.prems"(3) by simp
  qed
qed auto

text \<open>
  C20.  Cleaned tool output holds no escape sequence or other control character (tabs apart,
  and newlines when they are kept), is at most one character longer than the limit, has no
  line that ends in a space or tab and no whitespace at its end, for every input.
\<close>

theorem clean_output_is_clean:
  "let s = clean_output t max_chars keep_newlines in
     list_all (clean_char keep_newlines) s \<and> length s \<le> max_chars + 1 \<and>
     lines_trimmed s \<and> trim_end_by is_whitespace s = s"
proof -
  let ?out = "clean_output_loop max_chars keep_newlines [] 0 t"
  have "clean_text keep_newlines ?out" and "length ?out \<le> max_chars + 1"
    using clean_output_loop_clean [of keep_newlines "[]" 0 max_chars t]
    by (auto simp: clean_text_def)
  then show ?thesis
    using trim_end_by_set [of is_whitespace ?out] trim_end_by_length [of is_whitespace ?out]
      trim_end_by_fixed [of "trim_end_by is_whitespace ?out"] trim_end_by_last [of is_whitespace ?out]
      lines_trimmed_trim_end [of ?out is_whitespace]
    by (auto simp: Let_def clean_output_def clean_text_def list_all_iff)
qed

subsection \<open>Cursors round trip\<close>

lemma parse_digits_append:
  "parse_digits acc (xs @ ys) = Option.bind (parse_digits acc xs) (\<lambda>acc. parse_digits acc ys)"
  by (induction xs arbitrary: acc) auto

lemma decimal_step: "decimal n = (if n < 10 then [48 + n] else decimal (n div 10) @ [48 + n mod 10])"
  unfolding decimal_def by (subst show_nat.simps) simp

lemma parse_digits_decimal: "parse_digits 0 (decimal n) = (if n \<le> u64_max then Some n else None)"
proof (induction n rule: less_induct)
  case (less n)
  show ?case
  proof (cases "n < 10")
    case True
    then show ?thesis by (simp add: decimal_step [of n] u64_max_def)
  next
    case False
    then have "parse_digits 0 (decimal (n div 10)) = (if n div 10 \<le> u64_max then Some (n div 10) else None)"
      by (intro less) simp
    moreover have "n div 10 * 10 + n mod 10 = n" "n mod 10 \<le> 9" by simp_all
    moreover have "n div 10 \<le> u64_max" if "n \<le> u64_max"
      using that div_le_dividend order_trans by blast
    ultimately show ?thesis using False
      by (auto simp: decimal_step [of n] parse_digits_append u64_max_def)
  qed
qed

lemma decimal_digits: "decimal n \<noteq> [] \<and> (\<forall>c\<in>set (decimal n). 48 \<le> c \<and> c \<le> 57)"
proof (induction n rule: less_induct)
  case (less n)
  have "n mod 10 \<le> 9" by simp
  with less [of "n div 10"] show ?case by (cases "n < 10") (auto simp: decimal_step [of n])
qed

lemma trim_padded:
  assumes "list_all is_whitespace a" "list_all is_whitespace b" "s \<noteq> []" "\<forall>c\<in>set s. \<not> is_whitespace c"
  shows "trim (a @ s @ b) = s"
proof -
  have "dropWhile is_whitespace (a @ s @ b) = s @ b"
    using assms by (cases s) (auto simp: list_all_iff dropWhile_append3)
  moreover have "dropWhile is_whitespace (rev (s @ b)) = rev s"
    using assms by (cases s rule: rev_cases) (auto simp: list_all_iff dropWhile_append3)
  ultimately show ?thesis by (simp add: text_simps)
qed

text \<open>
  A printed offset is read back as the same number, with any whitespace around it; a
  number that does not fit in 64 bits is refused, not wrapped.
\<close>

theorem parse_offset_roundtrip:
  assumes "list_all is_whitespace a" and "list_all is_whitespace b"
  shows "parse_offset (a @ decimal n @ b) = (if n \<le> u64_max then Some n else None)"
proof -
  have "\<forall>c\<in>set (decimal n). \<not> is_whitespace c"
    using decimal_digits [of n] by (fastforce simp: is_whitespace_def)
  then have "trim (a @ decimal n @ b) = decimal n"
    using trim_padded assms decimal_digits by blast
  moreover obtain d ds where d: "decimal n = d # ds" "d \<noteq> 43"
    using decimal_digits [of n] by (cases "decimal n") fastforce+
  ultimately show ?thesis using parse_digits_decimal [of n]
    by (simp add: parse_offset_def parse_u64_def)
qed

theorem parse_offset_roundtrip_witness:
  "list_all is_whitespace [32] \<and> list_all is_whitespace [13, 10] \<and>
   parse_offset ([32] @ decimal 4096 @ [13, 10]) = Some 4096"
  using parse_offset_roundtrip [of "[32]" "[13, 10]" 4096] by (simp add: is_whitespace_def u64_max_def)

subsection \<open>Summaries\<close>

lemma position_split:
  "position P xs = Some i \<Longrightarrow> xs = take i xs @ xs ! i # drop (Suc i) xs"
  by (rule id_take_nth_drop) (auto dest: position_SomeD)

lemma markdown_link_subseq:
  assumes "markdown_link cs = Some (label, rest)" shows "subseq (label @ rest) cs"
proof -
  from assms obtain i c target e where i: "position (\<lambda>c. c = 93) cs = Some i" "label = take i cs"
    and t: "drop (Suc i) cs = c # target" "rest = drop (Suc e) target"
    by (auto simp: markdown_link_def split: option.splits list.splits if_splits)
  have "subseq rest (drop (Suc i) cs)"
    unfolding t by (metis append_take_drop_id list_emb_Cons list_emb_append2 subseq_order.order_refl)
  then have "subseq (take i cs @ rest) (take i cs @ cs ! i # drop (Suc i) cs)"
    by (auto intro: list_emb_append_mono)
  then show ?thesis using position_split [OF i(1)] i(2) by simp
qed

lemma strip_inline_markdown_subseq: "subseq (strip_inline_markdown cs) cs"
proof (induction cs rule: strip_inline_markdown.induct)
  case (2 c cs)
  have tl: "subseq (strip_inline_markdown (tl cs)) (c # cs)" if "subseq (strip_inline_markdown (tl cs)) (tl cs)"
    using that by (cases cs) auto
  have link: "subseq (label @ strip_inline_markdown rest) (c # cs)"
    if "markdown_link cs = Some (label, rest)" "subseq (strip_inline_markdown rest) rest" for label rest
    using markdown_link_subseq [OF that(1)] that(2)
    by (meson list_emb_Cons list_emb_append_mono subseq_order.order_trans subseq_order.order_refl)
  show ?case using 2 tl link by (auto split: option.splits)
qed simp

lemma subseq_drop: "subseq (drop n s) s"
  by (metis append_take_drop_id list_emb_append2 subseq_order.order_refl)

lemma subseq_dropWhile: "subseq (dropWhile P s) s"
  by (metis list_emb_append2 subseq_order.order_refl takeWhile_dropWhile_id)

lemma subseq_trim_end: "subseq (trim_end_by P s) s"
  using trim_end_by_split [of s P] by (metis list_emb_append_mono list_emb_Nil append_Nil2 subseq_order.order_refl)

lemma find_map_SomeD: "find_map f xs = Some y \<Longrightarrow> \<exists>x. f x = Some y"
  by (induction xs) (auto split: option.splits)

lemma strip_line_markdown_subseq:
  assumes "strip_line_markdown raw = Some l" shows "subseq l raw"
proof -
  define l1 where "l1 = trim raw"
  define l2 where "l2 = dropWhile is_whitespace (dropWhile (\<lambda>c. c = 35) l1)"
  define l3 where "l3 = dropWhile is_whitespace (dropWhile (\<lambda>c. c = 62) l2)"
  define l4 where "l4 = (case find_map (\<lambda>p. strip_prefix p l3) list_prefixes of Some l \<Rightarrow> l | None \<Rightarrow> l3)"
  have "l = strip_inline_markdown l4"
    using assms unfolding strip_line_markdown_def Let_def trim_start_by_def l4_def l3_def l2_def l1_def
    by (simp split: if_splits)
  then have "subseq l l4" by (simp add: strip_inline_markdown_subseq)
  also have "subseq l4 l3"
    by (auto simp: l4_def strip_prefix_def subseq_drop split: option.splits if_splits dest!: find_map_SomeD)
  also have "subseq l3 l2" unfolding l3_def by (meson subseq_dropWhile subseq_order.order_trans)
  also have "subseq l2 l1" unfolding l2_def by (meson subseq_dropWhile subseq_order.order_trans)
  also have "subseq l1 raw"
    unfolding l1_def trim_def trim_start_by_def by (meson subseq_dropWhile subseq_trim_end subseq_order.order_trans)
  finally show ?thesis .
qed

lemma subseq_butlast: "subseq (butlast s) s"
  by (metis butlast_conv_take prefix_imp_subseq take_is_prefix)

lemma split_newlines_subseq: "subseq (concat (split_newlines line cs)) (line @ cs)"
proof (induction cs arbitrary: line)
  case (Cons c cs)
  have "subseq (if P then butlast line else line) line" for P by (simp add: subseq_butlast)
  with Cons.IH [of "[]"] Cons.IH [of "line @ [c]"] show ?case
    by (auto intro!: list_emb_append_mono)
qed simp

lemma concat_map_filter_subseq:
  "(\<And>x y. f x = Some y \<Longrightarrow> subseq y x) \<Longrightarrow> subseq (concat (List.map_filter f xs)) (concat xs)"
  by (induction xs) (auto simp: List.map_filter_simps split: option.splits intro: list_emb_append_mono list_emb_append2)

lemma filter_join: "(\<forall>c\<in>set sep. \<not> P c) \<Longrightarrow> filter P (join sep ws) = filter P (concat ws)"
  by (induction ws rule: induct_list012) (auto simp: filter_empty_conv)

lemma filter_collapse: "filter (\<lambda>c. \<not> blank c) (collapse t) = filter (\<lambda>c. \<not> blank c) t"
  by (simp add: collapse_words filter_join concat_words)

lemma strip_markdown_subseq:
  "subseq (filter (\<lambda>c. \<not> blank c) (strip_markdown t)) (filter (\<lambda>c. \<not> blank c) t)"
proof -
  have "subseq (concat (List.map_filter strip_line_markdown (str_lines t))) (concat (str_lines t))"
    by (rule concat_map_filter_subseq) (rule strip_line_markdown_subseq)
  also have "subseq (concat (str_lines t)) t"
    using split_newlines_subseq [of "[]" t] by (simp add: str_lines_def)
  finally show ?thesis
    unfolding strip_markdown_def filter_collapse by (subst filter_join) (auto intro: subseq_filter)
qed

lemma fit_chars_length: "length (fit_chars t n) \<le> n"
  by (simp add: fit_chars_def)

lemma fit_chars_set: "c \<in> set (fit_chars t n) \<Longrightarrow> c \<in> set t \<or> c = ellipsis"
  by (auto simp: fit_chars_def split: if_splits dest: in_set_takeD)

lemma clean_line_bounded:
  "clean_line t n = Some s \<Longrightarrow> length s \<le> n \<and> list_all (\<lambda>c. c = 32 \<or> \<not> blank c) s"
  using collapse_chars fit_chars_set ellipsis_clean(3)
  by (fastforce simp: clean_line_def Let_def fit_chars_length list_all_iff split: if_splits)

lemma clean_line_None: "clean_line t n = None \<longleftrightarrow> list_all blank t"
proof -
  have "collapse t = [] \<longleftrightarrow> words t = []"
    using words_not_blank [of "hd (words t)" t] by (cases "words t") (auto simp: collapse_words join_Cons)
  also have "\<dots> \<longleftrightarrow> concat (words t) = []"
    using words_not_blank [of "hd (words t)" t] by (cases "words t") auto
  also have "\<dots> \<longleftrightarrow> list_all blank t" by (simp add: concat_words filter_empty_conv list_all_iff)
  finally show ?thesis by (simp add: clean_line_def Let_def)
qed

definition line_char :: "uchar \<Rightarrow> bool" where
  "line_char c \<longleftrightarrow> c = 32 \<or> \<not> blank c"

text \<open>
  A summary is at most as long as its limit and one line, whose only blanks are single
  spaces; it shows text of the source in its order and nothing else, unless it ends in the
  ellipsis of a clipped text; and there is none only when the markdown holds no text.
\<close>

theorem summary_text_bounded:
  "case summary_text t n of
     None \<Rightarrow> list_all (\<lambda>c. is_whitespace c \<or> is_control c) (strip_markdown t)
   | Some s \<Rightarrow> length s \<le> n \<and> list_all line_char s \<and> s = fit_chars (strip_markdown t) n \<and>
       subseq (filter (\<lambda>c. \<not> (is_whitespace c \<or> is_control c)) (strip_markdown t))
         (filter (\<lambda>c. \<not> (is_whitespace c \<or> is_control c)) t)"
proof (cases "summary_text t n")
  case None
  then show ?thesis using clean_line_None [of "strip_markdown t" n] by (simp add: summary_text_def)
next
  case (Some s)
  moreover have "s = fit_chars (strip_markdown t) n"
    using Some by (simp add: summary_text_def clean_line_def Let_def strip_markdown_def split: if_splits)
  ultimately show ?thesis
    using clean_line_bounded [of "strip_markdown t" n s] strip_markdown_subseq [of t]
    by (simp add: summary_text_def line_char_def [abs_def])
qed

text \<open>
  The label of a link is copied as it stands: the marks inside \<open>[*x*](u)\<close> stay, although
  those of \<open>*x*\<close> are removed.
\<close>

lemma link_label_keeps_markers:
  "strip_inline_markdown [91, 42, 120, 42, 93, 40, 117, 41] = [42, 120, 42]" "strip_inline_markdown [42, 120, 42] = [120]"
  by (simp_all add: markdown_link_def)

end
