(* ===== verification/Turn.thy ===== *)
theory Turn
  imports Text
begin

section \<open>Turns of an agent: timing, failures and what waits for the user\<close>

text \<open>
  The turn accounting of one terminal, \<open>terminal/turn.rs\<close>, and the wrappers of
  \<open>terminal/state.rs\<close> that feed it.  A turn starts when the agent begins to work.  A failure
  is latched with whether it still has to be announced; it is announced at most once a turn
  and not while the agent works.  An instant is a number of nanoseconds of the monotonic
  clock, a wall-clock time a number of milliseconds; both are arguments, as is the label of
  the agent that owns the pane.
\<close>

datatype agent_state = Idle | Working | Blocked | Unknown

datatype attention_kind = NeedsInput | Failed | UnknownAttention

record agent_attention =
  aa_kind :: attention_kind
  aa_title :: "ustring option"
  aa_detail :: "ustring option"
  aa_options :: "ustring list"
  aa_since_ms :: "u64 option"

record failure_latch =
  fl_attention :: agent_attention
  fl_agent_label :: "ustring option"
  fl_notice_pending :: bool

record turn_tracker =
  tt_working_since_ms :: "u64 option"
  tt_last_turn_ms :: "u64 option"
  tt_state_changed_at_ms :: "u64 option"
  tt_last_working_start_ms :: "u64 option"
  tt_blocked_since_ms :: "u64 option"
  tt_failed_attention :: "failure_latch option"
  tt_failure_notices :: u64
  tt_failure_announced :: bool
  tt_announced_agent :: "ustring option"
  tt_completion_announced :: bool
  tt_completion_agent :: "ustring option"
  tt_needs_input :: "agent_attention option"
  tt_report_sequences :: "ustring \<rightharpoonup> u64"
  tt_observed_error :: "ustring option"
  tt_last_interrupt_input_at :: "nat option"
  tt_last_completion_interrupted :: bool
  tt_revision :: u64

definition tracker_default :: turn_tracker where
  "tracker_default = \<lparr> tt_working_since_ms = None, tt_last_turn_ms = None, tt_state_changed_at_ms = None,
     tt_last_working_start_ms = None, tt_blocked_since_ms = None, tt_failed_attention = None,
     tt_failure_notices = 0, tt_failure_announced = False, tt_announced_agent = None,
     tt_completion_announced = False, tt_completion_agent = None, tt_needs_input = None,
     tt_report_sequences = Map.empty, tt_observed_error = None, tt_last_interrupt_input_at = None,
     tt_last_completion_interrupted = False, tt_revision = 0 \<rparr>"

definition INTERRUPT_COMPLETION_WINDOW :: nat where
  "INTERRUPT_COMPLETION_WINDOW = 1500000000"

definition HOOK_MESSAGE_MAX_CHARS :: nat where
  "HOOK_MESSAGE_MAX_CHARS = 2000"

named_theorems turn_defs \<open>the operations of the turn tracker\<close>

subsection \<open>Failures\<close>

definition bump :: "turn_tracker \<Rightarrow> turn_tracker" where
  [turn_defs]: "bump t = t\<lparr>tt_revision := wadd64 (tt_revision t) 1\<rparr>"

definition clear_failure :: "turn_tracker \<Rightarrow> turn_tracker \<times> bool" where
  [turn_defs]: "clear_failure t =
     (if tt_failed_attention t = None then (t, False)
      else (bump (t\<lparr>tt_failed_attention := None\<rparr>), True))"

definition forget_announced_failure :: "turn_tracker \<Rightarrow> turn_tracker" where
  [turn_defs]: "forget_announced_failure t = t\<lparr>tt_failure_announced := False, tt_announced_agent := None\<rparr>"

definition note_completion_announced :: "ustring option \<Rightarrow> turn_tracker \<Rightarrow> turn_tracker" where
  [turn_defs]: "note_completion_announced agent_label t =
     t\<lparr>tt_completion_announced := True, tt_completion_agent := agent_label\<rparr>"

definition forget_announced_completion :: "turn_tracker \<Rightarrow> turn_tracker" where
  [turn_defs]: "forget_announced_completion t = t\<lparr>tt_completion_announced := False, tt_completion_agent := None\<rparr>"

definition latch_failure ::
    "ustring option \<Rightarrow> ustring option \<Rightarrow> ustring option \<Rightarrow> u64 \<Rightarrow> turn_tracker \<Rightarrow> turn_tracker \<times> bool" where
  [turn_defs]: "latch_failure title detail agent_label now_ms t =
     (if tt_failure_announced t \<or>
         (case tt_failed_attention t of None \<Rightarrow> False
          | Some latch \<Rightarrow> aa_title (fl_attention latch) = title \<and> aa_detail (fl_attention latch) = detail)
      then (t, False)
      else (bump (t\<lparr>tt_failed_attention := Some
              \<lparr> fl_attention = \<lparr> aa_kind = Failed, aa_title = title, aa_detail = detail,
                                aa_options = [], aa_since_ms = Some now_ms \<rparr>,
                fl_agent_label = agent_label,
                fl_notice_pending = (\<not> tt_completion_announced t \<and> \<not> tt_last_completion_interrupted t) \<rparr>\<rparr>),
            True))"

definition acknowledge :: "turn_tracker \<Rightarrow> turn_tracker \<times> bool" where
  [turn_defs]: "acknowledge t =
     (case tt_failed_attention t of
        Some latch \<Rightarrow> if \<not> fl_notice_pending latch then clear_failure t else (t, False)
      | None \<Rightarrow> (t, False))"

definition take_failure_notice :: "agent_state \<Rightarrow> turn_tracker \<Rightarrow> turn_tracker \<times> bool" where
  [turn_defs]: "take_failure_notice st t =
     (if st = Working then (t, False)
      else case tt_failed_attention t of
        None \<Rightarrow> (t, False)
      | Some latch \<Rightarrow>
          if fl_notice_pending latch
          then (t\<lparr>tt_failed_attention := Some (latch\<lparr>fl_notice_pending := False\<rparr>),
                  tt_failure_notices := wadd64 (tt_failure_notices t) 1,
                  tt_failure_announced := True,
                  tt_announced_agent := fl_agent_label latch\<rparr>, True)
          else (t, False))"

definition has_failure :: "turn_tracker \<Rightarrow> bool" where
  "has_failure t \<longleftrightarrow> tt_failed_attention t \<noteq> None"

subsection \<open>State changes and agents\<close>

definition note_interrupt_input :: "nat \<Rightarrow> turn_tracker \<Rightarrow> turn_tracker" where
  [turn_defs]: "note_interrupt_input now t = t\<lparr>tt_last_interrupt_input_at := Some now\<rparr>"

definition interrupted_within :: "nat \<Rightarrow> turn_tracker \<Rightarrow> bool" where
  "interrupted_within now t =
     (case tt_last_interrupt_input_at t of None \<Rightarrow> False | Some t0 \<Rightarrow> now - t0 \<le> INTERRUPT_COMPLETION_WINDOW)"

definition on_state_change :: "agent_state \<Rightarrow> agent_state \<Rightarrow> nat \<Rightarrow> u64 \<Rightarrow> turn_tracker \<Rightarrow> turn_tracker" where
  [turn_defs]: "on_state_change previous st now now_ms t =
     (let completion = (st = Idle \<and> (previous = Working \<or> previous = Blocked));
          t = t\<lparr>tt_state_changed_at_ms := Some now_ms,
                tt_last_completion_interrupted := (completion \<and> interrupted_within now t)\<rparr>;
          t = (if st = Working
               then fst (clear_failure (forget_announced_completion (forget_announced_failure
                      (t\<lparr>tt_working_since_ms := Some now_ms, tt_last_working_start_ms := Some now_ms,
                         tt_last_interrupt_input_at := None, tt_observed_error := None\<rparr>))))
               else if previous = Working
               then t\<lparr>tt_working_since_ms := None,
                      tt_last_turn_ms := map_option (\<lambda>since. now_ms - since) (tt_working_since_ms t)\<rparr>
               else t)
      in if st = Blocked then t\<lparr>tt_blocked_since_ms := Some now_ms\<rparr>
         else let t = t\<lparr>tt_blocked_since_ms := None\<rparr>
              in if tt_needs_input t \<noteq> None then bump (t\<lparr>tt_needs_input := None\<rparr>) else t)"

definition forget_agent :: "turn_tracker \<Rightarrow> turn_tracker" where
  [turn_defs]: "forget_agent t =
     (let failure = tt_failed_attention t \<noteq> None;
          needs_input = tt_needs_input t \<noteq> None;
          t = forget_announced_completion (forget_announced_failure
                (t\<lparr>tt_failed_attention := None, tt_needs_input := None, tt_observed_error := None\<rparr>))
      in if failure \<or> needs_input then bump t else t)"

definition other_agent :: "ustring option \<Rightarrow> ustring \<Rightarrow> bool" where
  "other_agent label current = (case label of None \<Rightarrow> False | Some l \<Rightarrow> l \<noteq> current)"

definition reconcile_agent :: "ustring option \<Rightarrow> turn_tracker \<Rightarrow> turn_tracker" where
  [turn_defs]: "reconcile_agent agent_label t =
     (case agent_label of
        None \<Rightarrow> t
      | Some current \<Rightarrow>
          let t = (if other_agent (Option.bind (tt_failed_attention t) fl_agent_label) current
                   then fst (clear_failure t) else t);
              t = (if other_agent (tt_announced_agent t) current then forget_announced_failure t else t)
          in if other_agent (tt_completion_agent t) current then forget_announced_completion t else t)"

subsection \<open>Reports\<close>

definition accept_report :: "ustring \<Rightarrow> u64 option \<Rightarrow> turn_tracker \<Rightarrow> turn_tracker \<times> bool" where
  "accept_report source seq t =
     (let prior = tt_report_sequences t source in
      case seq of
        Some seq \<Rightarrow>
          if (case prior of None \<Rightarrow> True | Some prior \<Rightarrow> prior < seq)
          then (t\<lparr>tt_report_sequences := (tt_report_sequences t)(source \<mapsto> seq)\<rparr>, True)
          else (t, False)
      | None \<Rightarrow> (t, prior = None))"

definition set_needs_input ::
    "ustring option \<Rightarrow> ustring option \<Rightarrow> ustring list \<Rightarrow> u64 \<Rightarrow> turn_tracker \<Rightarrow> turn_tracker \<times> bool" where
  [turn_defs]: "set_needs_input title detail options now_ms t =
     (if (case tt_needs_input t of None \<Rightarrow> False
          | Some c \<Rightarrow> aa_title c = title \<and> aa_detail c = detail \<and> aa_options c = options)
      then (t, False)
      else (bump (t\<lparr>tt_needs_input := Some \<lparr> aa_kind = NeedsInput, aa_title = title, aa_detail = detail,
               aa_options = options, aa_since_ms = Some now_ms \<rparr>\<rparr>), True))"

definition clear_reported :: "turn_tracker \<Rightarrow> turn_tracker \<times> bool" where
  [turn_defs]: "clear_reported t =
     (let failure = tt_failed_attention t \<noteq> None;
          needs_input = tt_needs_input t \<noteq> None;
          t = t\<lparr>tt_failed_attention := None, tt_needs_input := None\<rparr>
      in (if failure \<or> needs_input then bump t else t, failure \<or> needs_input))"

definition observe_error ::
    "ustring \<Rightarrow> u64 option \<Rightarrow> agent_state \<Rightarrow> ustring option \<Rightarrow> u64 \<Rightarrow> turn_tracker \<Rightarrow> turn_tracker \<times> bool" where
  [turn_defs]: "observe_error err at_ms st agent_label now_ms t =
     (if st = Working then (t, False)
      else case (tt_last_working_start_ms t, at_ms) of
        (Some turn_start, Some at_ms) \<Rightarrow>
          if at_ms < turn_start \<or> tt_observed_error t = Some err then (t, False)
          else latch_failure None (Some err) agent_label now_ms (t\<lparr>tt_observed_error := Some err\<rparr>)
      | _ \<Rightarrow> (t, False))"

definition attention :: "turn_tracker \<Rightarrow> agent_state \<Rightarrow> ustring option \<Rightarrow> agent_attention option" where
  "attention t st hook_message =
     (case st of
        Blocked \<Rightarrow> Some (case tt_needs_input t of
            Some a \<Rightarrow> a
          | None \<Rightarrow> \<lparr> aa_kind = NeedsInput, aa_title = None,
                      aa_detail = Option.bind hook_message (\<lambda>message. clean_line message HOOK_MESSAGE_MAX_CHARS),
                      aa_options = [], aa_since_ms = tt_blocked_since_ms t \<rparr>)
      | Working \<Rightarrow> None
      | _ \<Rightarrow> map_option fl_attention (tt_failed_attention t))"

datatype attention_report =
    ReportNeedsInput "ustring option" "ustring option" "ustring list"
  | ReportFailed "ustring option" "ustring option"
  | ReportClear

definition report_attention ::
    "ustring \<Rightarrow> ustring \<Rightarrow> u64 option \<Rightarrow> attention_report \<Rightarrow> u64 \<Rightarrow> turn_tracker \<Rightarrow> turn_tracker \<times> bool" where
  "report_attention source agent_label seq report now_ms t =
     (let (t, accepted) = accept_report source seq t in
      if \<not> accepted then (t, False)
      else case report of
        ReportNeedsInput title detail options \<Rightarrow> set_needs_input title detail options now_ms t
      | ReportFailed title detail \<Rightarrow> latch_failure title detail (Some agent_label) now_ms t
      | ReportClear \<Rightarrow> clear_reported t)"

subsection \<open>What is pending and what was announced\<close>

definition notice_pending :: "turn_tracker \<Rightarrow> bool" where
  "notice_pending t = (case tt_failed_attention t of None \<Rightarrow> False | Some latch \<Rightarrow> fl_notice_pending latch)"

definition announced :: "turn_tracker \<Rightarrow> bool" where
  "announced t \<longleftrightarrow> tt_failure_announced t \<or> tt_completion_announced t"

named_theorems notice_rules \<open>what they keep of it\<close>
named_theorems notice_simps \<open>what the operations do to the pending notice and the announcements\<close>

lemma on_state_change_working [notice_simps]:
  "prev \<noteq> Working \<Longrightarrow> \<not> notice_pending (on_state_change prev Working now now_ms t)"
  "prev \<noteq> Working \<Longrightarrow> \<not> announced (on_state_change prev Working now now_ms t)"
  by (simp_all add: turn_defs notice_pending_def announced_def Let_def)

lemma on_state_change_other [notice_simps]:
  "st \<noteq> Working \<Longrightarrow> tt_failed_attention (on_state_change prev st now now_ms t) = tt_failed_attention t"
  "st \<noteq> Working \<Longrightarrow> notice_pending (on_state_change prev st now now_ms t) = notice_pending t"
  "st \<noteq> Working \<Longrightarrow> announced (on_state_change prev st now now_ms t) = announced t"
  by (simp_all add: turn_defs notice_pending_def announced_def Let_def)

lemma latch_failure_notice [notice_simps]:
  "tt_failure_announced (fst (latch_failure title detail label now_ms t)) = tt_failure_announced t"
  "announced (fst (latch_failure title detail label now_ms t)) = announced t"
  "announced t \<Longrightarrow> \<not> notice_pending t \<Longrightarrow> \<not> notice_pending (fst (latch_failure title detail label now_ms t))"
  by (auto simp: turn_defs notice_pending_def announced_def split: option.splits)

lemma observe_error_notice [notice_simps]:
  "announced (fst (observe_error err at_ms st label now_ms t)) = announced t"
  "announced t \<Longrightarrow> \<not> notice_pending t \<Longrightarrow> \<not> notice_pending (fst (observe_error err at_ms st label now_ms t))"
  by (auto simp: turn_defs notice_pending_def announced_def split: option.splits)

lemma report_attention_notice [notice_simps]:
  "announced (fst (report_attention source agent seq report now_ms t)) = announced t"
  "announced t \<Longrightarrow> \<not> notice_pending t \<Longrightarrow>
     \<not> notice_pending (fst (report_attention source agent seq report now_ms t))"
  by (auto simp: report_attention_def accept_report_def turn_defs notice_pending_def announced_def Let_def
      split: option.splits attention_report.splits)

lemma acknowledge_notice [notice_simps]:
  "announced (fst (acknowledge t)) = announced t" "notice_pending (fst (acknowledge t)) = notice_pending t"
  by (auto simp: turn_defs notice_pending_def announced_def split: option.splits)

lemma note_interrupt_notice [notice_simps]:
  "announced (note_interrupt_input now t) = announced t"
  "notice_pending (note_interrupt_input now t) = notice_pending t"
  by (simp_all add: turn_defs notice_pending_def announced_def)

lemma forget_agent_notice [notice_simps]:
  "\<not> announced (forget_agent t)" "\<not> notice_pending (forget_agent t)"
  by (simp_all add: turn_defs notice_pending_def announced_def Let_def)

lemma reconcile_agent_notice [notice_rules]:
  "announced (reconcile_agent label t) \<Longrightarrow> announced t"
  "notice_pending (reconcile_agent label t) \<Longrightarrow> notice_pending t"
  by (auto simp: turn_defs notice_pending_def announced_def Let_def split: option.splits if_splits)

lemma reconcile_agent_same [notice_rules]:
  "label = None \<or> (\<exists>current. label = Some current \<and> \<not> other_agent (tt_announced_agent t) current \<and>
     \<not> other_agent (tt_completion_agent t) current) \<Longrightarrow> announced (reconcile_agent label t) = announced t"
  by (auto simp: turn_defs notice_pending_def announced_def Let_def split: option.splits if_splits)

lemma take_failure_notice_notice [notice_simps]:
  "snd (take_failure_notice st t) \<longleftrightarrow> st \<noteq> Working \<and> notice_pending t"
  "notice_pending (fst (take_failure_notice st t)) \<longleftrightarrow> st = Working \<and> notice_pending t"
  "tt_failure_announced (fst (take_failure_notice st t)) \<longleftrightarrow>
     tt_failure_announced t \<or> st \<noteq> Working \<and> notice_pending t"
  "tt_completion_announced (fst (take_failure_notice st t)) = tt_completion_announced t"
  by (auto simp: turn_defs notice_pending_def split: option.splits)

lemma note_completion_notice [notice_simps]:
  "announced (note_completion_announced label t)"
  "notice_pending (note_completion_announced label t) = notice_pending t"
  by (simp_all add: turn_defs notice_pending_def announced_def)

text \<open>While the agent works nothing of its turn is announced, so that a failure latched then is pending.\<close>

definition turn_open :: "turn_tracker \<Rightarrow> bool" where
  "turn_open t \<longleftrightarrow> \<not> announced t \<and> \<not> tt_last_completion_interrupted t"

lemma turn_open_simps [notice_simps]:
  "prev \<noteq> Working \<Longrightarrow> turn_open (on_state_change prev Working now now_ms t)"
  "turn_open (fst (latch_failure title detail label now_ms t)) = turn_open t"
  "turn_open (fst (observe_error err at_ms Working label now_ms t)) = turn_open t"
  "turn_open (fst (report_attention source agent seq report now_ms t)) = turn_open t"
  "turn_open (fst (acknowledge t)) = turn_open t"
  "turn_open (note_interrupt_input now t) = turn_open t"
  "turn_open (fst (take_failure_notice Working t)) = turn_open t"
  by (auto simp: turn_open_def announced_def turn_defs report_attention_def accept_report_def Let_def
      split: option.splits attention_report.splits)

lemma turn_open_agents [notice_rules]:
  "turn_open t \<Longrightarrow> turn_open (reconcile_agent label t)" "turn_open t \<Longrightarrow> turn_open (forget_agent t)"
  by (auto simp: turn_open_def announced_def turn_defs Let_def split: option.splits)

text \<open>A pending failure of an open turn survives looks, interrupts and every report that is no clear.\<close>

lemma pending_kept [notice_rules]:
  "turn_open t \<Longrightarrow> notice_pending t \<Longrightarrow> notice_pending (fst (latch_failure title detail label now_ms t))"
  "turn_open t \<Longrightarrow> notice_pending t \<Longrightarrow> report \<noteq> ReportClear \<Longrightarrow>
     notice_pending (fst (report_attention source agent seq report now_ms t))"
  by (auto simp: turn_open_def announced_def notice_pending_def turn_defs report_attention_def accept_report_def Let_def
      split: option.splits attention_report.splits)

lemma pending_kept_agent [notice_rules]:
  "notice_pending t \<Longrightarrow>
   label = None \<or> (\<exists>current. label = Some current \<and> \<not> other_agent (Option.bind (tt_failed_attention t) fl_agent_label) current) \<Longrightarrow>
     notice_pending (reconcile_agent label t)"
  by (auto simp: notice_pending_def turn_defs Let_def split: option.splits)

subsection \<open>The revision follows what is shown\<close>

lemma wadd64_1_neq: "r \<le> u64_max \<Longrightarrow> wadd64 r 1 \<noteq> r"
  by (cases "r = u64_max") (auto simp: wadd64_def u64_max_def)

text \<open>What the clients are shown is read from two fields and the time the agent was blocked.\<close>

lemma attention_cong:
  "tt_needs_input t' = tt_needs_input t \<Longrightarrow>
   map_option fl_attention (tt_failed_attention t') = map_option fl_attention (tt_failed_attention t) \<Longrightarrow>
   tt_blocked_since_ms t' = tt_blocked_since_ms t \<Longrightarrow> attention t' st hook = attention t st hook"
  by (cases st; cases "tt_needs_input t"; simp add: attention_def)

definition shown_kept :: "turn_tracker \<Rightarrow> turn_tracker \<Rightarrow> bool" where
  "shown_kept t t' \<longleftrightarrow> (tt_revision t' = tt_revision t \<longrightarrow> (\<forall>st hook. attention t' st hook = attention t st hook))"

lemma shown_kept_rules:
  "shown_kept t t"
  "tt_revision t \<le> u64_max \<Longrightarrow> tt_revision t' = wadd64 (tt_revision t) 1 \<Longrightarrow> shown_kept t t'"
  "tt_needs_input t' = tt_needs_input t \<Longrightarrow> map_option fl_attention (tt_failed_attention t') = map_option fl_attention (tt_failed_attention t) \<Longrightarrow>
     tt_blocked_since_ms t' = tt_blocked_since_ms t \<Longrightarrow> shown_kept t t'"
proof -
  show "shown_kept t t" by (simp add: shown_kept_def)
  show "tt_revision t \<le> u64_max \<Longrightarrow> tt_revision t' = wadd64 (tt_revision t) 1 \<Longrightarrow> shown_kept t t'"
    using wadd64_1_neq [of "tt_revision t"] by (simp add: shown_kept_def)
qed (unfold shown_kept_def, intro impI allI attention_cong)

lemma shown_kept_failure:
  assumes "tt_revision t \<le> u64_max"
  shows "shown_kept t (fst (latch_failure title detail label now_ms t))"
    and "shown_kept t (fst (observe_error err at_ms st label now_ms t))"
    and "shown_kept t (fst (acknowledge t))"
    and "shown_kept t (fst (take_failure_notice st t))"
  using assms by (auto simp: turn_defs intro: shown_kept_rules split: option.splits)

lemma shown_kept_report:
  assumes "tt_revision t \<le> u64_max"
  shows "shown_kept t (fst (report_attention source agent seq report now_ms t))"
  using assms
  by (auto simp: report_attention_def accept_report_def turn_defs Let_def
      intro: shown_kept_rules split: option.splits attention_report.splits)

lemma shown_kept_agents:
  assumes "tt_revision t \<le> u64_max"
  shows "shown_kept t (reconcile_agent label t)" and "shown_kept t (forget_agent t)"
  using assms by (auto simp: turn_defs Let_def intro: shown_kept_rules split: option.splits)



subsection \<open>Reports of a source are taken in order\<close>

fun accept_reports :: "(ustring \<times> u64 option) list \<Rightarrow> turn_tracker \<Rightarrow> turn_tracker \<times> (ustring \<times> u64 option) list" where
  "accept_reports [] t = (t, [])"
| "accept_reports ((source, seq) # rs) t =
     (let (t, ok) = accept_report source seq t; (t, taken) = accept_reports rs t
      in (t, if ok then (source, seq) # taken else taken))"

definition taken_from :: "ustring \<Rightarrow> (ustring \<times> u64 option) list \<Rightarrow> u64 option list" where
  "taken_from source taken = map snd (filter (\<lambda>r. fst r = source) taken)"

lemma accept_report_cases:
  "snd (accept_report source seq t) \<longleftrightarrow>
     (case seq of None \<Rightarrow> tt_report_sequences t source = None
      | Some n \<Rightarrow> (case tt_report_sequences t source of None \<Rightarrow> True | Some m \<Rightarrow> m < n))"
  "tt_report_sequences (fst (accept_report source seq t)) =
     (if snd (accept_report source seq t) \<and> seq \<noteq> None then (tt_report_sequences t)(source := seq) else tt_report_sequences t)"
  by (auto simp: accept_report_def Let_def split: option.splits)

lemma taken_from_step:
  "accept_report src seq t = (t', ok) \<Longrightarrow>
   taken_from source (snd (accept_reports ((src, seq) # rs) t)) =
     (if ok \<and> src = source then [seq] else []) @ taken_from source (snd (accept_reports rs t'))"
  by (auto simp: taken_from_def split: prod.split)

lemma accept_reports_after:
  "tt_report_sequences t source = Some m \<Longrightarrow>
   sorted_wrt (<) (m # map the (taken_from source (snd (accept_reports rs t)))) \<and>
   None \<notin> set (taken_from source (snd (accept_reports rs t)))"
proof (induction rs arbitrary: t m)
  case (Cons r rs)
  obtain src seq where r: "r = (src, seq)" by (cases r)
  obtain t' ok where a: "accept_report src seq t = (t', ok)" by (cases "accept_report src seq t")
  have ok: "ok \<longleftrightarrow> (case seq of None \<Rightarrow> tt_report_sequences t src = None
      | Some n \<Rightarrow> (case tt_report_sequences t src of None \<Rightarrow> True | Some k \<Rightarrow> k < n))"
    and t': "tt_report_sequences t' = (if ok \<and> seq \<noteq> None then (tt_report_sequences t)(src := seq) else tt_report_sequences t)"
    using accept_report_cases [of src seq t] by (simp_all add: a)
  show ?case
  proof (cases "src = source \<and> ok")
    case True
    with ok Cons.prems obtain n where n: "seq = Some n" "m < n" by (auto split: option.splits)
    with True t' have "tt_report_sequences t' source = Some n" by simp
    with Cons.IH [of t' n] n True show ?thesis
      unfolding r taken_from_step [OF a] by auto
  next
    case False
    then have "tt_report_sequences t' source = Some m" using t' Cons.prems by auto
    with Cons.IH [of t' m] False show ?thesis unfolding r taken_from_step [OF a] by auto
  qed
qed (simp add: taken_from_def)

lemma accept_reports_before:
  assumes "tt_report_sequences t source = None"
  shows "\<exists>k. taken_from source (snd (accept_reports rs t)) =
           replicate k None @ dropWhile ((=) None) (taken_from source (snd (accept_reports rs t))) \<and>
         sorted_wrt (<) (map the (dropWhile ((=) None) (taken_from source (snd (accept_reports rs t))))) \<and>
         None \<notin> set (dropWhile ((=) None) (taken_from source (snd (accept_reports rs t))))"
  using assms
proof (induction rs arbitrary: t)
  case (Cons r rs)
  obtain src seq where r: "r = (src, seq)" by (cases r)
  obtain t' ok where a: "accept_report src seq t = (t', ok)" by (cases "accept_report src seq t")
  have ok: "ok \<longleftrightarrow> (case seq of None \<Rightarrow> tt_report_sequences t src = None
      | Some n \<Rightarrow> (case tt_report_sequences t src of None \<Rightarrow> True | Some k \<Rightarrow> k < n))"
    and t': "tt_report_sequences t' = (if ok \<and> seq \<noteq> None then (tt_report_sequences t)(src := seq) else tt_report_sequences t)"
    using accept_report_cases [of src seq t] by (simp_all add: a)
  let ?rest = "taken_from source (snd (accept_reports rs t'))"
  consider (other) "src \<noteq> source" | (plain) "src = source" "seq = None" | (numbered) n where "src = source" "seq = Some n"
    by (cases seq) auto
  then show ?case
  proof cases
    case other
    then have "tt_report_sequences t' source = None" using t' Cons.prems by auto
    with Cons.IH [of t'] other show ?thesis unfolding r taken_from_step [OF a] by simp
  next
    case plain
    then have none: "tt_report_sequences t' source = None" and "ok" using t' ok Cons.prems by auto
    with plain have taken: "taken_from source (snd (accept_reports (r # rs) t)) = None # ?rest"
      unfolding r taken_from_step [OF a] by simp
    from Cons.IH [OF none] obtain k where k: "?rest = replicate k None @ dropWhile ((=) None) ?rest"
      and tail: "sorted_wrt (<) (map the (dropWhile ((=) None) ?rest))" "None \<notin> set (dropWhile ((=) None) ?rest)"
      by blast
    have "None # ?rest = replicate (Suc k) None @ dropWhile ((=) None) (None # ?rest)"
      using k by simp
    then show ?thesis using tail unfolding taken by (intro exI [of _ "Suc k"]) simp
  next
    case numbered
    then have "tt_report_sequences t' source = Some n" "ok" using t' ok Cons.prems by auto
    moreover from numbered this have "taken_from source (snd (accept_reports (r # rs) t)) = Some n # ?rest"
      unfolding r taken_from_step [OF a] by simp
    ultimately show ?thesis using accept_reports_after [of t' source n rs] by (auto intro: exI [of _ 0])
  qed
qed (simp add: taken_from_def)

text \<open>
  Whatever reports arrive in whatever order, those accepted from one source are first
  some without a number and then numbered ones in strictly increasing order: a report that
  comes late, twice, or without a number after a numbered one is dropped.
\<close>

theorem reports_accepted_in_order:
  "\<exists>k numbers. taken_from source (snd (accept_reports rs tracker_default)) =
      replicate k None @ map Some numbers \<and> sorted_wrt (<) numbers"
proof -
  let ?taken = "taken_from source (snd (accept_reports rs tracker_default))"
  let ?tail = "dropWhile ((=) None) ?taken"
  have "tt_report_sequences tracker_default source = None" by (simp add: tracker_default_def)
  from accept_reports_before [OF this, of rs] obtain k where k: "?taken = replicate k None @ ?tail"
    and sorted: "sorted_wrt (<) (map the ?tail)" and some: "None \<notin> set ?tail" by blast
  from some have "map Some (map the ?tail) = ?tail"
    by (auto intro!: map_idI simp: comp_def) (metis option.collapse)
  with k sorted show ?thesis by metis
qed

end
