(* ===== verification/Attention.thy ===== *)
theory Attention
  imports Turn
begin

section \<open>Deciding what to announce\<close>

text \<open>
  The decision table of \<open>server/attention.rs\<close>: whether a state change or a latched failure
  raises a toast, a sound and a semantic notification; and how \<open>app/actions.rs\<close> settles an
  update with the turn tracker: it takes the pending failure notice, decides, and notes a
  completion that is announced.  The theorems are about any sequence of such updates.
\<close>

datatype notice_kind = NoticeNeedsAttention | NoticeFinished | NoticeFailed

datatype toast_kind = ToastNeedsAttention | ToastFinished | ToastFailed | ToastUpdateInstalled

datatype semantic_kind = SemanticNeedsAttention | SemanticFinished | SemanticUpdateInstalled | SemanticCustom

datatype sound = SoundDone | SoundRequest

datatype semantic_sound = SemanticSoundDone | SemanticSoundRequest

definition BODY_MAX_CHARS :: nat where
  "BODY_MAX_CHARS = 220"

fun toast_kind_of :: "notice_kind \<Rightarrow> toast_kind" where
  "toast_kind_of NoticeNeedsAttention = ToastNeedsAttention"
| "toast_kind_of NoticeFinished = ToastFinished"
| "toast_kind_of NoticeFailed = ToastFailed"

fun semantic_kind_of :: "notice_kind \<Rightarrow> semantic_kind" where
  "semantic_kind_of NoticeNeedsAttention = SemanticNeedsAttention"
| "semantic_kind_of NoticeFinished = SemanticFinished"
| "semantic_kind_of NoticeFailed = SemanticCustom"

fun semantic_sound_of :: "notice_kind \<Rightarrow> semantic_sound" where
  "semantic_sound_of NoticeFinished = SemanticSoundDone"
| "semantic_sound_of _ = SemanticSoundRequest"

record attention_input =
  ai_previous_state :: agent_state
  ai_state :: agent_state
  ai_suppress_active_tab :: bool
  ai_suppress_completion :: bool
  ai_interrupted_recently :: bool
  ai_failed_latched :: bool
  ai_failure_announced :: bool
  ai_completion_held :: bool
  ai_body :: "ustring option"

record attention_decision =
  ad_kind :: "notice_kind option"
  ad_toast :: "toast_kind option"
  ad_sound :: "sound option"
  ad_semantic :: "semantic_kind option"
  ad_body :: "ustring option"

definition sound_for :: "notice_kind \<Rightarrow> bool \<Rightarrow> sound option" where
  "sound_for kind suppress_active_tab =
     (case kind of
        NoticeFinished \<Rightarrow> if \<not> suppress_active_tab then Some SoundDone else None
      | _ \<Rightarrow> Some SoundRequest)"

definition classify :: "attention_input \<Rightarrow> notice_kind option" where
  "classify input =
     (if ai_suppress_completion input then None
      else if ai_failed_latched input then Some NoticeFailed
      else if ai_failure_announced input \<or> ai_state input = ai_previous_state input then None
      else if ai_state input = Blocked then Some NoticeNeedsAttention
      else if (ai_previous_state input = Working \<or> ai_previous_state input = Blocked) \<and>
              ai_state input = Idle \<and> \<not> ai_interrupted_recently input \<and> \<not> ai_completion_held input
      then Some NoticeFinished
      else None)"

definition decide :: "attention_input \<Rightarrow> attention_decision" where
  "decide input =
     (case classify input of
        None \<Rightarrow> \<lparr> ad_kind = None, ad_toast = None, ad_sound = None, ad_semantic = None, ad_body = None \<rparr>
      | Some kind \<Rightarrow>
          \<lparr> ad_kind = Some kind,
            ad_toast = (if \<not> ai_suppress_active_tab input then Some (toast_kind_of kind) else None),
            ad_sound = sound_for kind (ai_suppress_active_tab input),
            ad_semantic = Some (semantic_kind_of kind),
            ad_body = Option.bind (ai_body input) (\<lambda>b. summary_text b BODY_MAX_CHARS) \<rparr>)"

text \<open>
  The part of a pane state update the notifications are decided from
  (\<open>PaneStateUpdate::attention_input\<close>).
\<close>

record pane_update =
  pu_previous_state :: agent_state
  pu_state :: agent_state
  pu_suppress_completion :: bool
  pu_interrupted :: bool
  pu_failed :: bool
  pu_failure_announced :: bool
  pu_completion_held :: bool

definition attention_input_of :: "pane_update \<Rightarrow> bool \<Rightarrow> ustring option \<Rightarrow> attention_input" where
  "attention_input_of u suppress_active_tab body =
     \<lparr> ai_previous_state = pu_previous_state u, ai_state = pu_state u,
       ai_suppress_active_tab = suppress_active_tab, ai_suppress_completion = pu_suppress_completion u,
       ai_interrupted_recently = pu_interrupted u, ai_failed_latched = pu_failed u,
       ai_failure_announced = pu_failure_announced u, ai_completion_held = pu_completion_held u,
       ai_body = body \<rparr>"

text \<open>
  How an update is settled: the pending failure notice is taken first, the decision is made
  with its outcome, and a completion that is announced is noted.  A completion that is held
  back for the session's insight is released later, unless the agent left the idle state or
  the turn was announced meanwhile.
\<close>

definition settle_update ::
    "agent_state \<Rightarrow> agent_state \<Rightarrow> bool \<Rightarrow> bool \<Rightarrow> bool \<Rightarrow> ustring option \<Rightarrow> turn_tracker \<Rightarrow>
     turn_tracker \<times> notice_kind option" where
  "settle_update previous st suppress_completion interrupted completion_held agent_label t =
     (let (t, failure_notice) = take_failure_notice st t;
          update = \<lparr> pu_previous_state = previous, pu_state = st,
             pu_suppress_completion = suppress_completion, pu_interrupted = interrupted,
             pu_failed = failure_notice, pu_failure_announced = tt_failure_announced t,
             pu_completion_held = completion_held \<rparr>;
          kind = ad_kind (decide (attention_input_of update False None))
      in (if kind = Some NoticeFinished then note_completion_announced agent_label t else t, kind))"

definition release_completion ::
    "agent_state \<Rightarrow> ustring option \<Rightarrow> turn_tracker \<Rightarrow> turn_tracker \<times> bool" where
  "release_completion st agent_label t =
     (if st \<noteq> Idle \<or> tt_failure_announced t \<or> tt_completion_announced t then (t, False)
      else (note_completion_announced agent_label t, True))"

subsection \<open>Sequences of updates\<close>

text \<open>
  What drives a terminal's tracker: updates, each of which changes the effective state or
  the agent, reports, observes an error or releases the agent and is then settled; and the
  user's looks and interrupts and the release of a held completion, which are not.
\<close>

datatype turn_op =
    StateChange agent_state nat u64
  | AgentChange "ustring option"
  | Report ustring ustring "u64 option" attention_report u64
  | ObserveError ustring "u64 option" "ustring option" u64
  | ExitFailure ustring "ustring option" u64
  | ForgetAgent

datatype turn_event =
    Update turn_op bool bool "ustring option"
  | Look
  | Interrupt nat
  | ReleaseHeld "ustring option"

type_synonym turn_state = "agent_state \<times> turn_tracker"

fun op_apply :: "turn_op \<Rightarrow> turn_state \<Rightarrow> turn_state" where
  "op_apply (StateChange st now now_ms) (prev, t) =
     (st, if prev \<noteq> st then on_state_change prev st now now_ms t else t)"
| "op_apply (AgentChange label) (st, t) = (st, reconcile_agent label t)"
| "op_apply (Report source agent seq report now_ms) (st, t) =
     (st, fst (report_attention source agent seq report now_ms t))"
| "op_apply (ObserveError err at_ms label now_ms) (st, t) =
     (st, fst (observe_error err at_ms st label now_ms t))"
| "op_apply (ExitFailure detail label now_ms) (st, t) =
     (st, if st \<noteq> Working then fst (latch_failure None (Some detail) label now_ms t) else t)"
| "op_apply ForgetAgent (st, t) = (st, forget_agent t)"

fun event_apply :: "turn_event \<Rightarrow> turn_state \<Rightarrow> turn_state \<times> notice_kind option" where
  "event_apply (Update tp suppress held label) (prev, t) =
     (let (st, t) = op_apply tp (prev, t);
          (t, kind) = settle_update prev st suppress (prev \<noteq> st \<and> tt_last_completion_interrupted t) held label t
      in ((st, t), kind))"
| "event_apply Look (st, t) = ((st, fst (acknowledge t)), None)"
| "event_apply (Interrupt now) (st, t) = ((st, note_interrupt_input now t), None)"
| "event_apply (ReleaseHeld label) (st, t) =
     (let (t, released) = release_completion st label t
      in ((st, t), if released then Some NoticeFinished else None))"

fun run_events :: "turn_state \<Rightarrow> turn_event list \<Rightarrow> turn_state \<times> notice_kind option list" where
  "run_events s [] = (s, [])"
| "run_events s (e # es) =
     (let (s, kind) = event_apply e s; (s, kinds) = run_events s es in (s, kind # kinds))"

text \<open>The events that end a turn: the agent starts to work, is released, or is another one.\<close>

fun ends_turn :: "turn_state \<Rightarrow> turn_event \<Rightarrow> bool" where
  "ends_turn (prev, t) (Update (StateChange st now now_ms) suppress held label) \<longleftrightarrow> prev \<noteq> st \<and> st = Working"
| "ends_turn (prev, t) (Update (AgentChange agent) suppress held label) \<longleftrightarrow>
     (case agent of None \<Rightarrow> False
      | Some current \<Rightarrow> other_agent (tt_announced_agent t) current \<or> other_agent (tt_completion_agent t) current)"
| "ends_turn (prev, t) (Update ForgetAgent suppress held label) \<longleftrightarrow> True"
| "ends_turn s e \<longleftrightarrow> False"

fun within_turn :: "turn_state \<Rightarrow> turn_event list \<Rightarrow> bool" where
  "within_turn s [] \<longleftrightarrow> True"
| "within_turn s (e # es) \<longleftrightarrow> \<not> ends_turn s e \<and> within_turn (fst (event_apply e s)) es"

subsection \<open>One outcome a turn\<close>

definition turn_inv :: "turn_state \<Rightarrow> bool" where
  "turn_inv s \<longleftrightarrow> (announced (snd s) \<longrightarrow> \<not> notice_pending (snd s)) \<and> (notice_pending (snd s) \<longrightarrow> fst s = Working) \<and>
     (fst s = Working \<longrightarrow> turn_open (snd s))"

inductive turn_step :: "turn_state \<Rightarrow> turn_state \<Rightarrow> bool" where
  "event_apply e s = (s', kind) \<Longrightarrow> turn_step s s'"

inductive_simps turn_step_iff: "turn_step s s'"

lemma decide_kind: "ad_kind (decide input) = classify input"
  by (simp add: decide_def split: option.splits)

lemma settle_update_kind:
  "snd (settle_update prev st suppress interrupted held label t) = Some NoticeFailed \<longleftrightarrow>
     \<not> suppress \<and> st \<noteq> Working \<and> notice_pending t"
  "snd (settle_update prev st suppress interrupted held label t) = Some NoticeFinished \<Longrightarrow>
     st = Idle \<and> \<not> notice_pending t \<and> \<not> tt_failure_announced t"
  by (auto simp: settle_update_def decide_kind classify_def attention_input_of_def case_prod_beta Let_def
      notice_simps split: if_splits)

lemma settle_update_notice:
  "notice_pending (fst (settle_update prev st suppress interrupted held label t)) \<longleftrightarrow> st = Working \<and> notice_pending t"
  "announced (fst (settle_update prev st suppress interrupted held label t)) \<longleftrightarrow>
     announced t \<or> st \<noteq> Working \<and> notice_pending t \<or>
     snd (settle_update prev st suppress interrupted held label t) = Some NoticeFinished"
  by (auto simp: settle_update_def case_prod_beta Let_def notice_simps announced_def [of "fst (take_failure_notice _ _)"]
      announced_def [of t])

lemma op_apply_announced:
  "announced (snd (op_apply tp s)) \<Longrightarrow> \<not> (announced (snd s) \<and> notice_pending (snd s)) \<Longrightarrow> \<not> notice_pending (snd (op_apply tp s))"
proof (induction tp s rule: op_apply.induct)
  case (1 st now now_ms prev t)
  then show ?case by (cases "st = Working") (auto simp: on_state_change_working on_state_change_other)
next
  case (2 label st t)
  then show ?case using reconcile_agent_notice [of label t] by auto
qed (auto simp: notice_simps)

lemma op_apply_open:
  "fst (op_apply tp s) = Working \<Longrightarrow> (fst s = Working \<longrightarrow> turn_open (snd s)) \<Longrightarrow> turn_open (snd (op_apply tp s))"
  by (induction tp s rule: op_apply.induct) (auto simp: notice_simps notice_rules)

lemma settle_update_working:
  "fst (settle_update prev Working suppress interrupted held label t) = t"
  using settle_update_kind(2) [of prev Working]
  by (auto simp: settle_update_def case_prod_beta Let_def take_failure_notice_def)

lemma update_inv:
  assumes "turn_inv s" shows "turn_inv (fst (event_apply (Update tp suppress held label) s))"
proof -
  obtain prev t where s: "s = (prev, t)" by (cases s)
  obtain st u where o: "op_apply tp s = (st, u)" by (cases "op_apply tp s")
  define r where "r = settle_update prev st suppress (prev \<noteq> st \<and> tt_last_completion_interrupted u) held label u"
  have e: "event_apply (Update tp suppress held label) s = ((st, fst r), snd r)"
    using o by (simp add: s r_def case_prod_beta Let_def)
  have u: "announced u \<Longrightarrow> \<not> notice_pending u" "st = Working \<Longrightarrow> turn_open u"
    using op_apply_announced [of tp s] op_apply_open [of tp s] assms o by (auto simp: turn_inv_def)
  show ?thesis
  proof (cases "st = Working")
    case True
    with u show ?thesis unfolding e by (simp add: r_def turn_inv_def settle_update_working)
  next
    case False
    then show ?thesis unfolding e by (simp add: r_def turn_inv_def settle_update_notice)
  qed
qed

lemma event_apply_inv: "turn_inv s \<Longrightarrow> turn_inv (fst (event_apply e s))"
proof (cases e)
  case (Update tp suppress held label)
  assume "turn_inv s"
  with Update update_inv show ?thesis by blast
next
  case (ReleaseHeld label)
  assume "turn_inv s"
  with ReleaseHeld show ?thesis
    by (cases s) (auto simp: turn_inv_def release_completion_def note_completion_notice)
qed (cases s, simp add: turn_inv_def notice_simps)+

interpretation turn_run: kept_by_steps turn_step turn_inv
  by unfold_locales (metis event_apply_inv fst_conv turn_step_iff)

lemma op_apply_stays_announced:
  "\<not> ends_turn s (Update tp suppress held label) \<Longrightarrow> announced (snd s) \<Longrightarrow> announced (snd (op_apply tp s))"
  by (induction tp s rule: op_apply.induct) (auto simp: notice_simps reconcile_agent_same split: option.splits)

lemma update_announced:
  assumes "turn_inv s" "\<not> ends_turn s (Update tp suppress held label)"
  shows "announced (snd s) \<Longrightarrow> announced (snd (fst (event_apply (Update tp suppress held label) s))) \<and>
           snd (event_apply (Update tp suppress held label) s) \<noteq> Some NoticeFailed"
    and "snd (event_apply (Update tp suppress held label) s) \<in> {Some NoticeFailed, Some NoticeFinished} \<Longrightarrow>
           announced (snd (fst (event_apply (Update tp suppress held label) s)))"
proof -
  obtain prev t where s: "s = (prev, t)" by (cases s)
  obtain st u where o: "op_apply tp s = (st, u)" by (cases "op_apply tp s")
  define r where "r = settle_update prev st suppress (prev \<noteq> st \<and> tt_last_completion_interrupted u) held label u"
  have e: "event_apply (Update tp suppress held label) s = ((st, fst r), snd r)"
    using o by (simp add: s r_def case_prod_beta Let_def)
  have u: "announced t \<Longrightarrow> announced u" "announced t \<Longrightarrow> \<not> notice_pending u"
    using op_apply_stays_announced [OF assms(2)] op_apply_announced [of tp s] assms(1) o
    by (auto simp: s turn_inv_def)
  show "announced (snd s) \<Longrightarrow> announced (snd (fst (event_apply (Update tp suppress held label) s))) \<and>
           snd (event_apply (Update tp suppress held label) s) \<noteq> Some NoticeFailed"
    using u unfolding e by (simp add: s r_def settle_update_notice settle_update_kind)
  show "snd (event_apply (Update tp suppress held label) s) \<in> {Some NoticeFailed, Some NoticeFinished} \<Longrightarrow>
           announced (snd (fst (event_apply (Update tp suppress held label) s)))"
    using settle_update_kind(1) unfolding e by (auto simp: r_def settle_update_notice)
qed

lemma event_apply_announced:
  assumes "turn_inv s" "\<not> ends_turn s e"
  shows "announced (snd s) \<Longrightarrow> announced (snd (fst (event_apply e s))) \<and> snd (event_apply e s) \<noteq> Some NoticeFailed"
    and "snd (event_apply e s) \<in> {Some NoticeFailed, Some NoticeFinished} \<Longrightarrow> announced (snd (fst (event_apply e s)))"
proof -
  have "(announced (snd s) \<longrightarrow> announced (snd (fst (event_apply e s))) \<and> snd (event_apply e s) \<noteq> Some NoticeFailed) \<and>
    (snd (event_apply e s) \<in> {Some NoticeFailed, Some NoticeFinished} \<longrightarrow> announced (snd (fst (event_apply e s))))"
  proof (cases e)
    case (Update tp suppress held label)
    with update_announced assms show ?thesis by blast
  next
    case Look
    then show ?thesis by (cases s) (simp add: notice_simps)
  next
    case (Interrupt now)
    then show ?thesis by (cases s) (simp add: notice_simps)
  next
    case (ReleaseHeld label)
    then show ?thesis by (cases s) (simp add: notice_simps release_completion_def)
  qed
  then show "announced (snd s) \<Longrightarrow> announced (snd (fst (event_apply e s))) \<and> snd (event_apply e s) \<noteq> Some NoticeFailed"
    and "snd (event_apply e s) \<in> {Some NoticeFailed, Some NoticeFinished} \<Longrightarrow> announced (snd (fst (event_apply e s)))"
    by blast+
qed

lemma run_events_announced:
  "turn_inv s \<Longrightarrow> within_turn s es \<Longrightarrow> announced (snd s) \<Longrightarrow> Some NoticeFailed \<notin> set (snd (run_events s es))"
proof (induction es arbitrary: s)
  case (Cons e es)
  then have "turn_inv (fst (event_apply e s))" "announced (snd (fst (event_apply e s)))"
    "snd (event_apply e s) \<noteq> Some NoticeFailed"
    using event_apply_inv event_apply_announced(1) by auto
  with Cons show ?case by (simp add: case_prod_beta Let_def)
qed simp

lemma run_events_outcomes:
  assumes "turn_inv s" "within_turn s es"
  shows "count_list (snd (run_events s es)) (Some NoticeFailed) \<le> 1 \<and>
    (\<forall>as bs. snd (run_events s es) = as @ Some NoticeFinished # bs \<longrightarrow> Some NoticeFailed \<notin> set bs)"
  using assms
proof (induction es arbitrary: s)
  case (Cons e es)
  obtain s' kind where e: "event_apply e s = (s', kind)" by (cases "event_apply e s")
  then have inv: "turn_inv s'" using event_apply_inv [OF Cons.prems(1), of e] by simp
  have w: "within_turn s' es" "\<not> ends_turn s e" using Cons.prems(2) e by simp_all
  show ?case
  proof (cases "kind \<in> {Some NoticeFailed, Some NoticeFinished}")
    case True
    then have "announced (snd s')" using event_apply_announced(2) [OF Cons.prems(1) w(2)] e by simp
    then have "Some NoticeFailed \<notin> set (snd (run_events s' es))" using run_events_announced inv w(1) by blast
    with True show ?thesis
      by (auto simp: e case_prod_beta Let_def count_list_0_iff Cons_eq_append_conv)
  next
    case False
    then show ?thesis using Cons.IH [OF inv w(1)] by (auto simp: e case_prod_beta Let_def Cons_eq_append_conv)
  qed
qed simp

lemma turn_inv_default: "st \<noteq> Working \<Longrightarrow> turn_inv (st, tracker_default)"
  by (simp add: turn_inv_def notice_pending_def announced_def tracker_default_def)

text \<open>
  C25.  A turn has one outcome: from any state reached in any way, as long as no event ends
  the turn, at most one failure is announced, and none once the turn's completion was.
\<close>

theorem one_outcome_a_turn:
  assumes "st \<noteq> Working" and "turn_step\<^sup>*\<^sup>* (st, tracker_default) s" and "within_turn s es"
  shows "count_list (snd (run_events s es)) (Some NoticeFailed) \<le> 1 \<and>
    (\<forall>before later. snd (run_events s es) = before @ Some NoticeFinished # later \<longrightarrow> Some NoticeFailed \<notin> set later)"
  using run_events_outcomes [OF turn_run.run_keeps [OF assms(2) turn_inv_default [OF assms(1)]] assms(3)] .

definition ex_failed :: "nat \<Rightarrow> turn_event" where
  "ex_failed n = Update (Report [97] [97] None (ReportFailed None (Some [n])) 5) False False None"

lemmas event_evals =
  tracker_default_def report_attention_def accept_report_def turn_defs settle_update_def decide_kind
  classify_def attention_input_of_def release_completion_def other_agent_def

theorem one_outcome_a_turn_witness:
  "within_turn (Idle, tracker_default) [ex_failed 1, Look, ex_failed 2] \<and>
   snd (run_events (Idle, tracker_default) [ex_failed 1, Look, ex_failed 2]) = [Some NoticeFailed, None, None] \<and>
   count_list (snd (run_events (Idle, tracker_default) [ex_failed 1, Look, ex_failed 2])) (Some NoticeFailed) \<le> 1"
proof -
  have w: "within_turn (Idle, tracker_default) [ex_failed 1, Look, ex_failed 2]"
    by (simp add: ex_failed_def event_evals)
  have "snd (run_events (Idle, tracker_default) [ex_failed 1, Look, ex_failed 2]) = [Some NoticeFailed, None, None]"
    by (simp add: ex_failed_def event_evals)
  with w one_outcome_a_turn [of Idle, OF _ rtranclp.rtrancl_refl w] show ?thesis by simp
qed

subsection \<open>A failure of a working agent is announced\<close>

text \<open>The events that leave a pending failure alone, whatever else they change.\<close>

fun leaves_failure :: "turn_state \<Rightarrow> turn_event \<Rightarrow> bool" where
  "leaves_failure (prev, t) (Update (StateChange st now now_ms) suppress held label) \<longleftrightarrow> st = prev"
| "leaves_failure (prev, t) (Update (AgentChange agent) suppress held label) \<longleftrightarrow>
     (case agent of None \<Rightarrow> True
      | Some current \<Rightarrow> \<not> other_agent (Option.bind (tt_failed_attention t) fl_agent_label) current)"
| "leaves_failure (prev, t) (Update (Report source agent seq report now_ms) suppress held label) \<longleftrightarrow> report \<noteq> ReportClear"
| "leaves_failure (prev, t) (Update ForgetAgent suppress held label) \<longleftrightarrow> False"
| "leaves_failure s e \<longleftrightarrow> True"

fun all_leave_failure :: "turn_state \<Rightarrow> turn_event list \<Rightarrow> bool" where
  "all_leave_failure s [] \<longleftrightarrow> True"
| "all_leave_failure s (e # es) \<longleftrightarrow> leaves_failure s e \<and> all_leave_failure (fst (event_apply e s)) es"

lemma op_apply_leaves:
  assumes "turn_open t" "notice_pending t" "leaves_failure (Working, t) (Update tp suppress held label)"
  shows "\<exists>u. op_apply tp (Working, t) = (Working, u) \<and> notice_pending u"
  using assms
proof (cases tp)
  case (ObserveError err at_ms agent now_ms)
  with assms show ?thesis by (simp add: observe_error_def)
qed (auto simp: pending_kept intro: pending_kept_agent split: option.splits)

lemma event_apply_leaves:
  assumes "turn_inv (Working, t)" "notice_pending t" "leaves_failure (Working, t) e"
  shows "\<exists>u. fst (event_apply e (Working, t)) = (Working, u) \<and> notice_pending u"
proof (cases e)
  case (Update tp suppress held label)
  have "turn_open t" using assms(1) by (simp add: turn_inv_def)
  with op_apply_leaves [OF _ assms(2)] assms(3) Update
  obtain u where "op_apply tp (Working, t) = (Working, u)" "notice_pending u" by blast
  then show ?thesis by (simp add: Update settle_update_working case_prod_beta)
qed (use assms in \<open>simp_all add: notice_simps release_completion_def\<close>)

lemma run_events_leaves:
  "turn_inv (Working, t) \<Longrightarrow> notice_pending t \<Longrightarrow> all_leave_failure (Working, t) es \<Longrightarrow>
   \<exists>u. fst (run_events (Working, t) es) = (Working, u) \<and> notice_pending u"
proof (induction es arbitrary: t)
  case (Cons e es)
  then obtain u where u: "fst (event_apply e (Working, t)) = (Working, u)" "notice_pending u"
    using event_apply_leaves [of t e] by auto
  moreover have "turn_inv (Working, u)" using event_apply_inv [OF Cons.prems(1), of e] u(1) by simp
  ultimately show ?case using Cons.IH [of u] Cons.prems(3) by (simp add: case_prod_beta)
qed simp


definition ex_working :: turn_state where
  "ex_working = fst (run_events (Idle, tracker_default)
     [Update (StateChange Working 0 10) False False None, ex_failed 1])"


end
