(* ===== verification/EventHub.thy ===== *)
theory EventHub
  imports Prelude
begin

section \<open>The event history and its subscribers\<close>

text \<open>
  The bounded history of server events, \<open>api/event_hub.rs\<close>, with the event kinds of
  \<open>api/schema/events.rs\<close> and the subscription of \<open>api/subscriptions.rs\<close> that reads it with
  a cursor.  The history keeps a window of numbered events; for every kind it records the
  highest number that left the window, so that a reader learns of every loss that concerns
  it.  The payload of an event and its JSON encoding are parameters.  A poisoned lock is a
  hub without a state.

  The theorems relate the window to the log of all events ever pushed.
\<close>

datatype event_kind =
    WorkspaceCreated
  | WorkspaceUpdated
  | WorkspaceMetadataUpdated
  | WorkspaceClosed
  | WorkspaceRenamed
  | WorkspaceMoved
  | WorkspaceReordered
  | WorkspaceFocused
  | WorktreeCreated
  | WorktreeOpened
  | WorktreeRemoved
  | TabCreated
  | TabClosed
  | TabRenamed
  | TabMoved
  | TabFocused
  | PaneCreated
  | PaneClosed
  | PaneUpdated
  | PaneFocused
  | PaneMoved
  | PaneOutputChanged
  | PaneExited
  | PaneAgentDetected
  | PaneAgentStatusChanged
  | LayoutUpdated
  | PaneAgentActivityChanged

definition EVENT_KIND_COUNT :: nat where
  "EVENT_KIND_COUNT = 27"

fun kind_index :: "event_kind \<Rightarrow> nat" where
  "kind_index WorkspaceCreated = 0"
| "kind_index WorkspaceUpdated = 1"
| "kind_index WorkspaceMetadataUpdated = 2"
| "kind_index WorkspaceClosed = 3"
| "kind_index WorkspaceRenamed = 4"
| "kind_index WorkspaceMoved = 5"
| "kind_index WorkspaceReordered = 6"
| "kind_index WorkspaceFocused = 7"
| "kind_index WorktreeCreated = 8"
| "kind_index WorktreeOpened = 9"
| "kind_index WorktreeRemoved = 10"
| "kind_index TabCreated = 11"
| "kind_index TabClosed = 12"
| "kind_index TabRenamed = 13"
| "kind_index TabMoved = 14"
| "kind_index TabFocused = 15"
| "kind_index PaneCreated = 16"
| "kind_index PaneClosed = 17"
| "kind_index PaneUpdated = 18"
| "kind_index PaneFocused = 19"
| "kind_index PaneMoved = 20"
| "kind_index PaneOutputChanged = 21"
| "kind_index PaneExited = 22"
| "kind_index PaneAgentDetected = 23"
| "kind_index PaneAgentStatusChanged = 24"
| "kind_index LayoutUpdated = 25"
| "kind_index PaneAgentActivityChanged = 26"

fun dot_name :: "event_kind \<Rightarrow> string" where
  "dot_name WorkspaceCreated = ''workspace.created''"
| "dot_name WorkspaceUpdated = ''workspace.updated''"
| "dot_name WorkspaceMetadataUpdated = ''workspace.metadata_updated''"
| "dot_name WorkspaceClosed = ''workspace.closed''"
| "dot_name WorkspaceRenamed = ''workspace.renamed''"
| "dot_name WorkspaceMoved = ''workspace.moved''"
| "dot_name WorkspaceReordered = ''workspace.reordered''"
| "dot_name WorkspaceFocused = ''workspace.focused''"
| "dot_name WorktreeCreated = ''worktree.created''"
| "dot_name WorktreeOpened = ''worktree.opened''"
| "dot_name WorktreeRemoved = ''worktree.removed''"
| "dot_name TabCreated = ''tab.created''"
| "dot_name TabClosed = ''tab.closed''"
| "dot_name TabRenamed = ''tab.renamed''"
| "dot_name TabMoved = ''tab.moved''"
| "dot_name TabFocused = ''tab.focused''"
| "dot_name PaneCreated = ''pane.created''"
| "dot_name PaneClosed = ''pane.closed''"
| "dot_name PaneUpdated = ''pane.updated''"
| "dot_name PaneFocused = ''pane.focused''"
| "dot_name PaneMoved = ''pane.moved''"
| "dot_name PaneOutputChanged = ''pane.output_changed''"
| "dot_name PaneExited = ''pane.exited''"
| "dot_name PaneAgentDetected = ''pane.agent_detected''"
| "dot_name PaneAgentStatusChanged = ''pane.agent_status_changed''"
| "dot_name LayoutUpdated = ''layout.updated''"
| "dot_name PaneAgentActivityChanged = ''pane.agent_activity_changed''"

definition all_kinds :: "event_kind list" where
  "all_kinds = [WorkspaceCreated, WorkspaceUpdated, WorkspaceMetadataUpdated, WorkspaceClosed, WorkspaceRenamed, WorkspaceMoved,
     WorkspaceReordered, WorkspaceFocused, WorktreeCreated, WorktreeOpened, WorktreeRemoved, TabCreated,
     TabClosed, TabRenamed, TabMoved, TabFocused, PaneCreated, PaneClosed,
     PaneUpdated, PaneFocused, PaneMoved, PaneOutputChanged, PaneExited, PaneAgentDetected,
     PaneAgentStatusChanged, LayoutUpdated, PaneAgentActivityChanged]"

lemma all_kinds_index [simp]: "all_kinds ! kind_index k = k"
  by (cases k) (simp_all add: all_kinds_def nth_Cons')

lemma kind_index_less [simp]: "kind_index k < EVENT_KIND_COUNT"
  by (cases k) (simp_all add: EVENT_KIND_COUNT_def)

lemma kind_index_eq [simp]: "kind_index k = kind_index k' \<longleftrightarrow> k = k'"
  by (metis all_kinds_index)

subsection \<open>The history\<close>

record 'd event_envelope =
  ev_kind :: event_kind
  ev_data :: 'd

record 'd event_hub_state =
  hs_next_sequence :: u64
  hs_capacity :: usize
  hs_evicted_through_sequence :: u64
  hs_evicted_through_by_kind :: "u64 list"
  hs_events :: "(u64 \<times> 'd event_envelope) list"

record event_gap =
  gap_from :: u64
  gap_to :: u64

record 'd retained_events =
  re_events :: "(u64 \<times> 'd event_envelope) list"
  re_gap :: "event_gap option"

datatype history_error = Unavailable

record error_body =
  eb_code :: string
  eb_message :: string

type_synonym 'd event_hub = "'d event_hub_state option"

definition MAX_EVENTS :: nat where
  "MAX_EVENTS = 512"

definition with_capacity :: "nat \<Rightarrow> 'd event_hub" where
  "with_capacity capacity = Some \<lparr> hs_next_sequence = 0, hs_capacity = max capacity 1,
     hs_evicted_through_sequence = 0, hs_evicted_through_by_kind = replicate EVENT_KIND_COUNT 0,
     hs_events = [] \<rparr>"

definition hub_default :: "'d event_hub" where
  "hub_default = with_capacity MAX_EVENTS"

definition evicted_through :: "'d event_hub_state \<Rightarrow> event_kind option \<Rightarrow> u64" where
  "evicted_through h kind =
     (case kind of
        Some kind \<Rightarrow> hs_evicted_through_by_kind h ! kind_index kind
      | None \<Rightarrow> hs_evicted_through_sequence h)"

function evict :: "'d event_hub_state \<Rightarrow> 'd event_hub_state" where
  "evict h =
     (if length (hs_events h) \<le> hs_capacity h then h
      else case hs_events h of
        [] \<Rightarrow> h
      | (evicted, event) # events \<Rightarrow>
          evict (h\<lparr>hs_events := events, hs_evicted_through_sequence := evicted,
                   hs_evicted_through_by_kind := (hs_evicted_through_by_kind h)[kind_index (ev_kind event) := evicted]\<rparr>))"
  by pat_completeness auto
termination by (relation "measure (\<lambda>h. length (hs_events h))") auto

declare evict.simps [simp del]

definition state_push :: "'d event_envelope \<Rightarrow> 'd event_hub_state \<Rightarrow> 'd event_hub_state" where
  "state_push event h =
     (let sequence = wadd64 (hs_next_sequence h) 1
      in evict (h\<lparr>hs_next_sequence := sequence, hs_events := hs_events h @ [(sequence, event)]\<rparr>))"

definition collect_after :: "u64 \<Rightarrow> 'd event_hub_state \<Rightarrow> (u64 \<times> 'd event_envelope) list" where
  "collect_after sequence h = filter (\<lambda>(s, _). sequence < s) (hs_events h)"

definition hub_push :: "'d event_envelope \<Rightarrow> 'd event_hub \<Rightarrow> 'd event_hub" where
  "hub_push event hub = map_option (state_push event) hub"

definition retained_after :: "u64 \<Rightarrow> event_kind option \<Rightarrow> 'd event_hub \<Rightarrow> history_error + 'd retained_events" where
  "retained_after sequence kind hub =
     (case hub of
        None \<Rightarrow> Inl Unavailable
      | Some state \<Rightarrow>
          let through = evicted_through state kind
          in Inr \<lparr> re_events = collect_after sequence state,
                   re_gap = (if sequence < through
                             then Some \<lparr> gap_from = sat_add u64_max sequence 1, gap_to = through \<rparr>
                             else None) \<rparr>)"

definition current_sequence :: "'d event_hub \<Rightarrow> u64" where
  "current_sequence hub = (case hub of None \<Rightarrow> 0 | Some state \<Rightarrow> hs_next_sequence state)"

definition response_error :: "history_error \<Rightarrow> error_body" where
  "response_error e = \<lparr> eb_code = ''server_unavailable'', eb_message = ''event history is unavailable'' \<rparr>"

subsection \<open>Subscriptions\<close>

record 'v event_subscription =
  es_event_kind :: event_kind
  es_last_sequence :: u64
  es_pending :: "'v list"

record 'v subscription_round =
  sr_gap :: "event_gap option"
  sr_events :: "'v list"

text \<open>\<open>encode\<close> is the JSON value of a numbered event, if it has one.\<close>

fun take_retained :: "(u64 \<Rightarrow> 'd event_envelope \<Rightarrow> 'v option) \<Rightarrow> (u64 \<times> 'd event_envelope) list \<Rightarrow>
    'v event_subscription \<Rightarrow> 'v event_subscription" where
  "take_retained encode [] sub = sub"
| "take_retained encode ((sequence, event) # events) sub =
     (let sub = sub\<lparr>es_last_sequence := sequence\<rparr>
      in take_retained encode events
           (if ev_kind event \<noteq> es_event_kind sub then sub
            else case encode sequence event of
              Some v \<Rightarrow> sub\<lparr>es_pending := es_pending sub @ [v]\<rparr>
            | None \<Rightarrow> sub))"

definition refill :: "(u64 \<Rightarrow> 'd event_envelope \<Rightarrow> 'v option) \<Rightarrow> 'd event_hub \<Rightarrow> 'v event_subscription \<Rightarrow>
    error_body + ('v event_subscription \<times> event_gap option)" where
  "refill encode hub sub =
     (case retained_after (es_last_sequence sub) (Some (es_event_kind sub)) hub of
        Inl e \<Rightarrow> Inl (response_error e)
      | Inr retained \<Rightarrow> Inr (take_retained encode (re_events retained) sub, re_gap retained))"

definition sub_poll :: "(u64 \<Rightarrow> 'd event_envelope \<Rightarrow> 'v option) \<Rightarrow> 'd event_hub \<Rightarrow> 'v event_subscription \<Rightarrow>
    error_body + ('v event_subscription \<times> 'v subscription_round)" where
  "sub_poll encode hub sub =
     (case refill encode hub sub of
        Inl e \<Rightarrow> Inl e
      | Inr (sub, gap) \<Rightarrow> Inr (sub\<lparr>es_pending := []\<rparr>, \<lparr> sr_gap = gap, sr_events = es_pending sub \<rparr>))"

definition poll_next :: "(u64 \<Rightarrow> 'd event_envelope \<Rightarrow> 'v option) \<Rightarrow> 'd event_hub \<Rightarrow> 'v event_subscription \<Rightarrow>
    error_body + ('v event_subscription \<times> 'v option)" where
  "poll_next encode hub sub =
     (case (if es_pending sub = [] then refill encode hub sub else Inr (sub, None)) of
        Inl e \<Rightarrow> Inl e
      | Inr (sub, _) \<Rightarrow>
          (case es_pending sub of
             [] \<Rightarrow> Inr (sub, None)
           | v # vs \<Rightarrow> Inr (sub\<lparr>es_pending := vs\<rparr>, Some v)))"

text \<open>
  One round over all subscriptions of a connection.  How a subscription is polled is the
  argument \<open>poll\<close> (an event subscription reads the history, the others ask the
  application); a gap is announced once, ahead of the events, to a connection that asked for
  notices, and ends the stream of any other.
\<close>

definition events_lost_error :: error_body where
  "events_lost_error = \<lparr> eb_code = ''events_lost'',
     eb_message = ''event subscription fell behind retained history; resubscribe and resync with session.snapshot'' \<rparr>"

fun collect_rounds :: "('s \<Rightarrow> error_body + ('s \<times> 'v subscription_round)) \<Rightarrow> bool \<Rightarrow> event_gap list \<Rightarrow> 'v list \<Rightarrow>
    's list \<Rightarrow> error_body + ('s list \<times> event_gap list \<times> 'v list)" where
  "collect_rounds poll notices gaps events [] = Inr ([], gaps, events)"
| "collect_rounds poll notices gaps events (sub # subs) =
     (case poll sub of
        Inl e \<Rightarrow> Inl e
      | Inr (sub, outcome) \<Rightarrow>
          if sr_gap outcome \<noteq> None \<and> \<not> notices then Inl events_lost_error
          else
            let gaps = (case sr_gap outcome of
                          Some gap \<Rightarrow> if gap \<in> set gaps then gaps else gaps @ [gap]
                        | None \<Rightarrow> gaps)
            in (case collect_rounds poll notices gaps (events @ sr_events outcome) subs of
                  Inl e \<Rightarrow> Inl e
                | Inr (subs, result) \<Rightarrow> Inr (sub # subs, result)))"

definition poll_subscriptions_round :: "('s \<Rightarrow> error_body + ('s \<times> 'v subscription_round)) \<Rightarrow>
    (event_gap \<Rightarrow> 'v option) \<Rightarrow> bool \<Rightarrow> 's list \<Rightarrow> error_body + ('s list \<times> 'v list)" where
  "poll_subscriptions_round poll gap_notice_value notices subscriptions =
     (case collect_rounds poll notices [] [] subscriptions of
        Inl e \<Rightarrow> Inl e
      | Inr (subs, gaps, events) \<Rightarrow> Inr (subs, List.map_filter gap_notice_value gaps @ events))"

subsection \<open>The window and the log of all events\<close>

definition numbered :: "'a list \<Rightarrow> (nat \<times> 'a) list" where
  "numbered xs = zip [1..<Suc (length xs)] xs"

lemma numbered_length [simp]: "length (numbered xs) = length xs"
  by (simp add: numbered_def del: upt_Suc)

lemma numbered_nth: "i < length xs \<Longrightarrow> numbered xs ! i = (Suc i, xs ! i)"
  by (simp add: numbered_def nth_upt del: upt_Suc)

lemma numbered_snoc: "numbered (xs @ [x]) = numbered xs @ [(Suc (length xs), x)]"
  by (rule nth_equalityI) (auto simp: numbered_nth nth_append less_Suc_eq)

definition highest :: "event_kind \<Rightarrow> (u64 \<times> 'd event_envelope) list \<Rightarrow> u64" where
  "highest k xs = foldl (\<lambda>acc (s, e). if ev_kind e = k then s else acc) 0 xs"

lemma highest_simps [simp]:
  "highest k [] = 0" "highest k (xs @ [(s, e)]) = (if ev_kind e = k then s else highest k xs)"
  by (simp_all add: highest_def)

definition hub_of :: "'d event_envelope list \<Rightarrow> 'd event_hub_state \<Rightarrow> bool" where
  "hub_of hist h \<longleftrightarrow>
     1 \<le> hs_capacity h \<and> hs_next_sequence h = length hist \<and>
     hs_events h = drop (length hist - hs_capacity h) (numbered hist) \<and>
     hs_evicted_through_sequence h = length hist - hs_capacity h \<and>
     length (hs_evicted_through_by_kind h) = EVENT_KIND_COUNT \<and>
     (\<forall>k. hs_evicted_through_by_kind h ! kind_index k = highest k (take (length hist - hs_capacity h) (numbered hist)))"

lemma hub_of_default: "\<exists>h. with_capacity c = Some h \<and> hub_of [] h \<and> hs_capacity h = max c 1"
  by (simp add: with_capacity_def hub_of_def numbered_def)

lemma hub_of_push:
  assumes "hub_of hist h" "length hist < u64_max"
  shows "hub_of (hist @ [e]) (state_push e h)" and "hs_capacity (state_push e h) = hs_capacity h"
proof -
  define n c where "n = length hist" and "c = hs_capacity h"
  define h' where "h' = h\<lparr>hs_next_sequence := Suc n, hs_events := hs_events h @ [(Suc n, e)]\<rparr>"
  have push: "state_push e h = evict h'"
    using assms by (simp add: state_push_def h'_def n_def hub_of_def Let_def)
  have ev: "hs_events h' = drop (n - c) (numbered hist @ [(Suc n, e)])"
    using assms(1) by (simp add: h'_def hub_of_def n_def c_def)
  have "hub_of (hist @ [e]) (evict h') \<and> hs_capacity (evict h') = c"
  proof (cases "n < c")
    case True
    then have "evict h' = h'" by (subst evict.simps) (simp add: ev n_def [symmetric], simp add: h'_def c_def)
    with True assms(1) ev show ?thesis
      by (simp add: hub_of_def numbered_snoc n_def c_def h'_def)
  next
    case False
    have c: "1 \<le> c" using assms(1) by (simp add: hub_of_def c_def)
    with False have lt: "n - c < length (numbered hist)" by (simp add: n_def)
    then have hd: "drop (n - c) (numbered hist) = (Suc (n - c), hist ! (n - c)) # drop (Suc n - c) (numbered hist)"
      using False by (subst Cons_nth_drop_Suc [symmetric]) (simp_all add: numbered_nth Suc_diff_le)
    define rest where "rest = drop (Suc n - c) (numbered hist) @ [(Suc n, e)]"
    have ev': "hs_events h' = (Suc (n - c), hist ! (n - c)) # rest" using ev hd lt by (simp add: rest_def)
    have len: "length rest = c" using False c by (simp add: rest_def n_def)
    let ?h = "h'\<lparr>hs_events := rest, hs_evicted_through_sequence := Suc (n - c),
      hs_evicted_through_by_kind := (hs_evicted_through_by_kind h')[kind_index (ev_kind (hist ! (n - c))) := Suc (n - c)]\<rparr>"
    have cap: "hs_capacity h' = c" by (simp add: h'_def c_def)
    have "evict h' = evict ?h" by (subst evict.simps) (simp add: ev' len cap)
    also have "\<dots> = ?h" by (subst evict.simps) (simp add: len cap)
    finally have h: "evict h' = ?h" .
    have gone: "take (Suc (n - c)) (numbered (hist @ [e])) =
        take (n - c) (numbered hist) @ [(Suc (n - c), hist ! (n - c))]"
      using False lt by (simp add: numbered_snoc Suc_diff_le take_Suc_conv_app_nth numbered_nth)
    have win: "drop (Suc (n - c)) (numbered (hist @ [e])) = rest"
      using lt False by (simp add: rest_def numbered_snoc n_def Suc_diff_le)
    have kinds: "(hs_evicted_through_by_kind h)[kind_index (ev_kind (hist ! (n - c))) := Suc (n - c)] ! kind_index k =
        highest k (take (n - c) (numbered hist) @ [(Suc (n - c), hist ! (n - c))])" for k
      using assms(1) by (auto simp: hub_of_def n_def c_def nth_list_update)
    show ?thesis
      using assms(1) c False win gone kinds unfolding h
      by (simp add: hub_of_def h'_def Suc_diff_le c_def n_def)
  qed
  then show "hub_of (hist @ [e]) (state_push e h)" "hs_capacity (state_push e h) = hs_capacity h"
    by (simp_all add: push c_def)
qed

lemma drop_numbered: "drop m (numbered xs) = filter (\<lambda>p. m < fst p) (numbered xs)"
  and take_numbered: "take m (numbered xs) = filter (\<lambda>p. fst p \<le> m) (numbered xs)"
proof -
  have "drop m (numbered xs) = filter (\<lambda>p. m < fst p) (numbered xs) \<and> 
        take m (numbered xs) = filter (\<lambda>p. fst p \<le> m) (numbered xs)"
    by (induction xs rule: rev_induct) (auto simp: numbered_snoc numbered_def [of "[]"])
  then show "drop m (numbered xs) = filter (\<lambda>p. m < fst p) (numbered xs)"
    and "take m (numbered xs) = filter (\<lambda>p. fst p \<le> m) (numbered xs)" by blast+
qed

lemma set_numbered: "(i, x) \<in> set (numbered xs) \<longleftrightarrow> 1 \<le> i \<and> i \<le> length xs \<and> xs ! (i - 1) = x"
proof -
  have "(i, x) \<in> set (numbered xs) \<longleftrightarrow> (\<exists>j<length xs. i = Suc j \<and> x = xs ! j)"
    unfolding in_set_conv_nth by (auto simp: numbered_nth)
  also have "\<dots> \<longleftrightarrow> 1 \<le> i \<and> i \<le> length xs \<and> xs ! (i - 1) = x"
    by (cases i) auto
  finally show ?thesis .
qed

text \<open>The recorded mark of a kind is the last lost event of the kind, and no other such event is later.\<close>

lemma highest_numbered:
  "(i, e) \<in> set (take m (numbered xs)) \<Longrightarrow> ev_kind e = k \<Longrightarrow> i \<le> highest k (take m (numbered xs))"
  "highest k (take m (numbered xs)) = 0 \<or>
   (\<exists>e. (highest k (take m (numbered xs)), e) \<in> set (take m (numbered xs)) \<and> ev_kind e = k)"
proof (induction m)
  case (Suc m)
  {
    case 1
    have "i \<le> m" if "(i, e) \<in> set (take m (numbered xs))" using that by (simp add: take_numbered)
    with 1 Suc(1) show ?case
      by (cases "m < length xs") (auto simp: take_Suc_conv_app_nth numbered_nth)
  next
    case 2
    then show ?case
      using Suc(2) by (cases "m < length xs") (auto simp: take_Suc_conv_app_nth numbered_nth)
  }
qed simp_all

lemma collect_after_hub_of:
  "hub_of hist h \<Longrightarrow> collect_after s h = filter (\<lambda>p. max s (length hist - hs_capacity h) < fst p) (numbered hist)"
  by (auto simp: collect_after_def hub_of_def drop_numbered case_prod_beta intro!: filter_cong)

definition push_all :: "nat \<Rightarrow> 'd event_envelope list \<Rightarrow> 'd event_hub" where
  "push_all c hist = foldl (\<lambda>hub e. hub_push e hub) (with_capacity c) hist"

lemma push_all_hub_of:
  "length hist \<le> u64_max \<Longrightarrow> \<exists>h. push_all c hist = Some h \<and> hub_of hist h \<and> hs_capacity h = max c 1"
proof (induction hist rule: rev_induct)
  case Nil
  then show ?case using hub_of_default [of c] by (simp add: push_all_def)
next
  case (snoc e hist)
  then obtain h where "push_all c hist = Some h" "hub_of hist h" "hs_capacity h = max c 1" by auto
  with snoc.prems hub_of_push [of hist h e] show ?case by (simp add: push_all_def hub_push_def)
qed

definition concerns :: "event_kind option \<Rightarrow> 'd event_envelope \<Rightarrow> bool" where
  "concerns kind e = (case kind of None \<Rightarrow> True | Some k \<Rightarrow> ev_kind e = k)"

lemma evicted_through_bound:
  assumes "hub_of hist h" "(i, e) \<in> set (take (length hist - hs_capacity h) (numbered hist))" "concerns kind e"
  shows "i \<le> evicted_through h kind"
  using assms highest_numbered(1) [of i e _ hist]
  by (auto simp: evicted_through_def hub_of_def concerns_def take_numbered split: option.splits)

lemma evicted_through_lost:
  assumes "hub_of hist h" "evicted_through h kind \<noteq> 0"
  shows "\<exists>e. (evicted_through h kind, e) \<in> set (take (length hist - hs_capacity h) (numbered hist)) \<and> concerns kind e"
proof (cases kind)
  case None
  then have v: "evicted_through h kind = length hist - hs_capacity h" using assms(1) by (simp add: evicted_through_def hub_of_def)
  then have "(evicted_through h kind, hist ! (evicted_through h kind - 1)) \<in> set (numbered hist)"
    using assms(2) by (simp add: set_numbered)
  with v None show ?thesis by (auto simp: take_numbered concerns_def)
next
  case (Some k)
  then have "evicted_through h kind = highest k (take (length hist - hs_capacity h) (numbered hist))"
    using assms(1) by (simp add: evicted_through_def hub_of_def)
  with Some assms(2) highest_numbered(2) [of k "length hist - hs_capacity h" hist] show ?thesis
    by (auto simp: concerns_def)
qed

text \<open>
  C27.  The bounded history accounts for every event ever pushed: after any log of events a
  reader with a cursor gets, in order and with their numbers, exactly the events behind its
  cursor that are still in the window; and it is told of a gap exactly when an event that
  concerns it was lost behind its cursor, up to the last such event.
\<close>

theorem history_accounts_for_all_events:
  assumes "length hist \<le> u64_max" and "s < u64_max"
  shows "\<exists>r. retained_after s kind (push_all c hist) = Inr r \<and>
    re_events r = filter (\<lambda>(i, e). s < i \<and> length hist - max c 1 < i) (numbered hist) \<and>
    (let lost = filter (\<lambda>(i, e). s < i \<and> i \<le> length hist - max c 1 \<and> concerns kind e) (numbered hist)
     in re_gap r = (if lost = [] then None else Some \<lparr> gap_from = s + 1, gap_to = fst (last lost) \<rparr>))"
proof -
  obtain h where h: "push_all c hist = Some h" "hub_of hist h" "hs_capacity h = max c 1"
    using push_all_hub_of [OF assms(1)] by blast
  define v where "v = evicted_through h kind"
  define lost where "lost = filter (\<lambda>(i, e). s < i \<and> i \<le> length hist - max c 1 \<and> concerns kind e) (numbered hist)"
  have below: "i \<le> v" if "(i, e) \<in> set lost" for i e
    using that evicted_through_bound [OF h(2), of i e kind] h(3) by (auto simp: lost_def v_def take_numbered)
  have mem: "\<exists>e. (v, e) \<in> set lost" if "s < v"
    using that evicted_through_lost [OF h(2), of kind] h(3) by (auto simp: lost_def v_def take_numbered)
  have "fst (last lost) = v" if ne: "lost \<noteq> []"
  proof -
    have "s < fst (last lost)" using last_in_set [OF ne] by (auto simp: lost_def)
    also have "fst (last lost) \<le> v" using below [of "fst (last lost)" "snd (last lost)"] last_in_set [OF ne] by simp
    finally obtain e where "(v, e) \<in> set lost" using mem by blast
    moreover have "sorted (map fst lost)"
      unfolding lost_def by (rule sorted_filter) (simp add: numbered_def del: upt_Suc)
    ultimately have "v \<le> fst (last lost)"
      by (cases lost rule: rev_cases) (force simp: sorted_append)+
    with \<open>fst (last lost) \<le> v\<close> show ?thesis by simp
  qed
  moreover have "s < v \<longleftrightarrow> lost \<noteq> []"
  proof
    assume "lost \<noteq> []"
    then have "(fst (last lost), snd (last lost)) \<in> set lost" by simp
    moreover from this have "s < fst (last lost)" by (auto simp: lost_def)
    ultimately show "s < v" using below by fastforce
  qed (use mem in fastforce)
  moreover have "sat_add u64_max s 1 = s + 1" using assms(2) by (simp add: sat_add_def)
  moreover have "collect_after s h = filter (\<lambda>(i, e). s < i \<and> length hist - max c 1 < i) (numbered hist)"
    using collect_after_hub_of [OF h(2), of s] by (simp add: h(3) case_prod_unfold)
  ultimately show ?thesis
    unfolding Let_def lost_def [symmetric] by (simp add: retained_after_def Let_def h(1) v_def [symmetric])
qed

definition ex_event :: "event_kind \<Rightarrow> nat event_envelope" where
  "ex_event k = \<lparr> ev_kind = k, ev_data = 0 \<rparr>"

theorem history_accounts_for_all_events_witness:
  "\<exists>r. retained_after 0 (Some TabClosed) (push_all 2 [ex_event TabClosed, ex_event PaneUpdated, ex_event TabClosed, ex_event TabMoved]) = Inr r \<and>
     re_events r = [(3, ex_event TabClosed), (4, ex_event TabMoved)] \<and> re_gap r = Some \<lparr> gap_from = 1, gap_to = 1 \<rparr>"
proof -
  let ?hist = "[ex_event TabClosed, ex_event PaneUpdated, ex_event TabClosed, ex_event TabMoved]"
  have "length ?hist \<le> u64_max" "0 < u64_max" by (simp_all add: u64_max_def)
  from history_accounts_for_all_events [OF this, of "Some TabClosed" 2] show ?thesis
    by (simp add: numbered_def ex_event_def concerns_def upt_rec eval_nat_numeral)
qed

subsection \<open>A subscription loses nothing silently\<close>

text \<open>
  The run of a server and one subscriber: events are pushed and the subscription is polled,
  in any order.  Kept beside them are the log of all events, everything the subscriber was
  sent, and the gaps it was told of.
\<close>

record ('d, 'v) feed =
  fd_hist :: "'d event_envelope list"
  fd_hub :: "'d event_hub"
  fd_sub :: "'v event_subscription"
  fd_sent :: "'v list"
  fd_gaps :: "event_gap list"

inductive feed_step :: "(u64 \<Rightarrow> 'd event_envelope \<Rightarrow> 'v option) \<Rightarrow> ('d, 'v) feed \<Rightarrow> ('d, 'v) feed \<Rightarrow> bool"
  for encode where
  pushed: "length (fd_hist f) < u64_max - 1 \<Longrightarrow>
    feed_step encode f (f\<lparr>fd_hist := fd_hist f @ [e], fd_hub := hub_push e (fd_hub f)\<rparr>)"
| polled: "sub_poll encode (fd_hub f) (fd_sub f) = Inr (sub, r) \<Longrightarrow>
    feed_step encode f (f\<lparr>fd_sub := sub, fd_sent := fd_sent f @ sr_events r,
      fd_gaps := fd_gaps f @ (case sr_gap r of None \<Rightarrow> [] | Some g \<Rightarrow> [g])\<rparr>)"

inductive_cases feed_stepE: "feed_step encode f f'"

definition covered :: "event_gap list \<Rightarrow> u64 \<Rightarrow> bool" where
  "covered gaps i = list_ex (\<lambda>g. gap_from g \<le> i \<and> i \<le> gap_to g) gaps"

text \<open>The events a subscriber of kind \<open>k\<close> that started at \<open>start\<close> is owed once its cursor is \<open>n\<close>.\<close>

definition owed :: "event_kind \<Rightarrow> u64 \<Rightarrow> event_gap list \<Rightarrow> u64 \<Rightarrow> 'd event_envelope list \<Rightarrow> (u64 \<times> 'd event_envelope) list" where
  "owed k start gaps n hist =
     filter (\<lambda>(i, e). start < i \<and> ev_kind e = k \<and> \<not> covered gaps i) (take n (numbered hist))"

definition encoded :: "(u64 \<Rightarrow> 'd event_envelope \<Rightarrow> 'v option) \<Rightarrow> (u64 \<times> 'd event_envelope) list \<Rightarrow> 'v list" where
  "encoded encode xs = List.map_filter (\<lambda>(i, e). encode i e) xs"

definition feed_ok :: "(u64 \<Rightarrow> 'd event_envelope \<Rightarrow> 'v option) \<Rightarrow> event_kind \<Rightarrow> u64 \<Rightarrow> ('d, 'v) feed \<Rightarrow> bool" where
  "feed_ok encode k start f \<longleftrightarrow>
     (\<exists>h. fd_hub f = Some h \<and> hub_of (fd_hist f) h) \<and> length (fd_hist f) < u64_max \<and>
     es_event_kind (fd_sub f) = k \<and> es_pending (fd_sub f) = [] \<and>
     start \<le> es_last_sequence (fd_sub f) \<and> es_last_sequence (fd_sub f) \<le> length (fd_hist f) \<and>
     list_all (\<lambda>g. gap_to g \<le> es_last_sequence (fd_sub f)) (fd_gaps f) \<and>
     fd_sent f = encoded encode (owed k start (fd_gaps f) (es_last_sequence (fd_sub f)) (fd_hist f))"

lemma encoded_append [simp]: "encoded encode (xs @ ys) = encoded encode xs @ encoded encode ys"
  by (simp add: encoded_def List.map_filter_def)

lemma take_retained_eq:
  "take_retained encode xs sub = sub\<lparr>
     es_last_sequence := (if xs = [] then es_last_sequence sub else fst (last xs)),
     es_pending := es_pending sub @ encoded encode (filter (\<lambda>(i, e). ev_kind e = es_event_kind sub) xs)\<rparr>"
proof (induction xs arbitrary: sub)
  case (Cons x xs)
  obtain i e where x: "x = (i, e)" by (cases x)
  show ?case by (auto simp: x Cons.IH Let_def encoded_def List.map_filter_simps split: option.split)
qed (simp add: encoded_def List.map_filter_simps)

lemma owed_push: "n \<le> length hist \<Longrightarrow> owed k start gaps n (hist @ [e]) = owed k start gaps n hist"
  by (simp add: owed_def numbered_snoc)

lemma covered_append: "covered (gaps @ gaps') i \<longleftrightarrow> covered gaps i \<or> covered gaps' i"
  by (simp add: covered_def)

lemma covered_old: "list_all (\<lambda>g. gap_to g \<le> n) gaps \<Longrightarrow> n < i \<Longrightarrow> \<not> covered gaps i"
  by (auto simp: covered_def list_all_iff list_ex_iff)

text \<open>What one poll with cursor \<open>n\<close> returns, and that it moves the cursor to the end of the log.\<close>

lemma sub_poll_hub_of:
  assumes h: "hub_of hist h" "length hist < u64_max" and n: "es_last_sequence sub = n" "n \<le> length hist"
    and pend: "es_pending sub = []"
  defines "v \<equiv> evicted_through h (Some (es_event_kind sub))"
  shows "sub_poll encode (Some h) sub = Inr (sub\<lparr>es_last_sequence := length hist\<rparr>,
     \<lparr> sr_gap = (if n < v then Some \<lparr> gap_from = n + 1, gap_to = v \<rparr> else None),
       sr_events = encoded encode (filter (\<lambda>(i, e). n < i \<and> \<not> i \<le> v \<and> ev_kind e = es_event_kind sub) (numbered hist)) \<rparr>)"
proof -
  let ?k = "es_event_kind sub" and ?m = "max n (length hist - hs_capacity h)"
  let ?xs = "collect_after n h"
  have xs: "?xs = drop ?m (numbered hist)" using collect_after_hub_of [OF h(1), of n] by (simp add: drop_numbered)
  have cap: "1 \<le> hs_capacity h" using h(1) by (simp add: hub_of_def)
  have last: "(if ?xs = [] then n else fst (last ?xs)) = length hist"
  proof (cases "n < length hist")
    case True
    then have "last ?xs = numbered hist ! (length hist - 1)" "?xs \<noteq> []"
      using cap by (auto simp: xs last_drop last_conv_nth)
    with True show ?thesis by (simp add: numbered_nth)
  next
    case False
    then have "?xs = []" unfolding xs by simp
    with False n(2) show ?thesis by simp
  qed
  have eq: "length hist - hs_capacity h < i \<longleftrightarrow> \<not> i \<le> v" if "(i, e) \<in> set (numbered hist)" "ev_kind e = ?k" for i e
  proof
    assume "\<not> i \<le> v"
    then show "length hist - hs_capacity h < i"
      using evicted_through_bound [OF h(1), of i e "Some ?k"] that
      by (cases "i \<le> length hist - hs_capacity h") (auto simp: v_def take_numbered concerns_def)
  next
    assume "length hist - hs_capacity h < i"
    moreover have "v \<le> length hist - hs_capacity h"
      using evicted_through_lost [OF h(1), of "Some ?k"] by (cases "v = 0") (auto simp: v_def take_numbered)
    ultimately show "\<not> i \<le> v" by simp
  qed
  have "filter (\<lambda>(i, e). ev_kind e = ?k) ?xs = filter (\<lambda>(i, e). n < i \<and> \<not> i \<le> v \<and> ev_kind e = ?k) (numbered hist)"
    unfolding xs drop_numbered using eq by (auto intro!: filter_cong)
  moreover have "sat_add u64_max n 1 = n + 1" using n(2) h(2) by (simp add: sat_add_def)
  ultimately show ?thesis
    using last n(1) pend
    by (cases sub) (auto simp: sub_poll_def refill_def retained_after_def take_retained_eq Let_def v_def split: if_splits)
qed

lemma owed_extend:
  fixes v :: u64
  assumes "list_all (\<lambda>g. gap_to g \<le> n) gaps" "start \<le> n" "n \<le> length hist"
  defines "gs \<equiv> if n < v then [\<lparr> gap_from = n + 1, gap_to = v \<rparr>] else []"
  shows "owed k start (gaps @ gs) (length hist) hist =
     owed k start gaps n hist @ filter (\<lambda>(i, e). n < i \<and> \<not> i \<le> v \<and> ev_kind e = k) (numbered hist)"
proof -
  have split: "take (length hist) (numbered hist) = take n (numbered hist) @ drop n (numbered hist)" by simp
  have new: "covered gs i \<longleftrightarrow> n < i \<and> i \<le> v" for i by (auto simp: gs_def covered_def)
  have "filter (\<lambda>(i, e). start < i \<and> ev_kind e = k \<and> \<not> covered (gaps @ gs) i) (take n (numbered hist)) =
      owed k start gaps n hist"
    unfolding owed_def by (auto intro!: filter_cong simp: covered_append new take_numbered)
  moreover have "filter (\<lambda>(i, e). start < i \<and> ev_kind e = k \<and> \<not> covered (gaps @ gs) i) (drop n (numbered hist)) =
      filter (\<lambda>(i, e). n < i \<and> \<not> i \<le> v \<and> ev_kind e = k) (numbered hist)"
    unfolding drop_numbered filter_filter using assms(1,2) covered_old [OF assms(1)]
    by (auto intro!: filter_cong simp: covered_append new)
  ultimately show ?thesis unfolding owed_def split filter_append by simp
qed

lemma feed_poll_ok:
  assumes ok: "feed_ok encode k start f" and poll: "sub_poll encode (fd_hub f) (fd_sub f) = Inr (sub, r)"
  shows "feed_ok encode k start (f\<lparr>fd_sub := sub, fd_sent := fd_sent f @ sr_events r,
      fd_gaps := fd_gaps f @ (case sr_gap r of None \<Rightarrow> [] | Some g \<Rightarrow> [g])\<rparr>)"
proof -
  from ok obtain h where h: "fd_hub f = Some h" "hub_of (fd_hist f) h" by (auto simp: feed_ok_def)
  let ?n = "es_last_sequence (fd_sub f)" and ?hist = "fd_hist f"
  define v where "v = evicted_through h (Some k)"
  have n: "?n \<le> length ?hist" "start \<le> ?n" "length ?hist < u64_max" "es_pending (fd_sub f) = []"
    "es_event_kind (fd_sub f) = k" "list_all (\<lambda>g. gap_to g \<le> ?n) (fd_gaps f)"
    using ok by (simp_all add: feed_ok_def)
  have "sub_poll encode (fd_hub f) (fd_sub f) = Inr ((fd_sub f)\<lparr>es_last_sequence := length ?hist\<rparr>,
     \<lparr> sr_gap = (if ?n < v then Some \<lparr> gap_from = ?n + 1, gap_to = v \<rparr> else None),
       sr_events = encoded encode (filter (\<lambda>(i, e). ?n < i \<and> \<not> i \<le> v \<and> ev_kind e = k) (numbered ?hist)) \<rparr>)"
    using sub_poll_hub_of [OF h(2) n(3) refl n(1,4), of encode] by (simp add: h(1) n(5) v_def)
  with poll have sub: "sub = (fd_sub f)\<lparr>es_last_sequence := length ?hist\<rparr>"
    and gap: "(case sr_gap r of None \<Rightarrow> [] | Some g \<Rightarrow> [g]) = (if ?n < v then [\<lparr> gap_from = ?n + 1, gap_to = v \<rparr>] else [])"
    and sent: "sr_events r = encoded encode (filter (\<lambda>(i, e). ?n < i \<and> \<not> i \<le> v \<and> ev_kind e = k) (numbered ?hist))"
    by auto
  have "v \<le> length ?hist"
    using evicted_through_lost [OF h(2), of "Some k"] by (cases "v = 0") (auto simp: v_def take_numbered)
  then have "list_all (\<lambda>g. gap_to g \<le> length ?hist) (if ?n < v then [\<lparr> gap_from = ?n + 1, gap_to = v \<rparr>] else [])"
    and "list_all (\<lambda>g. gap_to g \<le> length ?hist) (fd_gaps f)"
    using n(1,6) by (auto simp: list_all_iff)
  moreover have "fd_sent f = encoded encode (owed k start (fd_gaps f) ?n ?hist)" using ok by (simp add: feed_ok_def)
  ultimately show ?thesis
    using ok owed_extend [OF n(6,2,1), of k v] unfolding gap
    by (simp add: feed_ok_def sub sent)
qed

lemma feed_push_ok:
  assumes "feed_ok encode k start f" "length (fd_hist f) < u64_max - 1"
  shows "feed_ok encode k start (f\<lparr>fd_hist := fd_hist f @ [e], fd_hub := hub_push e (fd_hub f)\<rparr>)"
  using assms hub_of_push(1) by (auto simp: feed_ok_def hub_push_def owed_push)

interpretation feed_run: kept_by_steps "feed_step encode" "feed_ok encode k start"
  by unfold_locales (auto elim!: feed_stepE intro: feed_poll_ok feed_push_ok)

definition feed_init :: "nat \<Rightarrow> 'd event_envelope list \<Rightarrow> event_kind \<Rightarrow> ('d, 'v) feed" where
  "feed_init c hist k = \<lparr> fd_hist = hist, fd_hub = push_all c hist,
     fd_sub = \<lparr> es_event_kind = k, es_last_sequence = current_sequence (push_all c hist), es_pending = [] \<rparr>,
     fd_sent = [], fd_gaps = [] \<rparr>"

lemma feed_init_ok:
  assumes "length hist < u64_max"
  shows "feed_ok encode k (length hist) (feed_init c hist k)"
proof -
  obtain h where "push_all c hist = Some h" "hub_of hist h" using push_all_hub_of [of hist c] assms by auto
  moreover from this have "current_sequence (push_all c hist) = length hist"
    by (simp add: current_sequence_def hub_of_def)
  ultimately show ?thesis using assms
    by (auto simp: feed_init_def feed_ok_def owed_def encoded_def List.map_filter_def take_numbered filter_empty_conv)
qed

lemma sub_poll_in_step:
  assumes "feed_ok encode k start f"
  shows "\<exists>sub r. sub_poll encode (fd_hub f) (fd_sub f) = Inr (sub, r) \<and> es_last_sequence sub = length (fd_hist f)"
  using assms sub_poll_hub_of by (fastforce simp: feed_ok_def)

text \<open>
  C28.  A subscriber to a kind of event loses nothing silently: however pushes and polls are
  interleaved and whatever the window drops, a poll always succeeds, and after it the
  subscriber has been sent exactly the events of its kind since it subscribed, in order and
  each once, less those inside the gaps it was told of.
\<close>

theorem subscription_loses_nothing_silently:
  assumes "length hist < u64_max" and "(feed_step encode)\<^sup>*\<^sup>* (feed_init c hist k) f"
  shows "\<exists>sub r. sub_poll encode (fd_hub f) (fd_sub f) = Inr (sub, r) \<and>
    (let gaps = fd_gaps f @ (case sr_gap r of None \<Rightarrow> [] | Some g \<Rightarrow> [g])
     in fd_sent f @ sr_events r =
        List.map_filter (\<lambda>(i, e). encode i e)
          (filter (\<lambda>(i, e). length hist < i \<and> ev_kind e = k \<and> \<not> covered gaps i) (numbered (fd_hist f))))"
proof -
  have ok: "feed_ok encode k (length hist) f"
    using feed_run.run_keeps [OF assms(2) feed_init_ok [OF assms(1)]] .
  then obtain sub r where p: "sub_poll encode (fd_hub f) (fd_sub f) = Inr (sub, r)"
    and l: "es_last_sequence sub = length (fd_hist f)" using sub_poll_in_step by blast
  with feed_poll_ok [OF ok p] show ?thesis
    by (auto simp: feed_ok_def owed_def encoded_def Let_def)
qed

theorem subscription_loses_nothing_silently_witness:
  "let f = feed_init 1 [] TabClosed :: (nat, u64) feed;
       encode = (\<lambda>i e. Some i);
       push = (\<lambda>e f. f\<lparr>fd_hist := fd_hist f @ [e], fd_hub := hub_push e (fd_hub f)\<rparr>);
       g = push (ex_event TabClosed) (push (ex_event TabClosed) f)
   in (feed_step encode)\<^sup>*\<^sup>* f g \<and> (\<exists>sub r. sub_poll encode (fd_hub g) (fd_sub g) = Inr (sub, r) \<and>
        sr_gap r = Some \<lparr> gap_from = 1, gap_to = 1 \<rparr> \<and> fd_sent g @ sr_events r = [2])"
proof -
  let ?enc = "\<lambda>i (e :: nat event_envelope). Some (i :: u64)"
  let ?push = "\<lambda>e f :: (nat, u64) feed. f\<lparr>fd_hist := fd_hist f @ [e], fd_hub := hub_push e (fd_hub f)\<rparr>"
  define f :: "(nat, u64) feed" where "f = feed_init 1 [] TabClosed"
  define g where "g = ?push (ex_event TabClosed) (?push (ex_event TabClosed) f)"
  have run: "(feed_step ?enc)\<^sup>*\<^sup>* f g"
    unfolding g_def
    by (rule rtranclp_trans [OF r_into_rtranclp r_into_rtranclp]; rule pushed) (simp_all add: f_def feed_init_def u64_max_def)
  obtain sub r where p: "sub_poll ?enc (fd_hub g) (fd_sub g) = Inr (sub, r)"
    and sent: "let gaps = fd_gaps g @ (case sr_gap r of None \<Rightarrow> [] | Some g \<Rightarrow> [g])
     in fd_sent g @ sr_events r = List.map_filter (\<lambda>(i, e). ?enc i e)
          (filter (\<lambda>(i, e). length ([] :: nat event_envelope list) < i \<and> ev_kind e = TabClosed \<and> \<not> covered gaps i) (numbered (fd_hist g)))"
    using subscription_loses_nothing_silently [OF _ run [unfolded f_def]] by (auto simp: u64_max_def)
  have gap: "sr_gap r = Some \<lparr> gap_from = 1, gap_to = 1 \<rparr>"
    using p by (auto simp: g_def f_def feed_init_def push_all_def with_capacity_def hub_push_def state_push_def
        evict.simps current_sequence_def sub_poll_def refill_def retained_after_def evicted_through_def Let_def
        wadd64_def sat_add_def u64_max_def EVENT_KIND_COUNT_def ex_event_def)
  have "fd_sent g @ sr_events r = [2]"
    using sent gap by (simp add: g_def f_def feed_init_def numbered_def ex_event_def covered_def List.map_filter_def upt_rec)
  with run p gap show ?thesis unfolding Let_def f_def [symmetric] g_def [symmetric] by blast
qed

subsection \<open>A round over the subscriptions of a connection\<close>

text \<open>The first occurrence of each element.\<close>

definition firsts :: "'a list \<Rightarrow> 'a list" where
  "firsts xs = rev (remdups (rev xs))"

lemma firsts_snoc: "firsts (xs @ [x]) = (if x \<in> set xs then firsts xs else firsts xs @ [x])"
  by (simp add: firsts_def)

lemma set_firsts [simp]: "set (firsts xs) = set xs"
  by (simp add: firsts_def)

lemma collect_rounds_eq:
  assumes "\<And>s. s \<in> set subs \<Longrightarrow> poll s = Inr (next s, outcome s)"
  shows "collect_rounds poll notices (firsts gaps) events subs =
    (if \<not> notices \<and> list_ex (\<lambda>s. sr_gap (outcome s) \<noteq> None) subs then Inl events_lost_error
     else Inr (map next subs, firsts (gaps @ List.map_filter (\<lambda>s. sr_gap (outcome s)) subs),
               events @ concat (map (\<lambda>s. sr_events (outcome s)) subs)))"
  using assms
proof (induction subs arbitrary: gaps events)
  case (Cons s subs)
  show ?case
  proof (cases "sr_gap (outcome s)")
    case None
    with Cons.IH [of gaps "events @ sr_events (outcome s)"] Cons.prems show ?thesis
      by (simp add: List.map_filter_simps)
  next
    case (Some g)
    have "firsts (gaps @ [g]) = (if g \<in> set (firsts gaps) then firsts gaps else firsts gaps @ [g])"
      by (simp add: firsts_snoc)
    with Cons.IH [of "gaps @ [g]" "events @ sr_events (outcome s)"] Cons.prems Some show ?thesis
      by (cases notices; cases "g \<in> set gaps") (simp_all add: List.map_filter_simps)
  qed
qed (simp add: List.map_filter_simps)

text \<open>
  C29.  A connection that did not ask for notices never gets the rest of a stream with a
  gap: the round is the error that events were lost.  One that asked for them gets each gap
  once, ahead of all events of the round, and then the events in the order of its
  subscriptions.
\<close>

theorem round_announces_gaps_first:
  assumes "\<And>s. s \<in> set subs \<Longrightarrow> poll s = Inr (next s, outcome s)"
  shows "poll_subscriptions_round poll gap_notice_value notices subs =
    (if \<not> notices \<and> list_ex (\<lambda>s. sr_gap (outcome s) \<noteq> None) subs then Inl events_lost_error
     else Inr (map next subs,
       List.map_filter gap_notice_value (firsts (List.map_filter (\<lambda>s. sr_gap (outcome s)) subs)) @
       concat (map (\<lambda>s. sr_events (outcome s)) subs)))"
  using collect_rounds_eq [OF assms, where gaps = "[]" and events = "[]" and notices = notices]
  by (simp add: poll_subscriptions_round_def firsts_def)

definition ex_round :: "nat \<Rightarrow> nat subscription_round" where
  "ex_round n = \<lparr> sr_gap = (if n = 0 then None else Some \<lparr> gap_from = 1, gap_to = 5 \<rparr>), sr_events = [n] \<rparr>"

theorem round_announces_gaps_first_witness:
  "poll_subscriptions_round (\<lambda>s. Inr (s, ex_round s)) (\<lambda>g. Some (gap_to g)) True [1, 0, 2] = Inr ([1, 0, 2], [5, 1, 0, 2]) \<and>
   poll_subscriptions_round (\<lambda>s. Inr (s, ex_round s)) (\<lambda>g. Some (gap_to g)) False [0, 1] = Inl events_lost_error"
  using round_announces_gaps_first [of "[1, 0, 2]" "\<lambda>s. Inr (s, ex_round s)" "\<lambda>s. s" ex_round "\<lambda>g. Some (gap_to g)" True]
    round_announces_gaps_first [of "[0, 1]" "\<lambda>s. Inr (s, ex_round s)" "\<lambda>s. s" ex_round "\<lambda>g. Some (gap_to g)" False]
  by (simp add: ex_round_def firsts_def List.map_filter_simps)

end
