(* ===== verification/Selection.thy ===== *)
theory Selection
  imports Layout Text
begin

section \<open>Text selection\<close>

text \<open>
  \<open>selection.rs\<close>: a selection in the coordinates of the screen buffer, the gesture that
  makes it (press, drag, release), the test whether a cell is selected, and the rectangles
  that highlight it, which are computed without visiting the cells.  Rows are 32-bit, columns
  and screen positions 16-bit, as in the source; \<open>Ord::clamp\<close> panics on an empty range, which
  is the value None.  \<open>Rect::new\<close> is the parameter \<open>mk\<close> of the layout theory, base64 the
  parameter \<open>base64\<close>.
\<close>

record pane_scroll_metrics =
  psm_offset_from_bottom :: usize
  psm_max_offset_from_bottom :: usize
  psm_viewport_rows :: usize

datatype sel_phase = Anchored | Dragging | Done

record 'p selection =
  sel_pane_id :: 'p
  sel_anchor :: "u32 \<times> u16"
  sel_cursor :: "u32 \<times> u16"
  sel_phase :: sel_phase

subsection \<open>Rows of the buffer and rows of the screen\<close>

definition viewport_top_row :: "pane_scroll_metrics option \<Rightarrow> u32" where
  "viewport_top_row metrics =
     (case metrics of
        Some m \<Rightarrow> (psm_max_offset_from_bottom m - psm_offset_from_bottom m) mod 4294967296
      | None \<Rightarrow> 0)"

definition absolute_row_for_viewport_row :: "u16 \<Rightarrow> pane_scroll_metrics option \<Rightarrow> u32" where
  "absolute_row_for_viewport_row viewport_row metrics = wadd32 (viewport_top_row metrics) viewport_row"

definition viewport_row_for_absolute_row :: "u32 \<Rightarrow> pane_scroll_metrics option \<Rightarrow> u16" where
  "viewport_row_for_absolute_row absolute_row metrics =
     (let row = absolute_row - viewport_top_row metrics in if row \<le> u16_max then row else 0)"

definition clamp :: "nat \<Rightarrow> nat \<Rightarrow> nat \<Rightarrow> nat option" where
  "clamp lo hi x = (if lo \<le> hi then Some (max lo (min hi x)) else None)"

definition clamp_to_pane :: "u16 \<Rightarrow> u16 \<Rightarrow> rect \<Rightarrow> (u16 \<times> u16) option" where
  "clamp_to_pane screen_col screen_row pane_inner =
     (case (clamp (rx pane_inner) (wadd16 (rx pane_inner) (rwidth pane_inner - 1)) screen_col,
            clamp (ry pane_inner) (wadd16 (ry pane_inner) (rheight pane_inner - 1)) screen_row) of
        (Some clamped_col, Some clamped_row) \<Rightarrow> Some (clamped_row - ry pane_inner, clamped_col - rx pane_inner)
      | _ \<Rightarrow> None)"

subsection \<open>The gesture\<close>

definition sel_start :: "'p \<Rightarrow> u16 \<Rightarrow> u16 \<Rightarrow> pane_scroll_metrics option \<Rightarrow> 'p selection" where
  "sel_start pane_id viewport_row col metrics =
     (let anchor = (absolute_row_for_viewport_row viewport_row metrics, col)
      in \<lparr> sel_pane_id = pane_id, sel_anchor = anchor, sel_cursor = anchor, sel_phase = Anchored \<rparr>)"

definition absolute_anchor :: "'p \<Rightarrow> u32 \<times> u16 \<Rightarrow> 'p selection" where
  "absolute_anchor pane_id anchor =
     \<lparr> sel_pane_id = pane_id, sel_anchor = anchor, sel_cursor = anchor, sel_phase = Anchored \<rparr>"

definition absolute_range :: "'p \<Rightarrow> u32 \<times> u16 \<Rightarrow> u32 \<times> u16 \<Rightarrow> 'p selection" where
  "absolute_range pane_id anchor cursor =
     \<lparr> sel_pane_id = pane_id, sel_anchor = anchor, sel_cursor = cursor, sel_phase = Dragging \<rparr>"

definition line_range :: "'p \<Rightarrow> u32 \<Rightarrow> u32 \<Rightarrow> u16 \<Rightarrow> 'p selection" where
  "line_range pane_id anchor_row cursor_row end_col =
     (let (anchor_col, cursor_col) = (if anchor_row \<le> cursor_row then (0, end_col) else (end_col, 0))
      in \<lparr> sel_pane_id = pane_id, sel_anchor = (anchor_row, anchor_col),
           sel_cursor = (cursor_row, cursor_col), sel_phase = Dragging \<rparr>)"

definition anchor_screen_pos :: "rect \<Rightarrow> pane_scroll_metrics option \<Rightarrow> 'p selection \<Rightarrow> (u16 \<times> u16) option" where
  "anchor_screen_pos pane_inner metrics sel =
     (let viewport_row = viewport_row_for_absolute_row (fst (sel_anchor sel)) metrics in
      case (clamp (ry pane_inner) (wadd16 (ry pane_inner) (rheight pane_inner - 1)) (sat_add u16_max viewport_row (ry pane_inner)),
            clamp (rx pane_inner) (wadd16 (rx pane_inner) (rwidth pane_inner - 1)) (sat_add u16_max (snd (sel_anchor sel)) (rx pane_inner))) of
        (Some row, Some col) \<Rightarrow> Some (row, col)
      | _ \<Rightarrow> None)"

definition drag :: "u16 \<Rightarrow> u16 \<Rightarrow> rect \<Rightarrow> pane_scroll_metrics option \<Rightarrow> 'p selection \<Rightarrow> 'p selection option" where
  "drag screen_col screen_row pane_inner metrics sel =
     (case clamp_to_pane screen_col screen_row pane_inner of
        None \<Rightarrow> None
      | Some (viewport_row, col) \<Rightarrow>
          let sel = sel\<lparr>sel_cursor := (absolute_row_for_viewport_row viewport_row metrics, col)\<rparr>
          in Some (if sel_cursor sel \<noteq> sel_anchor sel then sel\<lparr>sel_phase := Dragging\<rparr> else sel))"

definition sel_finish :: "'p selection \<Rightarrow> 'p selection \<times> bool" where
  "sel_finish sel = (if sel_phase sel = Dragging then (sel\<lparr>sel_phase := Done\<rparr>, True) else (sel, False))"

definition force_dragging :: "'p selection \<Rightarrow> 'p selection" where
  "force_dragging sel = (if sel_phase sel = Anchored then sel\<lparr>sel_phase := Dragging\<rparr> else sel)"

definition is_visible :: "'p selection \<Rightarrow> bool" where
  "is_visible sel \<longleftrightarrow> sel_phase sel = Dragging \<or> sel_phase sel = Done"

definition is_just_click :: "'p selection \<Rightarrow> bool" where
  "is_just_click sel \<longleftrightarrow> sel_phase sel = Anchored"

definition is_in_progress :: "'p selection \<Rightarrow> bool" where
  "is_in_progress sel \<longleftrightarrow> sel_phase sel = Anchored \<or> sel_phase sel = Dragging"

definition is_dragging :: "'p selection \<Rightarrow> bool" where
  "is_dragging sel \<longleftrightarrow> sel_phase sel = Dragging"

subsection \<open>The selected cells\<close>

definition ordered :: "'p selection \<Rightarrow> (u32 \<times> u16) \<times> (u32 \<times> u16)" where
  "ordered sel =
     (let (ar, ac) = sel_anchor sel; (cr, cc) = sel_cursor sel
      in if ar < cr \<or> ar = cr \<and> ac \<le> cc then ((ar, ac), (cr, cc)) else ((cr, cc), (ar, ac)))"

definition sel_contains :: "u16 \<Rightarrow> u16 \<Rightarrow> pane_scroll_metrics option \<Rightarrow> 'p selection \<Rightarrow> bool" where
  "sel_contains viewport_row col metrics sel =
     (if \<not> is_visible sel then False
      else
        let row = absolute_row_for_viewport_row viewport_row metrics;
            ((sr, sc), (er, ec)) = ordered sel
        in if row < sr \<or> er < row then False
           else if sr = er then sc \<le> col \<and> col \<le> ec
           else if row = sr then sc \<le> col
           else if row = er then col \<le> ec
           else True)"

definition rect_default :: rect where
  "rect_default = \<lparr> rx = 0, ry = 0, rwidth = 0, rheight = 0 \<rparr>"

definition rect_is_empty :: "rect \<Rightarrow> bool" where
  "rect_is_empty r \<longleftrightarrow> rwidth r = 0 \<or> rheight r = 0"

definition clipped_rect :: "rect_ctor \<Rightarrow> rect \<Rightarrow> u32 \<Rightarrow> u32 \<Rightarrow> u32 \<Rightarrow> u16 \<Rightarrow> u16 \<Rightarrow> rect" where
  "clipped_rect mk inner top_row first_row end_row left right =
     (let bottom_row = sat_add u32_max top_row (rheight inner);
          first = max first_row top_row;
          e = min end_row bottom_row;
          left = min left (rwidth inner);
          right = min right (rwidth inner)
      in if e \<le> first \<or> right \<le> left then rect_default
         else mk (wadd16 (rx inner) left) (wadd16 (ry inner) ((first - top_row) mod 65536)) (right - left) ((e - first) mod 65536))"

definition visible_rects :: "rect_ctor \<Rightarrow> rect \<Rightarrow> pane_scroll_metrics option \<Rightarrow> 'p selection \<Rightarrow> rect list" where
  "visible_rects mk inner metrics sel =
     (if \<not> is_visible sel \<or> rect_is_empty inner then [rect_default, rect_default, rect_default]
      else
        let ((start_row, start_col), (end_row, end_col)) = ordered sel;
            top_row = viewport_top_row metrics;
            rect = clipped_rect mk inner top_row
        in if start_row = end_row
           then [rect start_row (sat_add u32_max start_row 1) start_col (sat_add u16_max end_col 1),
                 rect_default, rect_default]
           else [rect start_row (sat_add u32_max start_row 1) start_col (rwidth inner),
                 rect (sat_add u32_max start_row 1) end_row 0 (rwidth inner),
                 rect end_row (sat_add u32_max end_row 1) 0 (sat_add u16_max end_col 1)])"

subsection \<open>The clipboard sequence and its environment\<close>

definition osc52_sequence_for_env ::
    "(nat list \<Rightarrow> ustring) \<Rightarrow> nat list \<Rightarrow> ustring option \<Rightarrow> ustring option \<Rightarrow> ustring" where
  "osc52_sequence_for_env base64 bytes term kitty_window_id =
     (let reset = (if kitty_window_id \<noteq> None \<or> term = Some (map of_char ''xterm-kitty'')
                   then [27] @ map of_char '']52;c;!'' @ [7] else [])
      in reset @ [27] @ map of_char '']52;c;'' @ base64 bytes @ [7])"

definition to_ascii_lowercase :: "ustring \<Rightarrow> ustring" where
  "to_ascii_lowercase = map (\<lambda>c. if 65 \<le> c \<and> c \<le> 90 then c + 32 else c)"

definition contains_wsl_marker :: "ustring \<Rightarrow> bool" where
  "contains_wsl_marker value =
     (let lower = to_ascii_lowercase value
      in sublist (map of_char ''microsoft'') lower \<or> sublist (map of_char ''wsl2'') lower \<or>
         sublist (map of_char ''-wsl'') lower)"

definition is_wsl_for_env ::
    "ustring option \<Rightarrow> ustring option \<Rightarrow> ustring option \<Rightarrow> ustring option \<Rightarrow> bool \<Rightarrow> bool" where
  "is_wsl_for_env os_release proc_version wsl_distro_name wsl_interop runtime_marker_exists \<longleftrightarrow>
     wsl_distro_name \<noteq> None \<or> wsl_interop \<noteq> None \<or>
     (case os_release of None \<Rightarrow> False | Some v \<Rightarrow> contains_wsl_marker v) \<or>
     (case proc_version of None \<Rightarrow> False | Some v \<Rightarrow> contains_wsl_marker v) \<or> runtime_marker_exists"

definition should_prefer_osc52_for_env ::
    "ustring option \<Rightarrow> ustring option \<Rightarrow> ustring option \<Rightarrow> bool \<Rightarrow> bool" where
  "should_prefer_osc52_for_env ssh_connection ssh_tty vscode_ipc_hook_cli wsl \<longleftrightarrow>
     ssh_connection \<noteq> None \<or> ssh_tty \<noteq> None \<or> vscode_ipc_hook_cli \<noteq> None \<or> wsl"

subsection \<open>The rectangles cover exactly the selected cells\<close>

definition cell_in :: "u16 \<Rightarrow> u16 \<Rightarrow> rect \<Rightarrow> bool" where
  "cell_in x y r \<longleftrightarrow> rx r \<le> x \<and> x < rx r + rwidth r \<and> ry r \<le> y \<and> y < ry r + rheight r"

lemma cell_in_default [simp]: "\<not> cell_in x y rect_default"
  by (simp add: cell_in_def rect_default_def)

lemma cell_in_clipped:
  assumes "rect_new_ok mk" "rect_ok inner" "top_row + rheight inner \<le> u32_max"
    and "x < rwidth inner" "y < rheight inner"
  shows "cell_in (rx inner + x) (ry inner + y) (clipped_rect mk inner top_row first_row end_row left right) \<longleftrightarrow>
    first_row \<le> top_row + y \<and> top_row + y < end_row \<and> left \<le> x \<and> x < right"
proof -
  define first e l r where "first = max first_row top_row" and "e = min end_row (top_row + rheight inner)"
    and "l = min left (rwidth inner)" and "r = min right (rwidth inner)"
  have sat: "sat_add u32_max top_row (rheight inner) = top_row + rheight inner" using assms(3) by (simp add: sat_add_def)
  show ?thesis
  proof (cases "e \<le> first \<or> r \<le> l")
    case True
    then have "clipped_rect mk inner top_row first_row end_row left right = rect_default"
      unfolding clipped_rect_def Let_def sat first_def e_def l_def r_def by simp
    moreover have "\<not> (first_row \<le> top_row + y \<and> top_row + y < end_row \<and> left \<le> x \<and> x < right)"
      using True assms(4,5) by (auto simp: first_def e_def l_def r_def)
    ultimately show ?thesis by simp
  next
    case False
    have b: "first - top_row < rheight inner" "e - first \<le> rheight inner" "l < rwidth inner" "r \<le> rwidth inner"
      using False by (auto simp: first_def e_def l_def r_def)
    have ok: "rx inner + rwidth inner \<le> 65535" "ry inner + rheight inner \<le> 65535" using assms(2) by (simp_all add: rect_ok_def)
    have b': "rx inner + l + (r - l) \<le> 65535" "ry inner + (first - top_row) + (e - first) \<le> 65535"
    proof -
      have "top_row \<le> first" "first < e" "e \<le> top_row + rheight inner" "l < r"
        using False by (auto simp: first_def e_def)
      with b ok show "rx inner + l + (r - l) \<le> 65535" "ry inner + (first - top_row) + (e - first) \<le> 65535"
        by linarith+
    qed
    have "clipped_rect mk inner top_row first_row end_row left right =
        mk (rx inner + l) (ry inner + (first - top_row)) (r - l) (e - first)"
      using False b ok unfolding clipped_rect_def Let_def sat first_def [symmetric] e_def [symmetric] l_def [symmetric] r_def [symmetric]
      by simp
    also have "\<dots> = \<lparr> rx = rx inner + l, ry = ry inner + (first - top_row), rwidth = r - l, rheight = e - first \<rparr>"
      using assms(1) b' unfolding rect_new_ok_def by blast
    finally have "cell_in (rx inner + x) (ry inner + y) (clipped_rect mk inner top_row first_row end_row left right) \<longleftrightarrow>
        (l \<le> x \<and> x < r) \<and> (first - top_row \<le> y \<and> y < e - top_row)"
      using False by (simp add: cell_in_def) (auto simp: first_def)
    moreover have "l \<le> x \<and> x < r \<longleftrightarrow> left \<le> x \<and> x < right" using assms(4) by (auto simp: l_def r_def)
    moreover have "first - top_row \<le> y \<longleftrightarrow> first_row \<le> top_row + y" by (auto simp: first_def)
    moreover have "y < e - top_row \<longleftrightarrow> top_row + y < end_row" using assms(5) by (auto simp: e_def)
    ultimately show ?thesis by blast
  qed
qed

lemma absolute_row_exact:
  "viewport_top_row metrics + y \<le> u32_max \<Longrightarrow> absolute_row_for_viewport_row y metrics = viewport_top_row metrics + y"
  by (simp add: absolute_row_for_viewport_row_def wadd32_def u32_max_def)

text \<open>
  C30.  The highlight of a selection covers exactly its cells: a cell of the pane lies in one
  of the three rectangles if and only if it is selected, for every scroll position, whether
  the selection was made forwards or backwards and however much of it is off screen.
\<close>

theorem visible_rects_match_cells:
  assumes "rect_new_ok mk" and "rect_ok inner" and "viewport_top_row metrics + rheight inner \<le> u32_max"
    and "col < rwidth inner" and "row < rheight inner"
  shows "list_ex (cell_in (rx inner + col) (ry inner + row)) (visible_rects mk inner metrics sel) \<longleftrightarrow>
    sel_contains row col metrics sel"
proof -
  obtain sr sc er ec where o: "ordered sel = ((sr, sc), (er, ec))" by (metis surj_pair)
  have abs: "absolute_row_for_viewport_row row metrics = viewport_top_row metrics + row"
    and lt: "viewport_top_row metrics + row < u32_max"
    using assms(3,5) by (auto intro!: absolute_row_exact)
  have col: "col < 65535" "\<not> rect_is_empty inner" using assms(2,4,5) by (auto simp: rect_ok_def rect_is_empty_def)
  have sat: "viewport_top_row metrics + row < sat_add u32_max r (Suc 0) \<longleftrightarrow> viewport_top_row metrics + row < r + 1"
    "sat_add u32_max r (Suc 0) \<le> viewport_top_row metrics + row \<longleftrightarrow> r + 1 \<le> viewport_top_row metrics + row"
    "col < sat_add u16_max c (Suc 0) \<longleftrightarrow> col < c + 1" for r c
    using lt col by (auto simp: sat_add_def u16_max_def)
  have "sr \<le> er" using o by (auto simp: ordered_def Let_def split: prod.splits if_splits)
  then show ?thesis
    using col assms(4) by (auto simp: visible_rects_def sel_contains_def o abs sat cell_in_clipped [OF assms] Let_def)
qed

definition ex_sel :: "nat selection" where
  "ex_sel = absolute_range 0 (4, 2) (1, 3)"

theorem visible_rects_match_cells_witness:
  "let inner = \<lparr> rx = 10, ry = 5, rwidth = 8, rheight = 6 \<rparr>;
       metrics = Some \<lparr> psm_offset_from_bottom = 0, psm_max_offset_from_bottom = 2, psm_viewport_rows = 6 \<rparr>
   in list_ex (cell_in (10 + 7) (5 + 1)) (visible_rects plain_rect inner metrics ex_sel) \<and>
      sel_contains 1 7 metrics ex_sel"
proof -
  let ?inner = "\<lparr> rx = 10, ry = 5, rwidth = 8, rheight = 6 \<rparr>"
  let ?metrics = "Some \<lparr> psm_offset_from_bottom = 0, psm_max_offset_from_bottom = 2, psm_viewport_rows = 6 \<rparr>"
  have "sel_contains 1 7 ?metrics ex_sel"
    by (simp add: sel_contains_def ex_sel_def absolute_range_def is_visible_def ordered_def
        absolute_row_for_viewport_row_def viewport_top_row_def wadd32_def)
  with visible_rects_match_cells [of plain_rect ?inner ?metrics 7 1 ex_sel] show ?thesis
    by (simp add: rect_ok_def viewport_top_row_def u32_max_def)
qed

subsection \<open>Dragging stays in the pane\<close>

lemma clamp_to_pane_ok:
  assumes "rect_ok inner" "\<not> rect_is_empty inner"
  shows "\<exists>row col. clamp_to_pane c r inner = Some (row, col) \<and> row < rheight inner \<and> col < rwidth inner \<and>
    (rx inner \<le> c \<and> c < rx inner + rwidth inner \<longrightarrow> col = c - rx inner) \<and>
    (ry inner \<le> r \<and> r < ry inner + rheight inner \<longrightarrow> row = r - ry inner)"
  using assms by (auto simp: clamp_to_pane_def clamp_def rect_ok_def rect_is_empty_def)

text \<open>The gesture as a run: presses, drags to any screen position, forced drags and the release.\<close>

inductive gesture_step :: "rect \<Rightarrow> pane_scroll_metrics option \<Rightarrow> 'p selection \<Rightarrow> 'p selection \<Rightarrow> bool"
  for inner metrics where
  dragged: "drag c r inner metrics sel = Some sel' \<Longrightarrow> gesture_step inner metrics sel sel'"
| forced: "gesture_step inner metrics sel (force_dragging sel)"
| finished: "gesture_step inner metrics sel (fst (sel_finish sel))"

definition gesture_ok :: "rect \<Rightarrow> pane_scroll_metrics option \<Rightarrow> 'p selection \<Rightarrow> bool" where
  "gesture_ok inner metrics sel \<longleftrightarrow>
     (is_just_click sel \<longrightarrow> sel_cursor sel = sel_anchor sel) \<and>
     viewport_top_row metrics \<le> fst (sel_cursor sel) \<and>
     fst (sel_cursor sel) < viewport_top_row metrics + rheight inner \<and> snd (sel_cursor sel) < rwidth inner"

lemma drag_ok:
  assumes "rect_ok inner" "\<not> rect_is_empty inner" "viewport_top_row metrics + rheight inner \<le> u32_max"
    and "is_just_click sel \<longrightarrow> sel_cursor sel = sel_anchor sel"
  shows "\<exists>sel'. drag c r inner metrics sel = Some sel' \<and> gesture_ok inner metrics sel'"
proof -
  obtain row col where rc: "clamp_to_pane c r inner = Some (row, col)" "row < rheight inner" "col < rwidth inner"
    using clamp_to_pane_ok [OF assms(1,2)] by blast
  then have "absolute_row_for_viewport_row row metrics = viewport_top_row metrics + row"
    using assms(3) by (intro absolute_row_exact) simp
  with rc assms(4) show ?thesis by (cases "sel_anchor sel") (auto simp: drag_def gesture_ok_def is_just_click_def Let_def)
qed

lemma gesture_step_ok:
  assumes "rect_ok inner" "\<not> rect_is_empty inner" "viewport_top_row metrics + rheight inner \<le> u32_max"
    and "gesture_ok inner metrics sel" "gesture_step inner metrics sel sel'"
  shows "gesture_ok inner metrics sel'"
  using assms(5)
proof cases
  case (dragged c r)
  then show ?thesis using drag_ok [OF assms(1-3), of sel c r] assms(4) by (auto simp: gesture_ok_def)
next
  case forced
  with assms(4) show ?thesis by (auto simp: gesture_ok_def force_dragging_def is_just_click_def)
next
  case finished
  with assms(4) show ?thesis by (auto simp: gesture_ok_def sel_finish_def is_just_click_def)
qed

interpretation gesture_run: kept_by_steps "gesture_step inner metrics"
    "\<lambda>sel. rect_ok inner \<and> \<not> rect_is_empty inner \<and> viewport_top_row metrics + rheight inner \<le> u32_max \<and>
       gesture_ok inner metrics sel"
  by unfold_locales (use gesture_step_ok in blast)



end
