(* ===== verification/InputLease.thy ===== *)
theory InputLease
  imports Text "HOL-Library.Word"
begin

section \<open>Keys and the leases of held keys\<close>

text \<open>
  The key event of \<open>input/model.rs\<close> with its identity, and \<open>input/lease.rs\<close>: while a key is
  held, a lease records where its press went, so that its repeats and its release go to the
  same place.  Key codes and modifiers are types of the terminal library and are left open;
  its constructor of character keys is the parameter \<open>char_key\<close>.  The table is a hash map: a
  map, and where the code iterates over it, the iteration order is an argument \<open>order\<close> that
  lists the keys of the map once each.
\<close>

unbundle bit_operations_syntax

datatype key_event_kind = Press | Repeat | Release

record windows_key_record =
  wk_key_down :: bool
  wk_repeat_count :: "16 word"
  wk_virtual_key_code :: "16 word"
  wk_virtual_scan_code :: "16 word"
  wk_unicode :: "16 word"
  wk_control_key_state :: "32 word"

type_synonym physical_key_id = "32 word"

datatype 'k key_identity = Physical physical_key_id | Semantic 'k

datatype key_source = Synthesized | Vt "nat list" | WindowsConsole windows_key_record "physical_key_id option"

record ('k, 'm) terminal_key =
  tk_code :: 'k
  tk_modifiers :: 'm
  tk_kind :: key_event_kind
  tk_repeat_count :: u16
  tk_shifted_codepoint :: "u32 option"
  tk_generated_text :: "ustring option"
  tk_physical_identity_hint :: bool
  tk_windows_dead_key :: bool
  tk_layout_key :: "uchar option"
  tk_source :: key_source

definition record_physical_key_id :: "windows_key_record \<Rightarrow> physical_key_id option" where
  "record_physical_key_id r =
     (if wk_virtual_scan_code r \<noteq> 0
      then Some (ucast (wk_virtual_scan_code r) OR
                 push_bit 16 (if wk_control_key_state r AND 0x0100 \<noteq> 0 then 1 else 0))
      else None)"

definition key_new :: "'k \<Rightarrow> 'm \<Rightarrow> ('k, 'm) terminal_key" where
  "key_new code modifiers = \<lparr> tk_code = code, tk_modifiers = modifiers, tk_kind = Press, tk_repeat_count = 1,
     tk_shifted_codepoint = None, tk_generated_text = None, tk_physical_identity_hint = False,
     tk_windows_dead_key = False, tk_layout_key = None, tk_source = Synthesized \<rparr>"

definition with_kind :: "key_event_kind \<Rightarrow> ('k, 'm) terminal_key \<Rightarrow> ('k, 'm) terminal_key" where
  "with_kind kind key =
     (if kind = Release then key\<lparr>tk_repeat_count := 1, tk_generated_text := None\<rparr> else key)\<lparr>tk_kind := kind\<rparr>"

definition with_repeat_count :: "u16 \<Rightarrow> ('k, 'm) terminal_key \<Rightarrow> ('k, 'm) terminal_key" where
  "with_repeat_count repeat_count key =
     key\<lparr>tk_repeat_count := (if tk_kind key = Release then 1 else max repeat_count 1)\<rparr>"

definition with_generated_text :: "ustring option \<Rightarrow> ('k, 'm) terminal_key \<Rightarrow> ('k, 'm) terminal_key" where
  "with_generated_text t key = key\<lparr>tk_generated_text := (if tk_kind key = Release then None else t)\<rparr>"

definition with_vt_bytes :: "nat list \<Rightarrow> ('k, 'm) terminal_key \<Rightarrow> ('k, 'm) terminal_key" where
  "with_vt_bytes bytes key = key\<lparr>tk_source := Vt bytes\<rparr>"

text \<open>
  \<open>text_key\<close> tells whether the key is a character key with no modifier but shift, the test
  the dead-key hint makes with the terminal library's types.
\<close>

definition with_windows_composition_hint ::
    "(('k, 'm) terminal_key \<Rightarrow> bool) \<Rightarrow> windows_key_record option \<Rightarrow> ('k, 'm) terminal_key \<Rightarrow> ('k, 'm) terminal_key" where
  "with_windows_composition_hint text_key r key =
     key\<lparr>tk_windows_dead_key := (text_key key \<and> (case r of None \<Rightarrow> False | Some r \<Rightarrow> wk_unicode r = 0))\<rparr>"

definition with_windows_record ::
    "(('k, 'm) terminal_key \<Rightarrow> bool) \<Rightarrow> windows_key_record \<Rightarrow> ('k, 'm) terminal_key \<Rightarrow> ('k, 'm) terminal_key" where
  "with_windows_record text_key r key =
     (let key = with_windows_composition_hint text_key (Some r) key;
          key = key\<lparr>tk_repeat_count := (if tk_kind key = Release then 1 else max (unat (wk_repeat_count r)) 1)\<rparr>;
          physical_key = record_physical_key_id r
      in key\<lparr>tk_physical_identity_hint := (physical_key \<noteq> None), tk_source := WindowsConsole r physical_key\<rparr>)"

definition identity :: "(uchar \<Rightarrow> 'k) \<Rightarrow> ('k, 'm) terminal_key \<Rightarrow> 'k key_identity" where
  "identity char_key key =
     (case tk_source key of
        WindowsConsole r (Some physical_key) \<Rightarrow> Physical physical_key
      | WindowsConsole r None \<Rightarrow> Semantic (tk_code key)
      | _ \<Rightarrow> Semantic (case tk_layout_key key of None \<Rightarrow> tk_code key | Some c \<Rightarrow> char_key c))"

definition key_physical_key_id :: "('k, 'm) terminal_key \<Rightarrow> physical_key_id option" where
  "key_physical_key_id key = (case tk_source key of WindowsConsole r physical_key \<Rightarrow> physical_key | _ \<Rightarrow> None)"

definition has_physical_identity :: "('k, 'm) terminal_key \<Rightarrow> bool" where
  "has_physical_identity key \<longleftrightarrow> tk_physical_identity_hint key \<or> key_physical_key_id key \<noteq> None"

subsection \<open>Leases\<close>

record ('s, 'k) lease_key =
  lk_source :: 's
  lk_identity :: "'k key_identity"

definition lease_key_new :: "(uchar \<Rightarrow> 'k) \<Rightarrow> 's \<Rightarrow> ('k, 'm) terminal_key \<Rightarrow> ('s, 'k) lease_key" where
  "lease_key_new char_key source key = \<lparr> lk_source = source, lk_identity = identity char_key key \<rparr>"

definition is_text_press :: "('k, 'm) terminal_key \<Rightarrow> bool" where
  "is_text_press key \<longleftrightarrow> tk_generated_text key \<noteq> None \<and> key_physical_key_id key = None"

record ('t, 'k, 'm) forwarded_lease =
  fw_target :: 't
  fw_key :: "('k, 'm) terminal_key"

datatype 'c consumed_lease = ReprocessRepeats 'c | SuppressRepeats

datatype ('c, 't, 'k, 'm) input_lease = Forwarded "('t, 'k, 'm) forwarded_lease" | Consumed "'c consumed_lease"

datatype ('c, 't) repeat_plan = PlanForwarded 't | PlanReprocess 'c u16 bool | PlanIgnore

type_synonym ('s, 'c, 't, 'k, 'm) lease_table = "('s, 'k) lease_key \<rightharpoonup> ('c, 't, 'k, 'm) input_lease"

definition insert_forwarded :: "('s, 'k) lease_key \<Rightarrow> 't \<Rightarrow> ('k, 'm) terminal_key \<Rightarrow>
    ('s, 'c, 't, 'k, 'm) lease_table \<Rightarrow> ('s, 'c, 't, 'k, 'm) lease_table" where
  "insert_forwarded lk target original leases =
     leases(lk \<mapsto> Forwarded \<lparr> fw_target = target, fw_key = original \<rparr>)"

definition insert_consumed :: "('s, 'k) lease_key \<Rightarrow> 'c consumed_lease \<Rightarrow>
    ('s, 'c, 't, 'k, 'm) lease_table \<Rightarrow> ('s, 'c, 't, 'k, 'm) lease_table" where
  "insert_consumed lk disposition leases = leases(lk \<mapsto> Consumed disposition)"

definition lease_remove :: "('s, 'k) lease_key \<Rightarrow> ('s, 'c, 't, 'k, 'm) lease_table \<Rightarrow>
    ('s, 'c, 't, 'k, 'm) lease_table \<times> ('c, 't, 'k, 'm) input_lease option" where
  "lease_remove lk leases = (leases(lk := None), leases lk)"

definition normalize_press :: "('s, 'k) lease_key \<Rightarrow> ('k, 'm) terminal_key \<Rightarrow>
    ('s, 'c, 't, 'k, 'm) lease_table \<Rightarrow> ('s, 'c, 't, 'k, 'm) lease_table \<times> ('k, 'm) terminal_key" where
  "normalize_press lk key leases =
     (if tk_kind key \<noteq> Press \<or> tk_generated_text key \<noteq> None \<and> key_physical_key_id key = None then (leases, key)
      else if has_physical_identity key \<and> leases lk \<noteq> None then (leases, with_kind Repeat key)
      else (leases(lk := None), key))"

definition complete_press :: "('s, 'k) lease_key \<Rightarrow> ('k, 'm) terminal_key \<Rightarrow> 'c option \<Rightarrow> 'c option \<Rightarrow> 't option \<Rightarrow>
    ('s, 'c, 't, 'k, 'm) lease_table \<Rightarrow> ('s, 'c, 't, 'k, 'm) lease_table \<times> ('c, 't) repeat_plan" where
  "complete_press lk key initial_context resulting_context target leases =
     (if tk_generated_text key \<noteq> None \<and> \<not> has_physical_identity key then (leases, PlanIgnore)
      else case target of
        Some target \<Rightarrow> (insert_forwarded lk target key leases, PlanIgnore)
      | None \<Rightarrow>
          let leases = (if leases lk = None
                        then insert_consumed lk
                               (case (initial_context, resulting_context) of
                                  (Some initial, Some resulting) \<Rightarrow>
                                    if initial = resulting then ReprocessRepeats initial else SuppressRepeats
                                | _ \<Rightarrow> SuppressRepeats) leases
                        else leases)
          in (leases,
              case leases lk of
                Some (Consumed (ReprocessRepeats context)) \<Rightarrow>
                  if 1 < tk_repeat_count key then PlanReprocess context (tk_repeat_count key - 1) True else PlanIgnore
              | _ \<Rightarrow> PlanIgnore))"

definition plan_repeat :: "('s, 'k) lease_key \<Rightarrow> ('k, 'm) terminal_key \<Rightarrow> 'c option \<Rightarrow>
    ('s, 'c, 't, 'k, 'm) lease_table \<Rightarrow> ('s, 'c, 't, 'k, 'm) lease_table \<times> ('c, 't) repeat_plan" where
  "plan_repeat lk key current_context leases =
     (case leases lk of
        Some (Forwarded lease) \<Rightarrow> (leases, PlanForwarded (fw_target lease))
      | Some (Consumed (ReprocessRepeats context)) \<Rightarrow>
          if current_context = Some context then (leases, PlanReprocess context (tk_repeat_count key) True)
          else (insert_consumed lk SuppressRepeats leases, PlanIgnore)
      | Some (Consumed SuppressRepeats) \<Rightarrow> (leases, PlanIgnore)
      | None \<Rightarrow>
          (leases, case current_context of
             Some context \<Rightarrow> PlanReprocess context (tk_repeat_count key) False
           | None \<Rightarrow> PlanIgnore))"

definition reprocess_allowed :: "('s, 'k) lease_key \<Rightarrow> 'c \<Rightarrow> 'c option \<Rightarrow> bool \<Rightarrow>
    ('s, 'c, 't, 'k, 'm) lease_table \<Rightarrow> ('s, 'c, 't, 'k, 'm) lease_table \<times> bool" where
  "reprocess_allowed lk expected_context current_context tracked leases =
     (let allowed = (current_context = Some expected_context)
      in (if tracked \<and> \<not> allowed then insert_consumed lk SuppressRepeats leases else leases, allowed))"

definition remove_sole_text_press :: "('s, 'k) lease_key list \<Rightarrow> 's \<Rightarrow> ('s, 'c, 't, 'k, 'm) lease_table \<Rightarrow>
    ('s, 'c, 't, 'k, 'm) lease_table \<times> ('c, 't, 'k, 'm) input_lease option" where
  "remove_sole_text_press order source leases =
     (case filter (\<lambda>lk. lk_source lk = source) order of
        [lk] \<Rightarrow>
          (case leases lk of
             Some (Forwarded lease) \<Rightarrow> if is_text_press (fw_key lease) then lease_remove lk leases else (leases, None)
           | _ \<Rightarrow> (leases, None))
      | _ \<Rightarrow> (leases, None))"

fun remove_keys :: "('s, 'k) lease_key list \<Rightarrow> ('s, 'c, 't, 'k, 'm) lease_table \<Rightarrow>
    ('s, 'c, 't, 'k, 'm) lease_table \<times> ('t, 'k, 'm) forwarded_lease list" where
  "remove_keys [] leases = (leases, [])"
| "remove_keys (lk # lks) leases =
     (let (leases, lease) = lease_remove lk leases;
          (leases, removed) = remove_keys lks leases
      in (leases, case lease of Some (Forwarded lease) \<Rightarrow> lease # removed | _ \<Rightarrow> removed))"

definition remove_source :: "('s, 'k) lease_key list \<Rightarrow> 's \<Rightarrow> ('s, 'c, 't, 'k, 'm) lease_table \<Rightarrow>
    ('s, 'c, 't, 'k, 'm) lease_table \<times> ('t, 'k, 'm) forwarded_lease list" where
  "remove_source order source leases = remove_keys (filter (\<lambda>lk. lk_source lk = source) order) leases"

definition forwards_to :: "'t \<Rightarrow> ('c, 't, 'k, 'm) input_lease option \<Rightarrow> bool" where
  "forwards_to target lease = (case lease of Some (Forwarded lease) \<Rightarrow> fw_target lease = target | _ \<Rightarrow> False)"

definition remove_target :: "('s, 'k) lease_key list \<Rightarrow> 't \<Rightarrow> ('s, 'c, 't, 'k, 'm) lease_table \<Rightarrow>
    ('s, 'c, 't, 'k, 'm) lease_table \<times> ('t, 'k, 'm) forwarded_lease list" where
  "remove_target order target leases = remove_keys (filter (\<lambda>lk. forwards_to target (leases lk)) order) leases"

subsection \<open>Physical keys are told apart\<close>

definition enhanced :: "windows_key_record \<Rightarrow> bool" where
  "enhanced r \<longleftrightarrow> wk_control_key_state r AND 0x0100 \<noteq> 0"

lemma physical_id_parts:
  fixes scan :: "16 word" and e :: bool
  defines "w \<equiv> (ucast scan OR push_bit 16 (if e then 1 else 0) :: 32 word)"
  shows "ucast w = scan" and "bit w 16 = e"
proof -
  show "ucast w = scan"
    by (rule bit_word_eqI) (auto simp: w_def bit_simps)
  show "bit w 16 = e"
    by (auto simp: w_def bit_simps dest: bit_imp_le_length)
qed

text \<open>
  C32.  Two console records name the same physical key exactly when they have the same scan
  code and agree on the enhanced bit (a record without a scan code names none): the two
  parts do not run into each other in the 32-bit id.
\<close>

theorem physical_keys_told_apart:
  "record_physical_key_id r = record_physical_key_id r' \<longleftrightarrow>
     wk_virtual_scan_code r = wk_virtual_scan_code r' \<and>
     (wk_virtual_scan_code r = 0 \<or> enhanced r = enhanced r')"
proof -
  have "ucast (wk_virtual_scan_code r) OR push_bit 16 (if enhanced r then 1 else 0) =
      (ucast (wk_virtual_scan_code r') OR push_bit 16 (if enhanced r' then 1 else 0) :: 32 word) \<longleftrightarrow>
      wk_virtual_scan_code r = wk_virtual_scan_code r' \<and> enhanced r = enhanced r'"
    (is "?w = ?w' \<longleftrightarrow> _")
  proof
    assume eq: "?w = ?w'"
    then have "(ucast ?w :: 16 word) = ucast ?w'" and "bit ?w 16 = bit ?w' 16" by simp_all
    then show "wk_virtual_scan_code r = wk_virtual_scan_code r' \<and> enhanced r = enhanced r'"
      unfolding physical_id_parts ..
  qed simp
  then show ?thesis by (auto simp: record_physical_key_id_def enhanced_def)
qed

subsection \<open>A held key keeps its target\<close>

text \<open>
  The operations that may happen while the key \<open>lk\<close> of a lease is held: anything to other
  keys, its own repeats and repeated presses, and the removal of other sources and targets.
\<close>

inductive held_step :: "('s, 'k) lease_key \<Rightarrow> 't \<Rightarrow> ('s, 'c, 't, 'k, 'm) lease_table \<Rightarrow>
    ('s, 'c, 't, 'k, 'm) lease_table \<Rightarrow> bool" for lk t where
  repeat_of: "held_step lk t ls (fst (plan_repeat lk' key ctx ls))"
| press_again: "has_physical_identity key \<Longrightarrow> held_step lk t ls (fst (normalize_press lk key ls))"
| press_consumed: "held_step lk t ls (fst (complete_press lk' key initial result None ls))"
| press_other: "lk' \<noteq> lk \<Longrightarrow> held_step lk t ls (fst (normalize_press lk' key ls))"
| forward_other: "lk' \<noteq> lk \<Longrightarrow> held_step lk t ls (fst (complete_press lk' key initial result target ls))"
| reprocess_other: "lk' \<noteq> lk \<Longrightarrow> held_step lk t ls (fst (reprocess_allowed lk' expected ctx tracked ls))"
| release_other: "lk' \<noteq> lk \<Longrightarrow> held_step lk t ls (fst (lease_remove lk' ls))"
| sole_other: "source \<noteq> lk_source lk \<Longrightarrow> held_step lk t ls (fst (remove_sole_text_press order source ls))"
| source_other: "source \<noteq> lk_source lk \<Longrightarrow> held_step lk t ls (fst (remove_source order source ls))"
| target_other: "target \<noteq> t \<Longrightarrow> held_step lk t ls (fst (remove_target order target ls))"

definition held_by :: "('s, 'k) lease_key \<Rightarrow> 't \<Rightarrow> ('k, 'm) terminal_key \<Rightarrow> ('s, 'c, 't, 'k, 'm) lease_table \<Rightarrow> bool" where
  "held_by lk t key ls \<longleftrightarrow> ls lk = Some (Forwarded \<lparr> fw_target = t, fw_key = key \<rparr>)"

lemma map_filter_cong: "(\<And>x. x \<in> set xs \<Longrightarrow> f x = g x) \<Longrightarrow> List.map_filter f xs = List.map_filter g xs"
  by (induction xs) (auto simp: List.map_filter_simps split: option.splits)

lemma remove_keys_eq:
  "distinct lks \<Longrightarrow> remove_keys lks ls =
     ((\<lambda>lk. if lk \<in> set lks then None else ls lk),
      List.map_filter (\<lambda>lk. case ls lk of Some (Forwarded lease) \<Rightarrow> Some lease | _ \<Rightarrow> None) lks)"
proof (induction lks arbitrary: ls)
  case (Cons lk lks)
  have "List.map_filter (\<lambda>l. case (ls(lk := None)) l of Some (Forwarded lease) \<Rightarrow> Some lease | _ \<Rightarrow> None) lks =
      List.map_filter (\<lambda>l. case ls l of Some (Forwarded lease) \<Rightarrow> Some lease | _ \<Rightarrow> None) lks"
    using Cons.prems by (intro map_filter_cong) auto
  then show ?case using Cons by (auto simp: lease_remove_def List.map_filter_simps split: option.splits input_lease.splits)
qed (simp add: List.map_filter_simps)

lemma remove_keys_other: "lk \<notin> set lks \<Longrightarrow> fst (remove_keys lks ls) lk = ls lk"
  by (induction lks arbitrary: ls) (auto simp: lease_remove_def case_prod_beta Let_def)

lemma held_step_keeps:
  assumes "held_step lk t ls ls'" "held_by lk t key ls" shows "held_by lk t key ls'"
  using assms
proof cases
  case (sole_other source order)
  have "lk' \<noteq> lk" if "filter (\<lambda>lk. lk_source lk = source) order = [lk']" for lk'
  proof -
    have "lk' \<in> set (filter (\<lambda>lk. lk_source lk = source) order)" using that by simp
    with sole_other(2) show ?thesis by auto
  qed
  then show ?thesis using sole_other assms(2)
    by (auto simp: held_by_def remove_sole_text_press_def lease_remove_def split: list.splits option.splits input_lease.splits)
next
  case (source_other source order)
  then show ?thesis using assms(2)
    by (simp add: held_by_def remove_source_def remove_keys_other)
next
  case (target_other target order)
  then have "lk \<notin> set (filter (\<lambda>lk. forwards_to target (ls lk)) order)"
    using assms(2) by (auto simp: held_by_def forwards_to_def)
  then show ?thesis using target_other assms(2) by (simp add: held_by_def remove_target_def remove_keys_other)
qed (auto simp: held_by_def plan_repeat_def normalize_press_def complete_press_def reprocess_allowed_def
    lease_remove_def insert_consumed_def insert_forwarded_def Let_def
    split: option.splits input_lease.splits consumed_lease.splits)

interpretation held_run: kept_by_steps "held_step lk t" "held_by lk t key"
  by unfold_locales (rule held_step_keeps)


definition ex_key :: "nat \<Rightarrow> (nat, nat) terminal_key" where
  "ex_key c = key_new c 0"

definition ex_lk :: "nat \<Rightarrow> (nat, nat) lease_key" where
  "ex_lk c = lease_key_new id 7 (ex_key c)"


subsection \<open>Removing a source or a target\<close>

text \<open>
  When a pane goes away, exactly its leases do: whatever order the table is visited
  in, no lease forwards to the target any more, every other lease is kept, and the leases
  returned, whose keys must be released, are those that forwarded to it, once each.
\<close>

theorem remove_target_is_exact:
  assumes "distinct order" and "set order = dom ls"
  shows "fst (remove_target order target ls) = (\<lambda>lk. if forwards_to target (ls lk) then None else ls lk) \<and>
    list_all (\<lambda>lease. fw_target lease = target) (snd (remove_target order target ls)) \<and>
    map (\<lambda>lease. Some (Forwarded lease)) (snd (remove_target order target ls)) =
      map ls (filter (\<lambda>lk. forwards_to target (ls lk)) order)"
proof -
  let ?lks = "filter (\<lambda>lk. forwards_to target (ls lk)) order"
  let ?f = "\<lambda>lk. case ls lk of Some (Forwarded lease) \<Rightarrow> Some lease | _ \<Rightarrow> None"
  have eq: "remove_target order target ls = ((\<lambda>lk. if lk \<in> set ?lks then None else ls lk), List.map_filter ?f ?lks)"
    unfolding remove_target_def using assms(1) by (intro remove_keys_eq) simp
  have "(\<lambda>lk. if lk \<in> set ?lks then None else ls lk) = (\<lambda>lk. if forwards_to target (ls lk) then None else ls lk)"
    using assms(2) by (auto simp: fun_eq_iff dom_def forwards_to_def)
  moreover have "list_all (\<lambda>lease. fw_target lease = target) (List.map_filter ?f lks) \<and>
      map (\<lambda>lease. Some (Forwarded lease)) (List.map_filter ?f lks) = map ls lks"
    if "\<forall>lk\<in>set lks. forwards_to target (ls lk)" for lks
    using that by (induction lks) (auto simp: List.map_filter_simps forwards_to_def split: option.splits input_lease.splits)
  ultimately show ?thesis unfolding eq by simp
qed

theorem remove_target_is_exact_witness:
  "let ls = insert_forwarded (ex_lk 2) (6 :: nat) (ex_key 2) (insert_forwarded (ex_lk 1) 5 (ex_key 1) (Map.empty :: (nat, nat, nat, nat, nat) lease_table))
   in fst (remove_target [ex_lk 2, ex_lk 1] 5 ls) (ex_lk 1) = None \<and>
      fst (remove_target [ex_lk 2, ex_lk 1] 5 ls) (ex_lk 2) = ls (ex_lk 2)"
proof -
  let ?ls = "insert_forwarded (ex_lk 2) (6 :: nat) (ex_key 2) (insert_forwarded (ex_lk 1) 5 (ex_key 1) (Map.empty :: (nat, nat, nat, nat, nat) lease_table))"
  have ne: "ex_lk 2 \<noteq> ex_lk 1" by (simp add: ex_lk_def lease_key_new_def identity_def ex_key_def key_new_def)
  then have "distinct [ex_lk 2, ex_lk 1]" "set [ex_lk 2, ex_lk 1] = dom ?ls"
    by (auto simp: insert_forwarded_def)
  from remove_target_is_exact [OF this, of 5] ne show ?thesis
    by (simp add: Let_def insert_forwarded_def forwards_to_def)
qed

end
