(* ===== verification/EndpointRegistry.thy ===== *)
theory EndpointRegistry
  imports Prelude
begin

section \<open>Health of an endpoint connection\<close>

text \<open>
  \<open>src/src/client/endpoint/health.rs\<close>: when a connection to a remote server is probed and when it is
  given up.  Times are milliseconds; \<open>saturating_duration_since\<close> is subtraction on natural numbers.
\<close>

definition HEARTBEAT_INTERVAL :: nat where
  "HEARTBEAT_INTERVAL = 5000"

definition HEARTBEAT_TIMEOUT :: nat where
  "HEARTBEAT_TIMEOUT = 10000"

definition INITIAL_SNAPSHOT_TIMEOUT :: nat where
  "INITIAL_SNAPSHOT_TIMEOUT = 60000"

datatype health_action = NoAction | PingAction | ExpiredAction

record endpoint_health =
  eh_connected_at :: nat
  eh_last_received :: "nat option"
  eh_ping_sent_at :: "nat option"
  eh_ready :: bool
  eh_probe_due :: bool

definition health_new :: "nat \<Rightarrow> endpoint_health" where
  "health_new now = \<lparr>eh_connected_at = now, eh_last_received = None, eh_ping_sent_at = None, eh_ready = False, eh_probe_due = False\<rparr>"

definition health_received :: "nat \<Rightarrow> endpoint_health \<Rightarrow> endpoint_health" where
  "health_received now h = h\<lparr>eh_last_received := Some now, eh_ping_sent_at := None\<rparr>"

definition health_ready :: "endpoint_health \<Rightarrow> endpoint_health" where
  "health_ready h = h\<lparr>eh_ready := True\<rparr>"

definition health_resume :: "endpoint_health \<Rightarrow> endpoint_health" where
  "health_resume h = h\<lparr>eh_ping_sent_at := None, eh_probe_due := True\<rparr>"

definition health_action_at :: "endpoint_health \<Rightarrow> nat \<Rightarrow> health_action" where
  "health_action_at h now =
     (let initial_snapshot_expired = (\<not> eh_ready h \<and> now - eh_connected_at h \<ge> INITIAL_SNAPSHOT_TIMEOUT);
          probe_expired = ((eh_ready h \<or> eh_last_received h \<noteq> None) \<and>
            (case eh_ping_sent_at h of None \<Rightarrow> False | Some sent_at \<Rightarrow> now - sent_at \<ge> HEARTBEAT_TIMEOUT))
      in if initial_snapshot_expired \<or> probe_expired then ExpiredAction
         else if eh_probe_due h \<or> (eh_ping_sent_at h = None \<and>
                now - (case eh_last_received h of None \<Rightarrow> eh_connected_at h | Some at_time \<Rightarrow> at_time) \<ge> HEARTBEAT_INTERVAL)
         then PingAction else NoAction)"

definition health_ping_sent :: "nat \<Rightarrow> endpoint_health \<Rightarrow> endpoint_health" where
  "health_ping_sent now h = h\<lparr>eh_probe_due := False, eh_ping_sent_at := Some now\<rparr>"

lemmas health_defs = health_new_def health_received_def health_ready_def health_resume_def health_ping_sent_def

text \<open>
  A ready connection that falls silent is probed after the interval, and given up when the
  probe stays unanswered for the timeout; anything received in between restarts the wait.
\<close>

lemma silent_endpoint_expires:
  assumes "eh_ready h" and "eh_ping_sent_at h = None" and "eh_last_received h = Some r" and "r + HEARTBEAT_INTERVAL \<le> p"
    and "p + HEARTBEAT_TIMEOUT \<le> now"
  shows "health_action_at h p = PingAction \<and> health_action_at (health_ping_sent p h) now = ExpiredAction"
  using assms by (auto simp: health_action_at_def health_ping_sent_def HEARTBEAT_INTERVAL_def HEARTBEAT_TIMEOUT_def)

lemma received_is_alive:
  assumes "eh_ready h" and "now < r + HEARTBEAT_INTERVAL" and "\<not> eh_probe_due h"
  shows "health_action_at (health_received r h) now = NoAction"
  using assms by (auto simp: health_action_at_def health_received_def HEARTBEAT_INTERVAL_def)

section \<open>The registry of endpoint connections\<close>

text \<open>
  \<open>src/src/client/endpoint/registry.rs\<close>.  A transport is anything with the operations of the trait
  \<open>EndpointTransport\<close>; they are a record of functions, an argument of the registry's own
  operations, and what the registry relies on is the locale \<open>endpoint_transport\<close>.  The hash map
  of connections is a map; where its iteration order shows, the order is an argument.  Two ghost
  fields count the transports handed to the registry and collect those it has let go.
\<close>

datatype endpoint_id = LocalEndpoint | SshEndpoint string

definition is_local :: "endpoint_id \<Rightarrow> bool" where
  "is_local e \<longleftrightarrow> e = LocalEndpoint"

datatype client_message = ClientEndpointControl string string | ClientDetach | ClientOther nat

datatype error_kind = NotConnectedKind | TimedOutKind | BrokenPipeKind | ConnectionAbortedKind | InvalidDataKind | OsKind nat

record endpoint_error =
  ee_kind :: error_kind
  ee_message :: string

record 't transport_ops =
  tr_send :: "client_message \<Rightarrow> 't \<Rightarrow> (endpoint_error + unit) \<times> 't"
  tr_disconnect :: "'t \<Rightarrow> 't"
  tr_flush :: "nat \<Rightarrow> 't \<Rightarrow> (endpoint_error + unit) \<times> 't"
  tr_take_error :: "'t \<Rightarrow> endpoint_error option \<times> 't"

subsection \<open>Negotiated features\<close>

record negotiation =
  ng_methods :: "string set"
  ng_capabilities :: "string set"
  ng_server_version :: "string option"

definition negotiation_new :: "string list \<Rightarrow> string list \<Rightarrow> negotiation" where
  "negotiation_new methods capabilities = \<lparr>ng_methods = set methods, ng_capabilities = set capabilities, ng_server_version = None\<rparr>"

definition with_server_version :: "string option \<Rightarrow> negotiation \<Rightarrow> negotiation" where
  "with_server_version version n =
     n\<lparr>ng_server_version := (case version of None \<Rightarrow> None | Some v \<Rightarrow> if v = [] then None else Some v)\<rparr>"

definition supports_method :: "negotiation \<Rightarrow> string \<Rightarrow> bool" where
  "supports_method n m \<longleftrightarrow> m \<in> ng_methods n"

definition supports_capability :: "negotiation \<Rightarrow> string \<Rightarrow> bool" where
  "supports_capability n c \<longleftrightarrow> c \<in> ng_capabilities n"

definition supports_surface_interest :: "negotiation \<Rightarrow> bool" where
  "supports_surface_interest n \<longleftrightarrow> supports_capability n ''surface_interest'' \<and>
     supports_capability n ''presentation_effects_fence'' \<and> supports_method n ''client_shell.surface.set''"

definition supports_health_check :: "negotiation \<Rightarrow> bool" where
  "supports_health_check n \<longleftrightarrow> supports_capability n ''health_check''"

subsection \<open>State\<close>

record 't connection =
  cn_transport :: 't
  cn_generation :: u64
  cn_surface_active :: bool
  cn_negotiation :: negotiation
  cn_health :: "endpoint_health option"

record transport_failure =
  tf_endpoint_id :: endpoint_id
  tf_generation :: u64
  tf_kind :: error_kind
  tf_message :: string

datatype send_outcome = Sent | NotSent

record 't registry =
  rg_active :: endpoint_id
  rg_input_enabled :: bool
  rg_connections :: "endpoint_id \<rightharpoonup> 't connection"
  rg_failures :: "transport_failure list"
  rg_last_health_tick :: nat
  rg_handed :: nat
  rg_retired :: "'t list"

definition registry_empty :: "nat \<Rightarrow> 't registry" where
  "registry_empty now = \<lparr>rg_active = LocalEndpoint, rg_input_enabled = False, rg_connections = Map.empty, rg_failures = [],
     rg_last_health_tick = now, rg_handed = 0, rg_retired = []\<rparr>"

subsection \<open>Connections\<close>

text \<open>\<open>connections.remove\<close> followed by \<open>transport.disconnect()\<close> on what was there.\<close>

definition retire :: "'t transport_ops \<Rightarrow> endpoint_id \<Rightarrow> 't registry \<Rightarrow> 't registry" where
  "retire tr e rg =
     (case rg_connections rg e of
        None \<Rightarrow> rg
      | Some c \<Rightarrow> rg\<lparr>rg_connections := (rg_connections rg)(e := None),
                     rg_retired := tr_disconnect tr (cn_transport c) # rg_retired rg\<rparr>)"

definition registry_insert ::
    "'t transport_ops \<Rightarrow> endpoint_id \<Rightarrow> 't \<Rightarrow> u64 \<Rightarrow> negotiation \<Rightarrow> bool \<Rightarrow> nat \<Rightarrow> 't registry \<Rightarrow> 't registry" where
  "registry_insert tr e transport generation n surface_active now rg =
     (let health = (if \<not> is_local e \<and> supports_health_check n then Some (health_new now) else None);
          previous = rg_connections rg e;
          rg = rg\<lparr>rg_connections := (rg_connections rg)(e \<mapsto> \<lparr>cn_transport = transport, cn_generation = generation,
                 cn_surface_active = surface_active, cn_negotiation = n, cn_health = health\<rparr>),
               rg_handed := Suc (rg_handed rg)\<rparr>
      in case previous of
           None \<Rightarrow> rg
         | Some c \<Rightarrow> rg\<lparr>rg_retired := tr_disconnect tr (cn_transport c) # rg_retired rg\<rparr>)"

definition registry_new :: "'t transport_ops \<Rightarrow> 't \<Rightarrow> u64 \<Rightarrow> negotiation \<Rightarrow> nat \<Rightarrow> 't registry" where
  "registry_new tr transport generation n now =
     registry_insert tr LocalEndpoint transport generation n True now ((registry_empty now)\<lparr>rg_input_enabled := True\<rparr>)"

definition freeze_input :: "'t registry \<Rightarrow> 't registry" where
  "freeze_input rg = rg\<lparr>rg_input_enabled := False\<rparr>"

definition unfreeze_input :: "'t registry \<Rightarrow> 't registry" where
  "unfreeze_input rg = rg\<lparr>rg_input_enabled := True\<rparr>"

definition select_unavailable_local :: "'t registry \<Rightarrow> 't registry" where
  "select_unavailable_local rg = freeze_input (rg\<lparr>rg_active := LocalEndpoint\<rparr>)"

definition active_surface_available :: "'t registry \<Rightarrow> bool" where
  "active_surface_available rg \<longleftrightarrow> rg_input_enabled rg \<and>
     (case rg_connections rg (rg_active rg) of None \<Rightarrow> False | Some c \<Rightarrow> cn_surface_active c)"

definition registry_accepts :: "endpoint_id \<Rightarrow> u64 \<Rightarrow> 't registry \<Rightarrow> bool" where
  "registry_accepts e generation rg = (case rg_connections rg e of None \<Rightarrow> False | Some c \<Rightarrow> cn_generation c = generation)"

definition update_health :: "endpoint_id \<Rightarrow> u64 \<Rightarrow> (endpoint_health \<Rightarrow> endpoint_health) \<Rightarrow> 't registry \<Rightarrow> 't registry" where
  "update_health e generation f rg =
     (case rg_connections rg e of
        None \<Rightarrow> rg
      | Some c \<Rightarrow> if cn_generation c = generation
                 then rg\<lparr>rg_connections := (rg_connections rg)(e \<mapsto> c\<lparr>cn_health := map_option f (cn_health c)\<rparr>)\<rparr> else rg)"

definition registry_received :: "endpoint_id \<Rightarrow> u64 \<Rightarrow> nat \<Rightarrow> 't registry \<Rightarrow> 't registry" where
  "registry_received e generation now rg = update_health e generation (health_received now) rg"

definition mark_ready :: "endpoint_id \<Rightarrow> u64 \<Rightarrow> 't registry \<Rightarrow> 't registry" where
  "mark_ready e generation rg = update_health e generation health_ready rg"

definition set_active :: "endpoint_id \<Rightarrow> 't registry \<Rightarrow> bool \<times> 't registry" where
  "set_active e rg =
     (if (case rg_connections rg e of None \<Rightarrow> False | Some c \<Rightarrow> cn_surface_active c)
      then (True, rg\<lparr>rg_active := e\<rparr>) else (False, rg))"

definition set_surface_active :: "endpoint_id \<Rightarrow> bool \<Rightarrow> 't registry \<Rightarrow> bool \<times> 't registry" where
  "set_surface_active e active rg =
     (case rg_connections rg e of
        None \<Rightarrow> (False, rg)
      | Some c \<Rightarrow> (cn_surface_active c \<noteq> active,
                  rg\<lparr>rg_connections := (rg_connections rg)(e \<mapsto> c\<lparr>cn_surface_active := active\<rparr>)\<rparr>))"

subsection \<open>Failures\<close>

fun replace_failure :: "transport_failure \<Rightarrow> transport_failure list \<Rightarrow> transport_failure list" where
  "replace_failure f [] = [f]"
| "replace_failure f (g # gs) = (if tf_endpoint_id g = tf_endpoint_id f then f # gs else g # replace_failure f gs)"

definition record_failure :: "'t transport_ops \<Rightarrow> endpoint_id \<Rightarrow> endpoint_error \<Rightarrow> 't registry \<Rightarrow> 't registry" where
  "record_failure tr e err rg =
     (case rg_connections rg e of
        None \<Rightarrow> rg
      | Some c \<Rightarrow>
          let failure = \<lparr>tf_endpoint_id = e, tf_generation = cn_generation c, tf_kind = ee_kind err, tf_message = ee_message err\<rparr>;
              rg = retire tr e rg
          in rg\<lparr>rg_failures := replace_failure failure (rg_failures rg)\<rparr>)"

definition send_to :: "'t transport_ops \<Rightarrow> endpoint_id \<Rightarrow> client_message \<Rightarrow> 't registry \<Rightarrow> send_outcome \<times> 't registry" where
  "send_to tr e message rg =
     (case rg_connections rg e of
        None \<Rightarrow> (NotSent, record_failure tr e \<lparr>ee_kind = NotConnectedKind, ee_message = ''endpoint is unavailable''\<rparr> rg)
      | Some c \<Rightarrow>
          (case tr_send tr message (cn_transport c) of
             (result, transport) \<Rightarrow>
               let rg = rg\<lparr>rg_connections := (rg_connections rg)(e \<mapsto> c\<lparr>cn_transport := transport\<rparr>)\<rparr> in
               case result of
                 Inr _ \<Rightarrow> (Sent, rg)
               | Inl err \<Rightarrow> (NotSent, record_failure tr e err rg)))"

definition registry_send :: "'t transport_ops \<Rightarrow> client_message \<Rightarrow> 't registry \<Rightarrow> send_outcome \<times> 't registry" where
  "registry_send tr message rg = send_to tr (rg_active rg) message rg"

definition registry_disconnect :: "'t transport_ops \<Rightarrow> endpoint_id \<Rightarrow> 't registry \<Rightarrow> 't registry" where
  "registry_disconnect tr e rg = retire tr e (rg\<lparr>rg_failures := filter (\<lambda>f. tf_endpoint_id f \<noteq> e) (rg_failures rg)\<rparr>)"

definition registry_fail :: "'t transport_ops \<Rightarrow> endpoint_id \<Rightarrow> endpoint_error \<Rightarrow> 't registry \<Rightarrow> 't registry" where
  "registry_fail tr e err rg = record_failure tr e err rg"

text \<open>\<open>take_error\<close> is called on every transport before any failure is recorded.\<close>

fun collect_errors ::
    "'t transport_ops \<Rightarrow> endpoint_id list \<Rightarrow> 't registry \<Rightarrow> (endpoint_id \<times> endpoint_error) list \<times> 't registry" where
  "collect_errors tr [] rg = ([], rg)"
| "collect_errors tr (e # order) rg =
     (case rg_connections rg e of
        None \<Rightarrow> collect_errors tr order rg
      | Some c \<Rightarrow>
          (case tr_take_error tr (cn_transport c) of
             (err, transport) \<Rightarrow>
               (case collect_errors tr order (rg\<lparr>rg_connections := (rg_connections rg)(e \<mapsto> c\<lparr>cn_transport := transport\<rparr>)\<rparr>) of
                  (errs, rg) \<Rightarrow> ((case err of None \<Rightarrow> errs | Some x \<Rightarrow> (e, x) # errs), rg))))"

definition take_failures :: "'t transport_ops \<Rightarrow> endpoint_id list \<Rightarrow> 't registry \<Rightarrow> transport_failure list \<times> 't registry" where
  "take_failures tr order rg =
     (case collect_errors tr order rg of
        (errs, rg) \<Rightarrow>
          let rg = fold (\<lambda>(e, err). record_failure tr e err) errs rg
          in (rg_failures rg, rg\<lparr>rg_failures := []\<rparr>))"

subsection \<open>Health checks\<close>

definition resume_health :: "nat \<Rightarrow> 't registry \<Rightarrow> 't registry" where
  "resume_health now rg = rg\<lparr>rg_last_health_tick := now,
     rg_connections := (\<lambda>e. map_option (\<lambda>c. c\<lparr>cn_health := map_option health_resume (cn_health c)\<rparr>) (rg_connections rg e))\<rparr>"

definition health_actions :: "endpoint_id list \<Rightarrow> nat \<Rightarrow> 't registry \<Rightarrow> (endpoint_id \<times> health_action) list" where
  "health_actions order now rg =
     filter (\<lambda>(e, action). action \<noteq> NoAction)
       (List.map_filter (\<lambda>e. case rg_connections rg e of
            None \<Rightarrow> None
          | Some c \<Rightarrow> map_option (\<lambda>h. (e, health_action_at h now)) (cn_health c)) order)"

definition run_health_action :: "'t transport_ops \<Rightarrow> nat \<Rightarrow> endpoint_id \<times> health_action \<Rightarrow> 't registry \<Rightarrow> 't registry" where
  "run_health_action tr now ea rg =
     (case ea of
        (e, NoAction) \<Rightarrow> rg
      | (e, PingAction) \<Rightarrow>
          (case send_to tr e (ClientEndpointControl ''endpoint.health.ping.v1'' '''') rg of
             (Sent, rg) \<Rightarrow>
               (case rg_connections rg e of
                  None \<Rightarrow> rg
                | Some c \<Rightarrow> rg\<lparr>rg_connections := (rg_connections rg)(e \<mapsto> c\<lparr>cn_health := map_option (health_ping_sent now) (cn_health c)\<rparr>)\<rparr>)
           | (NotSent, rg) \<Rightarrow> rg)
      | (e, ExpiredAction) \<Rightarrow>
          record_failure tr e \<lparr>ee_kind = TimedOutKind, ee_message = ''endpoint health check timed out''\<rparr> rg)"

definition tick_health :: "'t transport_ops \<Rightarrow> endpoint_id list \<Rightarrow> nat \<Rightarrow> 't registry \<Rightarrow> 't registry" where
  "tick_health tr order now rg =
     (let rg = (if now - rg_last_health_tick rg > HEARTBEAT_TIMEOUT then resume_health now rg else rg);
          rg = rg\<lparr>rg_last_health_tick := now\<rparr>
      in fold (run_health_action tr now) (health_actions order now rg) rg)"

subsection \<open>Dropping the registry\<close>

definition detach_all :: "'t transport_ops \<Rightarrow> endpoint_id list \<Rightarrow> 't registry \<Rightarrow> 't registry" where
  "detach_all tr order rg = fold (\<lambda>e rg. case rg_connections rg e of
       None \<Rightarrow> rg
     | Some c \<Rightarrow> rg\<lparr>rg_connections := (rg_connections rg)(e \<mapsto> c\<lparr>cn_transport := snd (tr_send tr ClientDetach (cn_transport c))\<rparr>)\<rparr>) order rg"

definition flush_all :: "'t transport_ops \<Rightarrow> nat \<Rightarrow> endpoint_id list \<Rightarrow> 't registry \<Rightarrow> 't registry" where
  "flush_all tr deadline order rg = fold (\<lambda>e rg. case rg_connections rg e of
       None \<Rightarrow> rg
     | Some c \<Rightarrow> retire tr e (rg\<lparr>rg_connections := (rg_connections rg)(e \<mapsto> c\<lparr>cn_transport := snd (tr_flush tr deadline (cn_transport c))\<rparr>)\<rparr>)) order rg"

definition drop_registry :: "'t transport_ops \<Rightarrow> nat \<Rightarrow> endpoint_id list \<Rightarrow> 't registry \<Rightarrow> 't registry" where
  "drop_registry tr now order rg = flush_all tr (now + 250) order (detach_all tr order rg)"

section \<open>What the registry keeps\<close>

text \<open>
  Every operation a client performs on the registry.  Generations are handed out in
  increasing order, so that a new connection is newer than what the registry knows of its
  endpoint; an iteration visits every connection once.
\<close>

definition newer :: "endpoint_id \<Rightarrow> u64 \<Rightarrow> 't registry \<Rightarrow> bool" where
  "newer e generation rg \<longleftrightarrow> (\<forall>c. rg_connections rg e = Some c \<longrightarrow> cn_generation c < generation) \<and>
     (\<forall>f\<in>set (rg_failures rg). tf_endpoint_id f = e \<longrightarrow> tf_generation f < generation)"

definition enumerates :: "endpoint_id list \<Rightarrow> 't registry \<Rightarrow> bool" where
  "enumerates order rg \<longleftrightarrow> distinct order \<and> set order = dom (rg_connections rg)"

inductive registry_step :: "'t transport_ops \<Rightarrow> 't registry \<Rightarrow> 't registry \<Rightarrow> bool" for tr where
  inserted: "newer e g rg \<Longrightarrow> registry_step tr rg (registry_insert tr e t g n surface now rg)"
| received: "registry_step tr rg (registry_received e g now rg)"
| marked_ready: "registry_step tr rg (mark_ready e g rg)"
| ticked: "enumerates order rg \<Longrightarrow> registry_step tr rg (tick_health tr order now rg)"
| resumed: "registry_step tr rg (resume_health now rg)"
| activated: "registry_step tr rg (snd (set_active e rg))"
| surface_set: "registry_step tr rg (snd (set_surface_active e b rg))"
| sent: "registry_step tr rg (snd (registry_send tr m rg))"
| sent_to: "registry_step tr rg (snd (send_to tr e m rg))"
| disconnected: "registry_step tr rg (registry_disconnect tr e rg)"
| failed: "registry_step tr rg (registry_fail tr e err rg)"
| failures_taken: "enumerates order rg \<Longrightarrow> registry_step tr rg (snd (take_failures tr order rg))"
| frozen: "registry_step tr rg (freeze_input rg)"
| unfrozen: "registry_step tr rg (unfreeze_input rg)"
| local_selected: "registry_step tr rg (select_unavailable_local rg)"
| dropped: "enumerates order rg \<Longrightarrow> registry_step tr rg (drop_registry tr now order rg)"

definition failures_ok :: "(endpoint_id \<rightharpoonup> 't connection) \<Rightarrow> transport_failure list \<Rightarrow> bool" where
  "failures_ok conns fs \<longleftrightarrow> distinct (map tf_endpoint_id fs) \<and>
     (\<forall>f\<in>set fs. \<forall>c. conns (tf_endpoint_id f) = Some c \<longrightarrow> tf_generation f < cn_generation c)"

definition health_ok :: "(endpoint_id \<rightharpoonup> 't connection) \<Rightarrow> bool" where
  "health_ok conns \<longleftrightarrow> (\<forall>e c. conns e = Some c \<longrightarrow> cn_health c \<noteq> None \<longrightarrow> \<not> is_local e \<and> supports_health_check (cn_negotiation c))"

definition registry_inv :: "('t \<Rightarrow> bool) \<Rightarrow> 't registry \<Rightarrow> bool" where
  "registry_inv stopped rg \<longleftrightarrow> failures_ok (rg_connections rg) (rg_failures rg) \<and> health_ok (rg_connections rg) \<and>
     list_all stopped (rg_retired rg) \<and> finite (dom (rg_connections rg)) \<and>
     rg_handed rg = card (dom (rg_connections rg)) + length (rg_retired rg)"

lemma replace_failure_ids:
  "map tf_endpoint_id (replace_failure f fs) =
     (if tf_endpoint_id f \<in> set (map tf_endpoint_id fs) then map tf_endpoint_id fs else map tf_endpoint_id fs @ [tf_endpoint_id f])"
  by (induction fs) auto

lemma replace_failure_set: "set (replace_failure f fs) \<subseteq> insert f (set fs)"
  by (induction fs) auto

text \<open>A change of one connection in place: its health, its transport after a call, its flag.\<close>

definition same_connection :: "'t connection \<Rightarrow> 't connection \<Rightarrow> bool" where
  "same_connection c d \<longleftrightarrow> cn_generation d = cn_generation c \<and> cn_negotiation d = cn_negotiation c \<and>
     (cn_health d \<noteq> None \<longrightarrow> cn_health c \<noteq> None)"

lemma in_place_keeps:
  assumes inv: "registry_inv stopped rg" and c: "rg_connections rg e = Some c" and same: "same_connection c d"
  shows "registry_inv stopped (rg\<lparr>rg_connections := (rg_connections rg)(e \<mapsto> d)\<rparr>)"
proof -
  have "dom ((rg_connections rg)(e \<mapsto> d)) = dom (rg_connections rg)" using c by auto
  moreover have "failures_ok ((rg_connections rg)(e \<mapsto> d)) (rg_failures rg)"
    using inv c same by (fastforce simp: registry_inv_def failures_ok_def same_connection_def)
  moreover have "health_ok ((rg_connections rg)(e \<mapsto> d))"
    using inv c same by (auto simp: registry_inv_def health_ok_def same_connection_def)
  ultimately show ?thesis using inv by (simp add: registry_inv_def)
qed

lemma update_health_keeps: "registry_inv stopped rg \<Longrightarrow> registry_inv stopped (update_health e g f rg)"
  by (auto simp: update_health_def same_connection_def split: option.split intro!: in_place_keeps)

lemma resume_health_keeps:
  assumes "registry_inv stopped rg"
  shows "registry_inv stopped (resume_health now rg)"
proof -
  let ?h = "\<lambda>c. c\<lparr>cn_health := map_option health_resume (cn_health c)\<rparr>"
  have "dom (\<lambda>e. map_option ?h (rg_connections rg e)) = dom (rg_connections rg)" by (auto simp: dom_def)
  then show ?thesis using assms
    by (auto simp: registry_inv_def resume_health_def failures_ok_def health_ok_def)
qed

locale endpoint_transport =
  fixes tr :: "'t transport_ops" and stopped :: "'t \<Rightarrow> bool"
  assumes disconnect_stops: "stopped (tr_disconnect tr t)"
    and stopped_refuses: "stopped t \<Longrightarrow> isl (fst (tr_send tr m t))"
    and stopped_stays: "stopped t \<Longrightarrow> stopped (snd (tr_send tr m t))"
begin

lemma retire_keeps:
  assumes inv: "registry_inv stopped rg"
  shows "registry_inv stopped (retire tr e rg)"
proof (cases "rg_connections rg e")
  case None
  with inv show ?thesis by (simp add: retire_def)
next
  case (Some c)
  have "dom ((rg_connections rg)(e := None)) = dom (rg_connections rg) - {e}" by auto
  moreover have "e \<in> dom (rg_connections rg)" using Some by auto
  moreover have "failures_ok ((rg_connections rg)(e := None)) (rg_failures rg)" "health_ok ((rg_connections rg)(e := None))"
    using inv by (simp_all add: registry_inv_def failures_ok_def health_ok_def)
  ultimately show ?thesis using inv Some card_Suc_Diff1 [of "dom (rg_connections rg)" e]
    by (simp add: retire_def registry_inv_def disconnect_stops)
qed

lemma insert_keeps:
  assumes inv: "registry_inv stopped rg" and new: "newer e g rg"
  shows "registry_inv stopped (registry_insert tr e t g n surface now rg)"
proof -
  let ?d = "\<lparr>cn_transport = t, cn_generation = g, cn_surface_active = surface, cn_negotiation = n,
      cn_health = if \<not> is_local e \<and> supports_health_check n then Some (health_new now) else None\<rparr>"
  have "failures_ok ((rg_connections rg)(e \<mapsto> ?d)) (rg_failures rg)" "health_ok ((rg_connections rg)(e \<mapsto> ?d))"
    using inv new by (auto simp: registry_inv_def failures_ok_def health_ok_def newer_def)
  then show ?thesis using inv
    by (cases "rg_connections rg e")
      (auto simp: registry_insert_def registry_inv_def disconnect_stops insert_absorb domI Let_def card_insert_if)
qed

lemma record_failure_keeps:
  assumes inv: "registry_inv stopped rg"
  shows "registry_inv stopped (record_failure tr e err rg)"
proof (cases "rg_connections rg e")
  case None
  with inv show ?thesis by (simp add: record_failure_def)
next
  case (Some c)
  let ?f = "\<lparr>tf_endpoint_id = e, tf_generation = cn_generation c, tf_kind = ee_kind err, tf_message = ee_message err\<rparr>"
  note gone = retire_keeps [OF inv, of e]
  have none: "rg_connections (retire tr e rg) e = None" "rg_failures (retire tr e rg) = rg_failures rg"
    using Some by (simp_all add: retire_def)
  have "failures_ok (rg_connections (retire tr e rg)) (replace_failure ?f (rg_failures rg))"
    using gone none replace_failure_set [of ?f "rg_failures rg"]
    by (auto simp: registry_inv_def failures_ok_def replace_failure_ids)
  with gone Some none show ?thesis by (simp add: record_failure_def registry_inv_def)
qed

lemma send_to_keeps: "registry_inv stopped rg \<Longrightarrow> registry_inv stopped (snd (send_to tr e m rg))"
  by (auto simp: send_to_def Let_def same_connection_def split: option.split prod.split sum.split
      intro!: record_failure_keeps in_place_keeps)

lemma collect_errors_keeps: "registry_inv stopped rg \<Longrightarrow> registry_inv stopped (snd (collect_errors tr order rg))"
proof (induction order arbitrary: rg)
  case (Cons e order)
  show ?case
  proof (cases "rg_connections rg e")
    case None
    with Cons show ?thesis by simp
  next
    case (Some c)
    obtain err t where taken: "tr_take_error tr (cn_transport c) = (err, t)" by fastforce
    have "registry_inv stopped (rg\<lparr>rg_connections := (rg_connections rg)(e \<mapsto> c\<lparr>cn_transport := t\<rparr>)\<rparr>)"
      by (rule in_place_keeps [OF Cons.prems Some]) (simp add: same_connection_def)
    from Cons.IH [OF this] show ?thesis by (simp add: Some taken case_prod_unfold)
  qed
qed simp

lemma fold_keeps: "(\<And>x rg. registry_inv stopped rg \<Longrightarrow> registry_inv stopped (f x rg)) \<Longrightarrow> registry_inv stopped rg \<Longrightarrow>
    registry_inv stopped (fold f xs rg)"
  by (induction xs arbitrary: rg) auto

lemma take_failures_keeps:
  assumes "registry_inv stopped rg"
  shows "registry_inv stopped (snd (take_failures tr order rg))"
proof -
  obtain errs rg' where c: "collect_errors tr order rg = (errs, rg')" by fastforce
  then have "registry_inv stopped rg'" using collect_errors_keeps [OF assms, of order] by simp
  then have "registry_inv stopped (fold (\<lambda>(e, err). record_failure tr e err) errs rg')"
    by (intro fold_keeps) (auto intro: record_failure_keeps)
  then show ?thesis by (simp add: take_failures_def c Let_def registry_inv_def failures_ok_def)
qed

lemma health_action_keeps: "registry_inv stopped rg \<Longrightarrow> registry_inv stopped (run_health_action tr now ea rg)"
proof -
  assume inv: "registry_inv stopped rg"
  obtain e a where ea: "ea = (e, a)" by fastforce
  obtain outcome rg' where sent: "send_to tr e (ClientEndpointControl ''endpoint.health.ping.v1'' '''') rg = (outcome, rg')" by fastforce
  have "registry_inv stopped rg'" using send_to_keeps [OF inv] sent by (metis snd_conv)
  with inv show ?thesis
    by (cases a) (auto simp: run_health_action_def ea sent same_connection_def intro!: record_failure_keeps in_place_keeps
        split: send_outcome.split option.split)
qed

lemma tick_health_keeps: "registry_inv stopped rg \<Longrightarrow> registry_inv stopped (tick_health tr order now rg)"
proof -
  assume inv: "registry_inv stopped rg"
  then have "registry_inv stopped ((if now - rg_last_health_tick rg > HEARTBEAT_TIMEOUT then resume_health now rg else rg)\<lparr>rg_last_health_tick := now\<rparr>)"
    using resume_health_keeps [OF inv, of now] by (simp add: registry_inv_def)
  then show ?thesis unfolding tick_health_def Let_def by (intro fold_keeps health_action_keeps)
qed

lemma drop_registry_keeps: "registry_inv stopped rg \<Longrightarrow> registry_inv stopped (drop_registry tr now order rg)"
  unfolding drop_registry_def flush_all_def detach_all_def
  by (intro fold_keeps) (auto simp: same_connection_def split: option.split intro!: in_place_keeps retire_keeps)

lemma flags_keep:
  assumes "registry_inv stopped rg"
  shows "registry_inv stopped (freeze_input rg)" "registry_inv stopped (unfreeze_input rg)"
    "registry_inv stopped (select_unavailable_local rg)" "registry_inv stopped (snd (set_active e rg))"
    "registry_inv stopped (snd (set_surface_active e b rg))" "registry_inv stopped (registry_disconnect tr e rg)"
proof -
  show "registry_inv stopped (freeze_input rg)" "registry_inv stopped (unfreeze_input rg)"
    "registry_inv stopped (select_unavailable_local rg)" "registry_inv stopped (snd (set_active e rg))"
    using assms by (simp_all add: registry_inv_def freeze_input_def unfreeze_input_def select_unavailable_local_def set_active_def)
  show "registry_inv stopped (snd (set_surface_active e b rg))"
    using assms by (auto simp: set_surface_active_def same_connection_def split: option.split intro!: in_place_keeps)
  have "registry_inv stopped (rg\<lparr>rg_failures := filter (\<lambda>f. tf_endpoint_id f \<noteq> e) (rg_failures rg)\<rparr>)"
    using assms by (auto simp: registry_inv_def failures_ok_def distinct_map_filter)
  then show "registry_inv stopped (registry_disconnect tr e rg)" unfolding registry_disconnect_def by (rule retire_keeps)
qed

lemma registry_step_keeps: "registry_inv stopped rg \<Longrightarrow> registry_step tr rg rg' \<Longrightarrow> registry_inv stopped rg'"
  by (erule registry_step.cases)
    (simp_all add: insert_keeps update_health_keeps tick_health_keeps resume_health_keeps flags_keep send_to_keeps
      record_failure_keeps take_failures_keeps drop_registry_keeps registry_received_def mark_ready_def registry_send_def registry_fail_def)

text \<open>No message is accepted by a transport that the registry has let go.\<close>

lemma retired_refuses: "registry_inv stopped rg \<Longrightarrow> t \<in> set (rg_retired rg) \<Longrightarrow> isl (fst (tr_send tr m t))"
  by (auto simp: registry_inv_def list_all_iff intro: stopped_refuses)

end

sublocale endpoint_transport \<subseteq> kept_by_steps "registry_step tr" "registry_inv stopped"
  by unfold_locales (rule registry_step_keeps)

end
