(* ===== verification/FrameWriter.thy ===== *)
theory FrameWriter
  imports Framing "HOL-Library.Sublist"
begin

section \<open>Writing one frame to a non-blocking stream\<close>

text \<open>
  \<open>write_frame_with_clock\<close> of \<open>src/src/client/endpoint/writer.rs\<close> (the build that is not for
  Windows): the loop offers what is left of the frame to the stream until everything is
  taken, the writer is stopped, the stream fails, or nothing was taken for
  \<open>WRITE_TIMEOUT\<close>.  One turn of the loop is \<open>frame_iteration\<close>; the worker of
  \<open>EndpointWriter\<close> runs the same turns between the actions of the other threads.

  The environment of the loop is a parameter: what the \<open>k\<close>-th call of \<open>write\<close> answers,
  what the clock shows in the \<open>k\<close>-th turn (in milliseconds, the call before the loop is number \<open>0\<close>),
  and what the \<open>k\<close>-th look at \<open>stopped\<close> finds.  Whether the loop ends depends on them, so it
  is a partial function, and that it does return is a theorem.
\<close>

datatype io_kind = Interrupted | WouldBlock | OtherKind nat

datatype write_result = Wrote nat | WriteFailed io_kind

datatype io_error =
    BrokenPipe
  | ConnectionAborted
  | InvalidData string
  | TimedOut
  | StreamError nat

definition WRITE_TIMEOUT :: nat where
  "WRITE_TIMEOUT = 5000"

definition IO_POLL_INTERVAL :: nat where
  "IO_POLL_INTERVAL = 2"

subsection \<open>One turn of the loop\<close>

text \<open>
  \<open>NextTurn written rest deadline\<close> goes round the loop; \<open>GiveUp e\<close> returns the error.  A
  stream never takes more than it is offered, otherwise the slice \<open>frame[written..]\<close> panics.
\<close>

datatype frame_turn = NextTurn "byte list" "byte list" nat | GiveUp io_error | TurnPanic

definition poll_turn :: "nat \<Rightarrow> byte list \<Rightarrow> nat \<Rightarrow> frame_turn" where
  "poll_turn now frame deadline = (if now \<ge> deadline then GiveUp TimedOut else NextTurn [] frame deadline)"

definition frame_iteration :: "write_result \<Rightarrow> nat \<Rightarrow> byte list \<Rightarrow> nat \<Rightarrow> frame_turn" where
  "frame_iteration result now frame deadline =
     (case result of
        Wrote written \<Rightarrow>
          if written = 0 then poll_turn now frame deadline
          else if length frame < written then TurnPanic
          else NextTurn (take written frame) (drop written frame) (now + WRITE_TIMEOUT)
      | WriteFailed Interrupted \<Rightarrow> NextTurn [] frame deadline
      | WriteFailed WouldBlock \<Rightarrow> poll_turn now frame deadline
      | WriteFailed (OtherKind e) \<Rightarrow> GiveUp (StreamError e))"

subsection \<open>The loop\<close>

text \<open>The value is the result and the bytes the stream has taken.\<close>

partial_function (option) write_frame_loop ::
    "(nat \<Rightarrow> byte list \<Rightarrow> write_result) \<Rightarrow> (nat \<Rightarrow> nat) \<Rightarrow> (nat \<Rightarrow> bool) \<Rightarrow> nat \<Rightarrow> byte list \<Rightarrow> nat \<Rightarrow> byte list \<Rightarrow>
       ((io_error + unit) \<times> byte list) option" where
  "write_frame_loop io clock stopped k frame deadline out =
     (if frame = [] \<or> stopped k then Some (Inr (), out)
      else case frame_iteration (io k frame) (clock k) frame deadline of
             NextTurn written rest deadline' \<Rightarrow> write_frame_loop io clock stopped (Suc k) rest deadline' (out @ written)
           | GiveUp e \<Rightarrow> Some (Inl e, out)
           | TurnPanic \<Rightarrow> None)"

definition write_frame_with_clock ::
    "(nat \<Rightarrow> byte list \<Rightarrow> write_result) \<Rightarrow> (nat \<Rightarrow> nat) \<Rightarrow> (nat \<Rightarrow> bool) \<Rightarrow> byte list \<Rightarrow>
       ((io_error + unit) \<times> byte list) option" where
  "write_frame_with_clock io clock stopped frame =
     write_frame_loop io clock stopped 1 frame (clock 0 + WRITE_TIMEOUT) []"

subsection \<open>What the environment promises\<close>

text \<open>
  The contract of \<open>io::Write::write\<close>: it takes at most what it is offered.  The clock does not
  go back, and a turn that ends in \<open>sleep\<close> takes at least the interval slept.  A signal
  does not interrupt every call from some point on, for in that case the loop goes round
  without looking at the clock.
\<close>

definition writes_within :: "(nat \<Rightarrow> byte list \<Rightarrow> write_result) \<Rightarrow> bool" where
  "writes_within io \<longleftrightarrow> (\<forall>k chunk n. io k chunk = Wrote n \<longrightarrow> n \<le> length chunk)"

definition clock_runs :: "(nat \<Rightarrow> byte list \<Rightarrow> write_result) \<Rightarrow> (nat \<Rightarrow> nat) \<Rightarrow> bool" where
  "clock_runs io clock \<longleftrightarrow>
     (\<forall>k. clock k \<le> clock (Suc k) \<and>
       ((\<exists>chunk. io k chunk \<in> {Wrote 0, WriteFailed WouldBlock}) \<longrightarrow> clock k + IO_POLL_INTERVAL \<le> clock (Suc k)))"

definition interrupts_end :: "(nat \<Rightarrow> byte list \<Rightarrow> write_result) \<Rightarrow> bool" where
  "interrupts_end io \<longleftrightarrow> (\<forall>k. \<exists>j\<ge>k. \<forall>chunk. io j chunk \<noteq> WriteFailed Interrupted)"

subsection \<open>Why the loop ends\<close>

text \<open>How many turns until the next one that no signal interrupts.\<close>

definition quiet_after :: "(nat \<Rightarrow> byte list \<Rightarrow> write_result) \<Rightarrow> nat \<Rightarrow> nat" where
  "quiet_after io k = (LEAST d. \<forall>chunk. io (k + d) chunk \<noteq> WriteFailed Interrupted)"

lemma quiet_after_Suc:
  assumes "interrupts_end io" and "io k chunk = WriteFailed Interrupted"
  shows "quiet_after io (Suc k) < quiet_after io k"
proof -
  let ?P = "\<lambda>d. \<forall>chunk. io (k + d) chunk \<noteq> WriteFailed Interrupted"
  from assms(1) obtain j where "k \<le> j" "\<forall>chunk. io j chunk \<noteq> WriteFailed Interrupted"
    by (auto simp: interrupts_end_def)
  then have "?P (j - k)" by simp
  then have least: "?P (quiet_after io k)" unfolding quiet_after_def by (rule LeastI [of ?P])
  with assms(2) have "quiet_after io k \<noteq> 0" by (metis add_0_right)
  then obtain d where d: "quiet_after io k = Suc d" using not0_implies_Suc by blast
  have "quiet_after io (Suc k) \<le> d" using least unfolding d quiet_after_def [of io "Suc k"]
    by (intro Least_le) simp
  with d show ?thesis by simp
qed

text \<open>
  One more turn leaves less of the frame, or brings the clock nearer to the deadline, or
  the next quiet call nearer.
\<close>

definition turn_order :: "(nat \<Rightarrow> byte list \<Rightarrow> write_result) \<Rightarrow> (nat \<Rightarrow> nat) \<Rightarrow> ((nat \<times> byte list \<times> nat) \<times> (nat \<times> byte list \<times> nat)) set" where
  "turn_order io clock = measures
     [\<lambda>(k, frame, deadline). length frame, \<lambda>(k, frame, deadline). deadline - clock k, \<lambda>(k, frame, deadline). quiet_after io k]"

lemma turn_decreases:
  assumes "clock_runs io clock" and "interrupts_end io"
    and "frame_iteration (io k frame) (clock k) frame deadline = NextTurn written rest deadline'" and "frame \<noteq> []"
  shows "((Suc k, rest, deadline'), (k, frame, deadline)) \<in> turn_order io clock"
proof -
  have later: "clock k \<le> clock (Suc k)"
    and slept: "\<exists>chunk. io k chunk \<in> {Wrote 0, WriteFailed WouldBlock} \<Longrightarrow> clock k + 2 \<le> clock (Suc k)"
    using assms(1) unfolding clock_runs_def IO_POLL_INTERVAL_def by blast+
  have polled: "deadline - clock (Suc k) < deadline - clock k"
    if "io k frame = Wrote 0 \<or> io k frame = WriteFailed WouldBlock" "clock k < deadline"
    using slept that by fastforce
  show ?thesis
  proof (cases "io k frame")
    case (Wrote n)
    then show ?thesis using assms(3,4) polled
      by (auto simp: frame_iteration_def poll_turn_def turn_order_def split: if_splits)
  next
    case (WriteFailed e)
    then show ?thesis using assms(3) polled later quiet_after_Suc [OF assms(2), of k frame]
      by (cases e) (auto simp: frame_iteration_def poll_turn_def turn_order_def split: if_splits)
  qed
qed

lemma turn_keeps_bytes:
  "frame_iteration result now frame deadline = NextTurn written rest deadline' \<Longrightarrow> frame = written @ rest"
  by (auto simp: frame_iteration_def poll_turn_def split: write_result.splits io_kind.splits if_splits)

lemma turn_not_panic:
  "writes_within io \<Longrightarrow> frame_iteration (io k frame) now frame deadline \<noteq> TurnPanic"
  by (auto simp: frame_iteration_def poll_turn_def writes_within_def split: write_result.split io_kind.split)
    (metis leD)

text \<open>What a returned pair means for a frame of which \<open>out\<close> is taken and \<open>rest\<close> is left.\<close>

definition frame_outcome :: "(nat \<Rightarrow> bool) \<Rightarrow> byte list \<Rightarrow> (io_error + unit) \<times> byte list \<Rightarrow> bool" where
  "frame_outcome stopped frame result \<longleftrightarrow>
     (case result of
        (Inr _, out) \<Rightarrow> out = frame \<or> (\<exists>k. stopped k) \<and> strict_prefix out frame
      | (Inl e, out) \<Rightarrow> strict_prefix out frame)"

lemma write_frame_loop_returns:
  assumes "writes_within io" and "clock_runs io clock" and "interrupts_end io"
  shows "\<exists>r. write_frame_loop io clock stopped k rest deadline out = Some r \<and> frame_outcome stopped (out @ rest) r"
proof -
  have "wf (turn_order io clock)" by (simp add: turn_order_def)
  then have "case x of (k, rest, deadline) \<Rightarrow>
      \<forall>out. \<exists>r. write_frame_loop io clock stopped k rest deadline out = Some r \<and> frame_outcome stopped (out @ rest) r" for x
  proof (induction x rule: wf_induct_rule)
    case (less x)
    obtain k rest deadline where x: "x = (k, rest, deadline)" by (cases x)
    have "\<exists>r. write_frame_loop io clock stopped k rest deadline out = Some r \<and> frame_outcome stopped (out @ rest) r" for out
    proof (cases "rest = [] \<or> stopped k")
      case True
      then show ?thesis
        by (subst write_frame_loop.simps) (auto simp: frame_outcome_def strict_prefix_def)
    next
      case False
      note unfold = write_frame_loop.simps [of io clock stopped k rest deadline out]
      show ?thesis
      proof (cases "frame_iteration (io k rest) (clock k) rest deadline")
        case (NextTurn written rest' deadline')
        have "((Suc k, rest', deadline'), x) \<in> turn_order io clock"
          using turn_decreases [OF assms(2,3) NextTurn] False x by simp
        from less [OF this] have "\<exists>r. write_frame_loop io clock stopped (Suc k) rest' deadline' (out @ written) = Some r \<and>
            frame_outcome stopped ((out @ written) @ rest') r" unfolding case_prod_conv by (rule spec)
        moreover have "write_frame_loop io clock stopped k rest deadline out =
            write_frame_loop io clock stopped (Suc k) rest' deadline' (out @ written)"
          using False by (simp add: unfold NextTurn)
        moreover have "(out @ written) @ rest' = out @ rest" using turn_keeps_bytes [OF NextTurn] by simp
        ultimately show ?thesis by metis
      next
        case (GiveUp e)
        with False show ?thesis by (simp add: unfold frame_outcome_def strict_prefix_def)
      next
        case TurnPanic
        with turn_not_panic [OF assms(1)] show ?thesis by blast
      qed
    qed
    then show ?case by (simp add: x)
  qed
  from this [of "(k, rest, deadline)"] show ?thesis by simp
qed

text \<open>
  C36. Writing a frame always returns when the stream takes at most what it is offered, the
  clock runs, and signals do not interrupt every call: after a success everything is written
  unless the writer was stopped, after an error a proper prefix of the frame is, so that a
  partial frame is never reported as delivered.
\<close>

theorem write_frame_returns:
  assumes "writes_within io" and "clock_runs io clock" and "interrupts_end io"
  shows "\<exists>r. write_frame_with_clock io clock stopped frame = Some r \<and> frame_outcome stopped frame r"
  using write_frame_loop_returns [OF assms, of stopped 1 frame "clock 0 + WRITE_TIMEOUT" "[]"]
  by (simp add: write_frame_with_clock_def)

text \<open>A stream that is busy at first, is interrupted once, and then takes two bytes at a time.\<close>

definition ex_io :: "nat \<Rightarrow> byte list \<Rightarrow> write_result" where
  "ex_io k chunk = (if k = 1 then WriteFailed WouldBlock else if k = 2 then WriteFailed Interrupted
     else Wrote (min 2 (length chunk)))"

theorem write_frame_returns_witness:
  "write_frame_with_clock ex_io (\<lambda>k. 3 * k) (\<lambda>k. False) [1, 2, 3] = Some (Inr (), [1, 2, 3])"
proof -
  have "writes_within ex_io" by (auto simp: writes_within_def ex_io_def)
  moreover have "clock_runs ex_io (\<lambda>k. 3 * k)" by (simp add: clock_runs_def IO_POLL_INTERVAL_def)
  moreover have "interrupts_end ex_io"
    unfolding interrupts_end_def
  proof
    fix k
    show "\<exists>j\<ge>k. \<forall>chunk. ex_io j chunk \<noteq> WriteFailed Interrupted"
      by (rule exI [of _ "k + 3"]) (simp add: ex_io_def)
  qed
  ultimately obtain r where r: "write_frame_with_clock ex_io (\<lambda>k. 3 * k) (\<lambda>k. False) [1, 2, 3] = Some r"
    "frame_outcome (\<lambda>k. False) [1, 2, 3] r"
    using write_frame_returns by blast
  have "fst r = Inr ()" using r(1)
    by (auto simp: write_frame_with_clock_def write_frame_loop.simps frame_iteration_def poll_turn_def ex_io_def WRITE_TIMEOUT_def)
  with r show ?thesis by (cases r) (simp add: frame_outcome_def)
qed

end
