(* ===== verification/EndpointWriter.thy ===== *)
theory EndpointWriter
  imports FrameWriter
begin

section \<open>The writer of an endpoint\<close>

text \<open>
  \<open>NativeEndpointTransport\<close> of \<open>src/src/client/endpoint/writer.rs\<close>.  The user interface sends
  frames to a bounded channel of batches; a worker thread claims one batch after the other and writes
  it to the socket.  A batch that is not claimed yet is still open: further frames are
  appended to it.

  The state is everything the two threads share (the channel, the batches behind their locks,
  the byte counter, the stop flag, the error slot) with the place each of them is at, the bytes
  the socket has taken and, as a ghost, the frames that \<open>send\<close> has accepted.
  A batch is named by a number, as its \<open>Arc\<close> is by its address.  Each access of a thread to shared
  state is one action, and the actions of both threads interleave freely; an atomic
  operation and the critical section of a lock are one action each.  Poisoned locks, which need a
  panic inside a critical section, are not modelled.
\<close>

definition MAX_QUEUED_BATCHES :: nat where
  "MAX_QUEUED_BATCHES = 256"

definition MAX_BATCH_BYTES :: nat where
  "MAX_BATCH_BYTES = 64 * 1024"

definition MAX_QUEUED_BYTES :: nat where
  "MAX_QUEUED_BYTES = 2 * MAX_GRAPHICS_FRAME_SIZE"

record frame_batch =
  fb_frames :: "byte list list"
  fb_bytes :: usize

definition empty_batch :: frame_batch where
  "empty_batch = \<lparr>fb_frames = [], fb_bytes = 0\<rparr>"

datatype writer_command = CmdFrames nat | CmdFlush nat

text \<open>Where the worker is; \<open>FrameLoop rest deadline frame later\<close> is the head of the loop over a frame.\<close>

datatype worker =
    WaitingForCommand
  | Received writer_command
  | Claiming nat
  | NextFrame "byte list list"
  | FrameLoop "byte list" nat "byte list" "byte list list"
  | Offering "byte list" nat "byte list" "byte list list"
  | FrameWritten "io_error + unit" "byte list" "byte list list"
  | Failing io_error
  | Stopping
  | Leaving
  | Exited

text \<open>Where the user interface is in a call of \<open>send\<close> or \<open>flush\<close>; \<open>Returned\<close> between calls.\<close>

datatype producer =
    Returned "io_error + unit"
  | Checked "byte list"
  | Reserved "byte list"
  | NeedsBatch "byte list"
  | Refused "byte list" io_error
  | FlushStart
  | FlushWait nat

record writer_state =
  ws_queue :: "writer_command list"
  ws_batches :: "nat \<Rightarrow> frame_batch"
  ws_next :: nat
  ws_pending_batch :: "nat option"
  ws_queued_bytes :: usize
  ws_stopped :: bool
  ws_error :: "io_error option"
  ws_dropped :: bool
  ws_flushed :: "nat list"
  ws_producer :: producer
  ws_worker :: worker
  ws_output :: "byte list"
  ws_accepted :: "byte list list"

definition writer_new :: writer_state where
  "writer_new = \<lparr>ws_queue = [], ws_batches = (\<lambda>_. empty_batch), ws_next = 0, ws_pending_batch = None,
     ws_queued_bytes = 0, ws_stopped = False, ws_error = None, ws_dropped = False, ws_flushed = [],
     ws_producer = Returned (Inr ()), ws_worker = WaitingForCommand, ws_output = [], ws_accepted = []\<rparr>"

text \<open>\<open>fetch_sub\<close> wraps around.\<close>

definition fetch_sub :: "usize \<Rightarrow> usize \<Rightarrow> usize" where
  "fetch_sub a b = (a + (18446744073709551616 - b mod 18446744073709551616)) mod 18446744073709551616"

subsection \<open>The user interface\<close>

definition begin_send :: "('m \<Rightarrow> string + byte list) \<Rightarrow> 'm \<Rightarrow> writer_state \<Rightarrow> writer_state" where
  "begin_send enc message st =
     (if ws_stopped st then st\<lparr>ws_producer := Returned (Inl BrokenPipe)\<rparr>
      else case write_message enc [] message of
             Inl e \<Rightarrow> st\<lparr>ws_producer := Returned (Inl (InvalidData (framing_error_text e)))\<rparr>
           | Inr frame \<Rightarrow> st\<lparr>ws_producer := Checked frame\<rparr>)"

definition reserve_bytes :: "byte list \<Rightarrow> writer_state \<Rightarrow> writer_state" where
  "reserve_bytes frame st =
     (case checked_add u64_max (ws_queued_bytes st) (length frame) of
        None \<Rightarrow> st\<lparr>ws_producer := Returned (Inl ConnectionAborted)\<rparr>
      | Some bytes \<Rightarrow>
          if bytes \<le> MAX_QUEUED_BYTES then st\<lparr>ws_queued_bytes := bytes, ws_producer := Reserved frame\<rparr>
          else st\<lparr>ws_producer := Returned (Inl ConnectionAborted)\<rparr>)"

definition append_to_pending :: "byte list \<Rightarrow> writer_state \<Rightarrow> writer_state" where
  "append_to_pending frame st =
     (case ws_pending_batch st of
        None \<Rightarrow> st\<lparr>ws_producer := NeedsBatch frame\<rparr>
      | Some b \<Rightarrow>
          let batch = ws_batches st b in
          if fb_frames batch \<noteq> [] \<and> length frame \<le> MAX_BATCH_BYTES - fb_bytes batch
          then st\<lparr>ws_batches := (ws_batches st)(b := \<lparr>fb_frames = fb_frames batch @ [frame],
                    fb_bytes = fb_bytes batch + length frame\<rparr>),
                  ws_accepted := ws_accepted st @ [frame], ws_producer := Returned (Inr ())\<rparr>
          else st\<lparr>ws_producer := NeedsBatch frame\<rparr>)"

text \<open>\<open>try_send\<close>: a channel without receiver refuses, and so does a full one.\<close>

definition try_send :: "writer_command \<Rightarrow> writer_state \<Rightarrow> io_error + writer_state" where
  "try_send command st =
     (if ws_worker st = Exited then Inl BrokenPipe
      else if MAX_QUEUED_BATCHES \<le> length (ws_queue st) then Inl ConnectionAborted
      else Inr (st\<lparr>ws_queue := ws_queue st @ [command], ws_next := Suc (ws_next st)\<rparr>))"

definition push_batch :: "byte list \<Rightarrow> writer_state \<Rightarrow> writer_state" where
  "push_batch frame st =
     (let b = ws_next st in
      case try_send (CmdFrames b) st of
        Inl e \<Rightarrow> st\<lparr>ws_producer := Refused frame e\<rparr>
      | Inr st' \<Rightarrow>
          st'\<lparr>ws_batches := (ws_batches st')(b := \<lparr>fb_frames = [frame], fb_bytes = length frame\<rparr>),
              ws_pending_batch := Some b, ws_accepted := ws_accepted st' @ [frame], ws_producer := Returned (Inr ())\<rparr>)"

definition release_bytes :: "byte list \<Rightarrow> io_error \<Rightarrow> writer_state \<Rightarrow> writer_state" where
  "release_bytes frame e st =
     st\<lparr>ws_queued_bytes := fetch_sub (ws_queued_bytes st) (length frame), ws_producer := Returned (Inl e)\<rparr>"

definition begin_flush :: "writer_state \<Rightarrow> writer_state" where
  "begin_flush st = st\<lparr>ws_pending_batch := None, ws_producer := FlushStart\<rparr>"

definition push_flush :: "writer_state \<Rightarrow> writer_state" where
  "push_flush st =
     (case try_send (CmdFlush (ws_next st)) st of
        Inl e \<Rightarrow> st\<lparr>ws_producer := Returned (Inl ConnectionAborted)\<rparr>
      | Inr st' \<Rightarrow> st'\<lparr>ws_producer := FlushWait (ws_next st)\<rparr>)"

definition producer_turn :: "writer_state \<Rightarrow> writer_state" where
  "producer_turn st =
     (case ws_producer st of
        Checked frame \<Rightarrow> reserve_bytes frame st
      | Reserved frame \<Rightarrow> append_to_pending frame st
      | NeedsBatch frame \<Rightarrow> push_batch frame st
      | Refused frame e \<Rightarrow> release_bytes frame e st
      | FlushStart \<Rightarrow> push_flush st
      | _ \<Rightarrow> st)"

text \<open>A call of \<open>send\<close> with no action of the worker in between: at most four turns after the check.\<close>

definition send :: "('m \<Rightarrow> string + byte list) \<Rightarrow> 'm \<Rightarrow> writer_state \<Rightarrow> writer_state" where
  "send enc message st = producer_turn (producer_turn (producer_turn (producer_turn (begin_send enc message st))))"

definition disconnect :: "writer_state \<Rightarrow> writer_state" where
  "disconnect st = st\<lparr>ws_stopped := True\<rparr>"

definition take_error :: "writer_state \<Rightarrow> io_error option \<times> writer_state" where
  "take_error st = (ws_error st, st\<lparr>ws_error := None\<rparr>)"

definition drop_transport :: "writer_state \<Rightarrow> writer_state" where
  "drop_transport st = st\<lparr>ws_stopped := True, ws_dropped := True\<rparr>"

subsection \<open>The worker\<close>

definition claim_batch :: "nat \<Rightarrow> writer_state \<Rightarrow> writer_state" where
  "claim_batch b st = st\<lparr>ws_batches := (ws_batches st)(b := empty_batch), ws_worker := NextFrame (fb_frames (ws_batches st b))\<rparr>"

definition offer_frame ::
    "write_result \<Rightarrow> nat \<Rightarrow> byte list \<Rightarrow> nat \<Rightarrow> byte list \<Rightarrow> byte list list \<Rightarrow> writer_state \<Rightarrow> writer_state" where
  "offer_frame result now rest deadline frame later st =
     (case frame_iteration result now rest deadline of
        NextTurn written rest' deadline' \<Rightarrow>
          st\<lparr>ws_output := ws_output st @ written, ws_worker := FrameLoop rest' deadline' frame later\<rparr>
      | GiveUp e \<Rightarrow> st\<lparr>ws_worker := FrameWritten (Inl e) frame later\<rparr>
      | TurnPanic \<Rightarrow> st\<lparr>ws_queue := [], ws_worker := Exited\<rparr>)"

definition worker_turn :: "write_result \<Rightarrow> nat \<Rightarrow> writer_state \<Rightarrow> writer_state" where
  "worker_turn result now st =
     (case ws_worker st of
        WaitingForCommand \<Rightarrow>
          (case ws_queue st of
             [] \<Rightarrow> if ws_dropped st then st\<lparr>ws_worker := Leaving\<rparr> else st
           | command # queue \<Rightarrow> st\<lparr>ws_queue := queue, ws_worker := Received command\<rparr>)
      | Received command \<Rightarrow>
          if ws_stopped st then st\<lparr>ws_worker := Leaving\<rparr>
          else (case command of
                  CmdFrames b \<Rightarrow> st\<lparr>ws_worker := Claiming b\<rparr>
                | CmdFlush f \<Rightarrow> st\<lparr>ws_flushed := f # ws_flushed st, ws_worker := WaitingForCommand\<rparr>)
      | Claiming b \<Rightarrow> claim_batch b st
      | NextFrame frames \<Rightarrow>
          (case frames of
             [] \<Rightarrow> st\<lparr>ws_worker := WaitingForCommand\<rparr>
           | frame # later \<Rightarrow>
               if ws_stopped st then st\<lparr>ws_worker := WaitingForCommand\<rparr>
               else st\<lparr>ws_worker := FrameLoop frame (now + WRITE_TIMEOUT) frame later\<rparr>)
      | FrameLoop rest deadline frame later \<Rightarrow>
          if rest = [] \<or> ws_stopped st then st\<lparr>ws_worker := FrameWritten (Inr ()) frame later\<rparr>
          else st\<lparr>ws_worker := Offering rest deadline frame later\<rparr>
      | Offering rest deadline frame later \<Rightarrow> offer_frame result now rest deadline frame later st
      | FrameWritten written frame later \<Rightarrow>
          st\<lparr>ws_queued_bytes := fetch_sub (ws_queued_bytes st) (length frame),
             ws_worker := (case written of Inr _ \<Rightarrow> NextFrame later | Inl e \<Rightarrow> Failing e)\<rparr>
      | Failing e \<Rightarrow> st\<lparr>ws_error := Some e, ws_worker := Stopping\<rparr>
      | Stopping \<Rightarrow> st\<lparr>ws_stopped := True, ws_worker := Leaving\<rparr>
      | Leaving \<Rightarrow> st\<lparr>ws_queue := [], ws_worker := Exited\<rparr>
      | Exited \<Rightarrow> st)"

subsection \<open>Interleaving\<close>

definition takes_what_is_offered :: "write_result \<Rightarrow> writer_state \<Rightarrow> bool" where
  "takes_what_is_offered result st =
     (case (result, ws_worker st) of (Wrote n, Offering rest _ _ _) \<Rightarrow> n \<le> length rest | _ \<Rightarrow> True)"

inductive writer_step :: "('m \<Rightarrow> string + byte list) \<Rightarrow> writer_state \<Rightarrow> writer_state \<Rightarrow> bool" for enc where
  send_called: "ws_producer st = Returned r \<Longrightarrow> \<not> ws_dropped st \<Longrightarrow> writer_step enc st (begin_send enc message st)"
| flush_called: "ws_producer st = Returned r \<Longrightarrow> \<not> ws_dropped st \<Longrightarrow> writer_step enc st (begin_flush st)"
| producer_acts: "writer_step enc st (producer_turn st)"
| flush_answered: "ws_producer st = FlushWait f \<Longrightarrow> f \<in> set (ws_flushed st) \<Longrightarrow>
    writer_step enc st (st\<lparr>ws_producer := Returned (Inr ())\<rparr>)"
| flush_timed_out: "ws_producer st = FlushWait f \<Longrightarrow> writer_step enc st (st\<lparr>ws_producer := Returned (Inl TimedOut)\<rparr>)"
| flush_abandoned: "ws_producer st = FlushWait f \<Longrightarrow> f \<notin> set (ws_flushed st) \<Longrightarrow> ws_worker st = Leaving \<or> ws_worker st = Exited \<Longrightarrow>
    writer_step enc st (st\<lparr>ws_producer := Returned (Inl BrokenPipe)\<rparr>)"
| error_taken: "ws_producer st = Returned r \<Longrightarrow> writer_step enc st (snd (take_error st))"
| disconnected: "writer_step enc st (disconnect st)"
| dropped: "ws_producer st = Returned r \<Longrightarrow> writer_step enc st (drop_transport st)"
| worker_acts: "takes_what_is_offered result st \<Longrightarrow> writer_step enc st (worker_turn result now st)"

section \<open>What is where\<close>

definition cmd_frames :: "(nat \<Rightarrow> frame_batch) \<Rightarrow> writer_command \<Rightarrow> byte list list" where
  "cmd_frames batches command = (case command of CmdFrames b \<Rightarrow> fb_frames (batches b) | CmdFlush _ \<Rightarrow> [])"

definition cmd_batches :: "writer_command list \<Rightarrow> nat list" where
  "cmd_batches commands = concat (map (\<lambda>c. case c of CmdFrames b \<Rightarrow> [b] | CmdFlush _ \<Rightarrow> []) commands)"

definition frames_of :: "(nat \<Rightarrow> frame_batch) \<Rightarrow> writer_command list \<Rightarrow> byte list list" where
  "frames_of batches commands = concat (map (cmd_frames batches) commands)"

text \<open>The command the worker has received and not claimed, what it holds to write, and how much of the
  byte counter that is.\<close>

definition worker_commands :: "worker \<Rightarrow> writer_command list" where
  "worker_commands w = (case w of Received c \<Rightarrow> [c] | Claiming b \<Rightarrow> [CmdFrames b] | _ \<Rightarrow> [])"

definition held :: "worker \<Rightarrow> byte list" where
  "held w = (case w of
     NextFrame frames \<Rightarrow> concat frames
   | FrameLoop rest _ _ later \<Rightarrow> rest @ concat later
   | Offering rest _ _ later \<Rightarrow> rest @ concat later
   | FrameWritten _ _ later \<Rightarrow> concat later
   | _ \<Rightarrow> [])"

definition held_size :: "worker \<Rightarrow> nat" where
  "held_size w = (case w of
     NextFrame frames \<Rightarrow> length (concat frames)
   | FrameLoop _ _ frame later \<Rightarrow> length frame + length (concat later)
   | Offering _ _ frame later \<Rightarrow> length frame + length (concat later)
   | FrameWritten _ frame later \<Rightarrow> length frame + length (concat later)
   | _ \<Rightarrow> 0)"

definition reserved :: "producer \<Rightarrow> nat" where
  "reserved p = (case p of Reserved f \<Rightarrow> length f | NeedsBatch f \<Rightarrow> length f | Refused f _ \<Rightarrow> length f | _ \<Rightarrow> 0)"

definition commands :: "writer_state \<Rightarrow> writer_command list" where
  "commands st = worker_commands (ws_worker st) @ ws_queue st"

definition outstanding :: "writer_state \<Rightarrow> byte list" where
  "outstanding st = held (ws_worker st) @ concat (frames_of (ws_batches st) (commands st))"

definition load :: "writer_state \<Rightarrow> nat" where
  "load st = reserved (ws_producer st) + held_size (ws_worker st) + length (concat (frames_of (ws_batches st) (commands st)))"

lemmas place_defs = cmd_frames_def cmd_batches_def frames_of_def worker_commands_def held_def held_size_def reserved_def
  commands_def

lemma cmd_batches_simps [simp]:
  "cmd_batches [] = []" "cmd_batches (CmdFrames b # cs) = b # cmd_batches cs" "cmd_batches (CmdFlush f # cs) = cmd_batches cs"
  "cmd_batches (cs @ ds) = cmd_batches cs @ cmd_batches ds"
  by (simp_all add: cmd_batches_def)

lemma frames_of_simps [simp]:
  "frames_of h [] = []" "frames_of h (CmdFrames b # cs) = fb_frames (h b) @ frames_of h cs"
  "frames_of h (CmdFlush f # cs) = frames_of h cs" "frames_of h (cs @ ds) = frames_of h cs @ frames_of h ds"
  by (simp_all add: frames_of_def cmd_frames_def)

lemma worker_commands_simps [simp]:
  "worker_commands (Received c) = [c]" "worker_commands (Claiming b) = [CmdFrames b]"
  "worker_commands WaitingForCommand = []" "worker_commands (NextFrame fs) = []" "worker_commands (FrameLoop r d f l) = []"
  "worker_commands (Offering r d f l) = []" "worker_commands (FrameWritten x f l) = []" "worker_commands (Failing e) = []"
  "worker_commands Stopping = []" "worker_commands Leaving = []" "worker_commands Exited = []"
  by (simp_all add: worker_commands_def)

lemma held_simps [simp]:
  "held (Received c) = []" "held (Claiming b) = []" "held WaitingForCommand = []" "held (NextFrame fs) = concat fs"
  "held (FrameLoop r d f l) = r @ concat l" "held (Offering r d f l) = r @ concat l" "held (FrameWritten x f l) = concat l"
  "held (Failing e) = []" "held Stopping = []" "held Leaving = []" "held Exited = []"
  by (simp_all add: held_def)

lemma held_size_simps [simp]:
  "held_size (Received c) = 0" "held_size (Claiming b) = 0" "held_size WaitingForCommand = 0"
  "held_size (NextFrame fs) = length (concat fs)" "held_size (FrameLoop r d f l) = length f + length (concat l)"
  "held_size (Offering r d f l) = length f + length (concat l)"
  "held_size (FrameWritten x f l) = length f + length (concat l)"
  "held_size (Failing e) = 0" "held_size Stopping = 0" "held_size Leaving = 0" "held_size Exited = 0"
  by (simp_all add: held_size_def)

lemma reserved_simps [simp]:
  "reserved (Returned r) = 0" "reserved (Checked f) = 0" "reserved (Reserved f) = length f" "reserved (NeedsBatch f) = length f"
  "reserved (Refused f e) = length f" "reserved FlushStart = 0" "reserved (FlushWait i) = 0"
  by (simp_all add: reserved_def)

lemma frames_of_other [simp]: "b \<notin> set (cmd_batches cs) \<Longrightarrow> frames_of (h(b := x)) cs = frames_of h cs"
proof (induction cs)
  case (Cons c cs)
  then show ?case by (cases c) auto
qed simp

lemma frames_of_append_size:
  assumes "distinct (cmd_batches cs)" and "fb_frames x = fb_frames (h b) @ [frame]"
  shows "length (concat (frames_of (h(b := x)) cs)) \<le> length (concat (frames_of h cs)) + length frame"
  using assms
proof (induction cs)
  case (Cons c cs)
  then show ?case
    by (cases c) (auto simp: trans_le_add1 frames_of_other [unfolded fun_upd_def])
qed simp

lemma frames_of_append_last:
  assumes "distinct (cmd_batches cs)" and "cs \<noteq> []" and "List.last cs = CmdFrames b"
    and "fb_frames x = fb_frames (h b) @ [frame]"
  shows "frames_of (h(b := x)) cs = frames_of h cs @ [frame]"
proof -
  from assms(2,3) obtain ds where "cs = ds @ [CmdFrames b]" by (metis append_butlast_last_id)
  with assms(1,4) show ?thesis by simp
qed

lemma fetch_sub_exact [simp]: "b \<le> a \<Longrightarrow> a \<le> MAX_QUEUED_BYTES \<Longrightarrow> fetch_sub a b = a - b"
proof -
  assume a: "b \<le> a" "a \<le> MAX_QUEUED_BYTES"
  then have small: "a < 18446744073709551616" "b < 18446744073709551616" by (simp_all add: MAX_QUEUED_BYTES_def MAX_GRAPHICS_FRAME_SIZE_def)
  then have "a + (18446744073709551616 - b) = (a - b) + 18446744073709551616" using a(1) by simp
  then have "fetch_sub a b = ((a - b) + 18446744073709551616) mod 18446744073709551616"
    using small by (simp only: fetch_sub_def mod_less)
  with small show "fetch_sub a b = a - b" by simp
qed

section \<open>The invariant\<close>

text \<open>The worker will write nothing more: it has failed, it is on its way out, or it was stopped and is not
  in the middle of a frame.\<close>

fun halted_at :: "bool \<Rightarrow> worker \<Rightarrow> bool" where
  "halted_at stopped WaitingForCommand = stopped"
| "halted_at stopped (Received _) = stopped"
| "halted_at stopped (Claiming _) = False"
| "halted_at stopped (NextFrame _) = stopped"
| "halted_at stopped (FrameLoop _ _ _ _) = False"
| "halted_at stopped (Offering _ _ _ _) = False"
| "halted_at stopped (FrameWritten r _ _) = (stopped \<or> isl r)"
| "halted_at stopped (Failing _) = True"
| "halted_at stopped Stopping = True"
| "halted_at stopped Leaving = True"
| "halted_at stopped Exited = True"

abbreviation halted :: "writer_state \<Rightarrow> bool" where
  "halted st \<equiv> halted_at (ws_stopped st) (ws_worker st)"

text \<open>Nothing is lost, the counter is exact, and the open batch is the last command.\<close>

definition intact :: "writer_state \<Rightarrow> bool" where
  "intact st \<longleftrightarrow>
     ws_output st @ outstanding st = concat (ws_accepted st) \<and> ws_queued_bytes st = load st \<and>
     (\<forall>b. ws_pending_batch st = Some b \<longrightarrow> fb_frames (ws_batches st b) \<noteq> [] \<longrightarrow>
        commands st \<noteq> [] \<and> List.last (commands st) = CmdFrames b)"

definition bytes_ok :: "writer_state \<Rightarrow> bool" where
  "bytes_ok st \<longleftrightarrow> prefix (ws_output st) (concat (ws_accepted st)) \<and> load st \<le> ws_queued_bytes st \<and>
     ws_queued_bytes st \<le> MAX_QUEUED_BYTES"

definition names_ok :: "writer_state \<Rightarrow> bool" where
  "names_ok st \<longleftrightarrow> distinct (cmd_batches (commands st)) \<and> (\<forall>b\<in>set (cmd_batches (commands st)). b < ws_next st) \<and>
     (\<forall>f. CmdFlush f \<in> set (commands st) \<longrightarrow> f < ws_next st) \<and> (\<forall>f\<in>set (ws_flushed st). f < ws_next st)"

definition batch_ok :: "frame_batch \<Rightarrow> bool" where
  "batch_ok batch \<longleftrightarrow> fb_bytes batch = length (concat (fb_frames batch)) \<and>
     (fb_frames batch \<noteq> [] \<longrightarrow> fb_bytes batch \<le> max MAX_BATCH_BYTES (length (hd (fb_frames batch))))"

definition batches_ok :: "writer_state \<Rightarrow> bool" where
  "batches_ok st \<longleftrightarrow> (\<forall>b. batch_ok (ws_batches st b)) \<and> length (ws_queue st) \<le> MAX_QUEUED_BATCHES"

definition stop_ok :: "writer_state \<Rightarrow> bool" where
  "stop_ok st \<longleftrightarrow> (ws_worker st = Leaving \<or> ws_worker st = Exited \<or> ws_dropped st \<longrightarrow> ws_stopped st)"

text \<open>While \<open>flush\<close> waits nothing follows its command, and when the command is answered everything is written.\<close>

definition flush_ok :: "writer_state \<Rightarrow> bool" where
  "flush_ok st \<longleftrightarrow> (ws_producer st = FlushStart \<longrightarrow> ws_pending_batch st = None) \<and>
     (\<forall>f. ws_producer st = FlushWait f \<longrightarrow>
        (f \<in> set (ws_flushed st) \<longrightarrow> ws_output st = concat (ws_accepted st)) \<and>
        (\<forall>cs ds. commands st = cs @ CmdFlush f # ds \<longrightarrow> ds = []))"

definition writer_inv :: "writer_state \<Rightarrow> bool" where
  "writer_inv st \<longleftrightarrow> bytes_ok st \<and> names_ok st \<and> batches_ok st \<and> stop_ok st \<and> flush_ok st \<and> (\<not> halted st \<longrightarrow> intact st)"

lemmas inv_defs = writer_inv_def bytes_ok_def names_ok_def batches_ok_def stop_ok_def flush_ok_def

lemma writer_inv_new: "writer_inv writer_new"
  by (simp add: inv_defs batch_ok_def intact_def writer_new_def load_def outstanding_def commands_def empty_batch_def)

subsection \<open>The actions of the user interface\<close>

lemma commands_update [simp]:
  "commands (st\<lparr>ws_producer := p\<rparr>) = commands st" "commands (st\<lparr>ws_batches := h\<rparr>) = commands st"
  "commands (st\<lparr>ws_queued_bytes := n\<rparr>) = commands st" "commands (st\<lparr>ws_accepted := fs\<rparr>) = commands st"
  "commands (st\<lparr>ws_pending_batch := pb\<rparr>) = commands st" "commands (st\<lparr>ws_stopped := b\<rparr>) = commands st"
  "commands (st\<lparr>ws_error := e\<rparr>) = commands st" "commands (st\<lparr>ws_dropped := b\<rparr>) = commands st"
  "commands (st\<lparr>ws_next := i\<rparr>) = commands st" "commands (st\<lparr>ws_output := out\<rparr>) = commands st"
  "commands (st\<lparr>ws_flushed := fl\<rparr>) = commands st"
  by (simp_all add: commands_def)

lemma load_update [simp]:
  "load (st\<lparr>ws_queued_bytes := n\<rparr>) = load st" "load (st\<lparr>ws_accepted := fs\<rparr>) = load st"
  "load (st\<lparr>ws_pending_batch := pb\<rparr>) = load st" "load (st\<lparr>ws_stopped := b\<rparr>) = load st"
  "load (st\<lparr>ws_error := e\<rparr>) = load st" "load (st\<lparr>ws_dropped := b\<rparr>) = load st"
  "load (st\<lparr>ws_next := i\<rparr>) = load st" "load (st\<lparr>ws_output := out\<rparr>) = load st" "load (st\<lparr>ws_flushed := fl\<rparr>) = load st"
  by (simp_all add: load_def)

lemma outstanding_update [simp]:
  "outstanding (st\<lparr>ws_producer := p\<rparr>) = outstanding st"
  "outstanding (st\<lparr>ws_queued_bytes := n\<rparr>) = outstanding st" "outstanding (st\<lparr>ws_accepted := fs\<rparr>) = outstanding st"
  "outstanding (st\<lparr>ws_pending_batch := pb\<rparr>) = outstanding st" "outstanding (st\<lparr>ws_stopped := b\<rparr>) = outstanding st"
  "outstanding (st\<lparr>ws_error := e\<rparr>) = outstanding st" "outstanding (st\<lparr>ws_dropped := b\<rparr>) = outstanding st"
  "outstanding (st\<lparr>ws_next := i\<rparr>) = outstanding st" "outstanding (st\<lparr>ws_output := out\<rparr>) = outstanding st"
  "outstanding (st\<lparr>ws_flushed := fl\<rparr>) = outstanding st"
  by (simp_all add: outstanding_def)

lemma load_producer: "load (st\<lparr>ws_producer := p\<rparr>) + reserved (ws_producer st) = load st + reserved p"
  by (simp add: load_def)

lemma writer_invD:
  assumes "writer_inv st"
  shows "bytes_ok st" "names_ok st" "batches_ok st" "stop_ok st" "flush_ok st" "\<not> halted st \<Longrightarrow> intact st"
  using assms by (simp_all add: writer_inv_def)

lemma between_calls_keeps:
  assumes inv: "writer_inv st" and res: "reserved p = reserved (ws_producer st)"
    and p: "p \<noteq> FlushStart" "\<And>f. p \<noteq> FlushWait f"
  shows "writer_inv (st\<lparr>ws_producer := p\<rparr>)"
proof -
  note old = writer_invD [OF inv]
  have load: "load (st\<lparr>ws_producer := p\<rparr>) = load st" using load_producer [where st = st and p = p] res by simp
  have "intact (st\<lparr>ws_producer := p\<rparr>)" if "intact st" using that load by (simp add: intact_def)
  then show ?thesis using old p load by (simp add: inv_defs)
qed

lemma begin_send_keeps: "writer_inv st \<Longrightarrow> ws_producer st = Returned r \<Longrightarrow> writer_inv (begin_send enc message st)"
  by (auto simp: begin_send_def intro!: between_calls_keeps split: sum.split)

lemma reserve_bytes_keeps:
  assumes inv: "writer_inv st" and p: "ws_producer st = Checked frame"
  shows "writer_inv (reserve_bytes frame st)"
proof -
  let ?t = "st\<lparr>ws_queued_bytes := ws_queued_bytes st + length frame, ws_producer := Reserved frame\<rparr>"
  have refused: "writer_inv (st\<lparr>ws_producer := Returned (Inl ConnectionAborted)\<rparr>)"
    using inv p by (intro between_calls_keeps) simp_all
  have load: "load ?t = load st + length frame" by (simp add: load_def p)
  have "writer_inv ?t" if "ws_queued_bytes st + length frame \<le> MAX_QUEUED_BYTES"
  proof -
    have "intact ?t" if "intact st" using that load by (simp add: intact_def)
    with writer_invD [OF inv] that load show ?thesis by (simp add: inv_defs)
  qed
  with refused show ?thesis by (auto simp: reserve_bytes_def checked_add_def)
qed

lemma batch_ok_append:
  assumes "batch_ok x" and "length frame \<le> MAX_BATCH_BYTES - fb_bytes x" and "fb_frames x \<noteq> []"
  shows "batch_ok \<lparr>fb_frames = fb_frames x @ [frame], fb_bytes = fb_bytes x + length frame\<rparr>"
  using assms by (auto simp: batch_ok_def hd_append max_def split: if_splits)

lemma append_to_pending_keeps:
  assumes inv: "writer_inv st" and p: "ws_producer st = Reserved frame"
  shows "writer_inv (append_to_pending frame st)"
proof -
  note old = writer_invD [OF inv]
  have needs: "writer_inv (st\<lparr>ws_producer := NeedsBatch frame\<rparr>)"
    using inv p by (intro between_calls_keeps) simp_all
  have "writer_inv (append_to_pending frame st)"
    if pending: "ws_pending_batch st = Some b" and opened: "fb_frames (ws_batches st b) \<noteq> []"
      and fits: "length frame \<le> MAX_BATCH_BYTES - fb_bytes (ws_batches st b)" for b
  proof -
    let ?x = "\<lparr>fb_frames = fb_frames (ws_batches st b) @ [frame], fb_bytes = fb_bytes (ws_batches st b) + length frame\<rparr>"
    let ?t = "st\<lparr>ws_batches := (ws_batches st)(b := ?x), ws_accepted := ws_accepted st @ [frame],
        ws_producer := Returned (Inr ())\<rparr>"
    have t: "append_to_pending frame st = ?t" using pending opened fits by (simp add: append_to_pending_def Let_def)
    have names: "distinct (cmd_batches (commands st))" using old(2) by (simp add: names_ok_def)
    have load: "load ?t \<le> load st"
      using frames_of_append_size [OF names, of ?x "ws_batches st" b frame] by (simp add: load_def p)
    have "batches_ok ?t"
      using old(3) batch_ok_append [OF _ fits opened] by (simp add: batches_ok_def)
    moreover have "intact ?t" if ok: "intact st"
    proof -
      have last: "commands st \<noteq> []" "List.last (commands st) = CmdFrames b"
        using ok pending opened by (auto simp: intact_def)
      have frames: "frames_of ((ws_batches st)(b := ?x)) (commands st) = frames_of (ws_batches st) (commands st) @ [frame]"
        by (rule frames_of_append_last [OF names last]) simp
      have "load ?t = load st" by (simp add: load_def p frames del: fun_upd_apply)
      moreover have "outstanding ?t = outstanding st @ frame" by (simp add: outstanding_def frames del: fun_upd_apply)
      ultimately show ?thesis using ok last pending by (simp add: intact_def flip: append_assoc)
    qed
    ultimately show ?thesis using old load unfolding t
      by (simp add: writer_inv_def bytes_ok_def names_ok_def stop_ok_def flush_ok_def)
  qed
  with needs show ?thesis by (auto simp: append_to_pending_def Let_def split: option.split)
qed

lemma try_send_SomeD:
  assumes "try_send c st = Inr t" and "length (ws_queue st) \<le> MAX_QUEUED_BATCHES"
  shows "t = st\<lparr>ws_queue := ws_queue st @ [c], ws_next := Suc (ws_next st)\<rparr>" "length (ws_queue t) \<le> MAX_QUEUED_BATCHES"
    "commands t = commands st @ [c]"
  using assms by (auto simp: try_send_def commands_def split: if_splits)

lemma push_batch_keeps:
  assumes inv: "writer_inv st" and p: "ws_producer st = NeedsBatch frame"
  shows "writer_inv (push_batch frame st)"
proof (cases "try_send (CmdFrames (ws_next st)) st")
  case (Inl e)
  have "writer_inv (st\<lparr>ws_producer := Refused frame e\<rparr>)" using inv p by (intro between_calls_keeps) simp_all
  with Inl show ?thesis by (simp add: push_batch_def)
next
  case (Inr st')
  note old = writer_invD [OF inv]
  let ?b = "ws_next st"
  let ?t = "push_batch frame st"
  note sent = try_send_SomeD [OF Inr] 
  have len: "length (ws_queue st) \<le> MAX_QUEUED_BATCHES" using old(3) by (simp add: batches_ok_def)
  have t: "?t = st\<lparr>ws_queue := ws_queue st @ [CmdFrames ?b], ws_next := Suc ?b,
      ws_batches := (ws_batches st)(?b := \<lparr>fb_frames = [frame], fb_bytes = length frame\<rparr>),
      ws_pending_batch := Some ?b, ws_accepted := ws_accepted st @ [frame], ws_producer := Returned (Inr ())\<rparr>"
    using Inr sent(1) [OF len] by (simp add: push_batch_def Let_def)
  have cmds: "commands ?t = commands st @ [CmdFrames ?b]" by (simp add: t commands_def)
  have fresh: "?b \<notin> set (cmd_batches (commands st))" using old(2) by (auto simp: names_ok_def)
  have frames: "frames_of (ws_batches ?t) (commands ?t) = frames_of (ws_batches st) (commands st) @ [frame]"
    using fresh unfolding cmds by (simp add: t)
  have load: "load ?t = load st" unfolding load_def frames by (simp add: t p)
  have out: "outstanding ?t = outstanding st @ frame" unfolding outstanding_def frames by (simp add: t)
  have "bytes_ok ?t" using old(1) load by (simp add: bytes_ok_def) (simp add: t)
  moreover have "names_ok ?t" using old(2) fresh unfolding names_ok_def cmds by (auto simp: t)
  moreover have "batches_ok ?t"
    using old(3) sent(2) [OF len] sent(1) [OF len] by (auto simp: batches_ok_def t batch_ok_def)
  moreover have "stop_ok ?t" "flush_ok ?t" using old(4) by (simp_all add: stop_ok_def flush_ok_def t)
  moreover have "intact ?t" if "intact st"
    using that unfolding intact_def load out cmds by (simp add: t flip: append_assoc)
  moreover have "halted ?t = halted st" by (simp add: t)
  ultimately show ?thesis using old(6) by (simp add: writer_inv_def)
qed

lemma release_bytes_keeps:
  assumes inv: "writer_inv st" and p: "ws_producer st = Refused frame e"
  shows "writer_inv (release_bytes frame e st)"
proof -
  let ?t = "release_bytes frame e st"
  note old = writer_invD [OF inv]
  have room: "length frame \<le> load st" by (simp add: load_def p)
  with old(1) have bytes: "ws_queued_bytes ?t = ws_queued_bytes st - length frame"
    by (simp add: bytes_ok_def release_bytes_def)
  have load: "load ?t = load st - length frame" by (simp add: load_def release_bytes_def p)
  have "bytes_ok ?t" using old(1) bytes load unfolding bytes_ok_def by (auto simp: release_bytes_def)
  moreover have "intact ?t" if "intact st"
    using that bytes load by (simp add: intact_def) (simp add: release_bytes_def)
  ultimately show ?thesis using old
    by (simp add: writer_inv_def) (simp add: release_bytes_def names_ok_def batches_ok_def stop_ok_def flush_ok_def)
qed

lemma begin_flush_keeps:
  assumes inv: "writer_inv st" and p: "ws_producer st = Returned r"
  shows "writer_inv (begin_flush st)"
proof -
  note old = writer_invD [OF inv]
  have load: "load (begin_flush st) = load st" by (simp add: load_def begin_flush_def p)
  have "intact (begin_flush st)" if "intact st" using that load by (simp add: intact_def) (simp add: begin_flush_def)
  then show ?thesis using old load by (simp add: inv_defs) (simp add: begin_flush_def)
qed

lemma push_flush_keeps:
  assumes inv: "writer_inv st" and p: "ws_producer st = FlushStart"
  shows "writer_inv (push_flush st)"
proof (cases "try_send (CmdFlush (ws_next st)) st")
  case (Inl e)
  have "writer_inv (st\<lparr>ws_producer := Returned (Inl ConnectionAborted)\<rparr>)" using inv p by (intro between_calls_keeps) simp_all
  with Inl show ?thesis by (simp add: push_flush_def)
next
  case (Inr st')
  note old = writer_invD [OF inv]
  let ?f = "ws_next st"
  let ?t = "push_flush st"
  have len: "length (ws_queue st) \<le> MAX_QUEUED_BATCHES" using old(3) by (simp add: batches_ok_def)
  note sent = try_send_SomeD [OF Inr len]
  have t: "?t = st\<lparr>ws_queue := ws_queue st @ [CmdFlush ?f], ws_next := Suc ?f, ws_producer := FlushWait ?f\<rparr>"
    using Inr sent(1) by (simp add: push_flush_def)
  have cmds: "commands ?t = commands st @ [CmdFlush ?f]" by (simp add: t commands_def)
  have load: "load ?t = load st" unfolding load_def cmds by (simp add: t p)
  have out: "outstanding ?t = outstanding st" unfolding outstanding_def cmds by (simp add: t)
  have none: "ws_pending_batch st = None" using old(5) p by (simp add: flush_ok_def)
  have new: "CmdFlush ?f \<notin> set (commands st)" "?f \<notin> set (ws_flushed st)" using old(2) by (auto simp: names_ok_def)
  have "bytes_ok ?t" using old(1) load by (simp add: bytes_ok_def) (simp add: t)
  moreover have "names_ok ?t" using old(2) unfolding names_ok_def cmds by (auto simp: t)
  moreover have "batches_ok ?t" using old(3) sent(2) sent(1) by (auto simp: batches_ok_def t)
  moreover have "stop_ok ?t" using old(4) by (simp add: stop_ok_def t)
  moreover have "flush_ok ?t"
    using new unfolding flush_ok_def cmds by (auto simp: t append_eq_append_conv2 append_eq_Cons_conv Cons_eq_append_conv)
  moreover have "intact ?t" if "intact st" using that unfolding intact_def load out cmds by (simp add: t none)
  moreover have "halted ?t = halted st" by (simp add: t)
  ultimately show ?thesis using old(6) by (simp add: writer_inv_def)
qed

lemma producer_turn_keeps: "writer_inv st \<Longrightarrow> writer_inv (producer_turn st)"
  by (cases "ws_producer st")
    (simp_all add: producer_turn_def reserve_bytes_keeps append_to_pending_keeps push_batch_keeps release_bytes_keeps push_flush_keeps)

lemma halted_stopped: "halted_at False w \<Longrightarrow> halted_at True w"
  by (cases w) auto

lemma stop_keeps:
  assumes inv: "writer_inv st"
  shows "writer_inv (disconnect st)" "writer_inv (drop_transport st)"
proof -
  have "\<not> halted_at True (ws_worker st) \<Longrightarrow> \<not> halted st" using halted_stopped by (cases "ws_stopped st") auto
  moreover have "intact st \<Longrightarrow> intact (disconnect st)" "intact st \<Longrightarrow> intact (drop_transport st)"
    by (simp_all add: intact_def disconnect_def drop_transport_def)
  ultimately show "writer_inv (disconnect st)" "writer_inv (drop_transport st)"
    using writer_invD [OF inv] by (simp_all add: inv_defs) (simp_all add: disconnect_def drop_transport_def)
qed

lemma take_error_keeps: "writer_inv st \<Longrightarrow> writer_inv (snd (take_error st))"
  by (simp add: inv_defs intact_def take_error_def)

subsection \<open>The actions of the worker\<close>

text \<open>The worker drops what it holds, or what is queued, and halts.\<close>

lemma cmd_batches_drop:
  "set (cmd_batches (drop n cs)) \<subseteq> set (cmd_batches cs)" "distinct (cmd_batches cs) \<Longrightarrow> distinct (cmd_batches (drop n cs))"
  using cmd_batches_simps(4) [of "take n cs" "drop n cs"] by (auto simp del: cmd_batches_simps(4))

lemma drop_tail: "drop n xs = cs @ c # ds \<Longrightarrow> \<exists>bs. xs = bs @ c # ds"
  by (metis append.assoc append_take_drop_id)

lemma halting_keeps:
  assumes inv: "writer_inv st" and w: "halted_at stopped w" "worker_commands w @ queue = drop n (commands st)"
    and size: "held_size w + length (concat (frames_of (ws_batches st) (drop n (commands st)))) + reserved (ws_producer st) \<le> load st"
    and stop: "ws_stopped st \<longrightarrow> stopped" "w = Leaving \<or> w = Exited \<longrightarrow> stopped" and q: "length queue \<le> length (ws_queue st)"
  shows "writer_inv (st\<lparr>ws_queue := queue, ws_stopped := stopped, ws_error := e, ws_worker := w\<rparr>)" (is "writer_inv ?t")
proof -
  note old = writer_invD [OF inv]
  have cmds: "commands ?t = drop n (commands st)" using w(2) by (simp add: commands_def)
  have load: "load ?t \<le> load st" using size unfolding load_def cmds by simp
  have "names_ok ?t" using old(2) cmd_batches_drop [where n = n and cs = "commands st"] set_drop_subset [of n "commands st"]
    unfolding names_ok_def cmds by auto
  moreover have "flush_ok ?t" using old(5) unfolding flush_ok_def cmds by (auto dest!: drop_tail)
  ultimately show ?thesis using old load w(1) stop q by (auto simp: inv_defs)
qed

text \<open>The worker goes on with what it holds and with the same commands.\<close>

lemma moving_keeps:
  assumes inv: "writer_inv st" and cmds: "worker_commands w @ queue = commands st"
    and held: "held w = held (ws_worker st)" "held_size w = held_size (ws_worker st)"
    and w: "halted st \<Longrightarrow> halted_at (ws_stopped st) w" "w \<noteq> Leaving" "w \<noteq> Exited" and q: "length queue \<le> length (ws_queue st)"
  shows "writer_inv (st\<lparr>ws_queue := queue, ws_worker := w\<rparr>)" (is "writer_inv ?t")
proof -
  note old = writer_invD [OF inv]
  have c: "commands ?t = commands st" using cmds by (simp add: commands_def)
  have load: "load ?t = load st" unfolding load_def c by (simp add: held)
  have out: "outstanding ?t = outstanding st" unfolding outstanding_def c by (simp add: held)
  have "intact ?t" if "intact st" using that unfolding intact_def load out c by simp
  moreover have "names_ok ?t" "flush_ok ?t" "bytes_ok ?t"
    using old(1,2,5) unfolding names_ok_def flush_ok_def bytes_ok_def c load by simp_all
  ultimately show ?thesis using old(3,4,6) w q by (auto simp: writer_inv_def batches_ok_def stop_ok_def)
qed

lemma flush_answered_keeps:
  assumes inv: "writer_inv st" and w: "ws_worker st = Received (CmdFlush f)" and go: "\<not> ws_stopped st"
  shows "writer_inv (st\<lparr>ws_flushed := f # ws_flushed st, ws_worker := WaitingForCommand\<rparr>)" (is "writer_inv ?t")
proof -
  note old = writer_invD [OF inv]
  have ok: "intact st" using old(6) w go by simp
  have c: "commands st = CmdFlush f # ws_queue st" "commands ?t = ws_queue st" by (simp_all add: commands_def w)
  have load: "load ?t = load st" unfolding load_def c by (simp add: w)
  have out: "outstanding ?t = outstanding st" unfolding outstanding_def c by (simp add: w)
  have "intact ?t" using ok unfolding intact_def load out c by (auto split: if_splits)
  moreover have "names_ok ?t" using old(2) unfolding names_ok_def c by auto
  moreover have "flush_ok ?t"
  proof -
    have "ws_output st = concat (ws_accepted st)" if "ws_producer st = FlushWait f"
    proof -
      have "ws_queue st = []" using old(5) that unfolding flush_ok_def c(1) by (metis append_Nil)
      then have "outstanding st = []" by (simp add: outstanding_def c w)
      with ok show ?thesis by (simp add: intact_def)
    qed
    then show ?thesis using old(5) unfolding flush_ok_def c by (auto simp: Cons_eq_append_conv)
  qed
  moreover have "bytes_ok ?t" using old(1) unfolding bytes_ok_def load by simp
  ultimately show ?thesis using old(3,4) by (simp add: writer_inv_def batches_ok_def stop_ok_def)
qed

lemma claim_batch_keeps:
  assumes inv: "writer_inv st" and w: "ws_worker st = Claiming b"
  shows "writer_inv (claim_batch b st)" (is "writer_inv ?t")
proof -
  note old = writer_invD [OF inv]
  have ok: "intact st" using old(6) w by simp
  have c: "commands st = CmdFrames b # ws_queue st" "commands ?t = ws_queue st" by (simp_all add: commands_def w claim_batch_def)
  have fresh: "b \<notin> set (cmd_batches (ws_queue st))" using old(2) by (simp add: names_ok_def c)
  have load: "load ?t = load st" using fresh unfolding load_def c by (simp add: w claim_batch_def)
  have out: "outstanding ?t = outstanding st" using fresh unfolding outstanding_def c by (simp add: w claim_batch_def)
  have "intact ?t" using ok unfolding intact_def load out c
    by (auto simp: claim_batch_def empty_batch_def split: if_splits)
  moreover have "names_ok ?t" using old(2) unfolding names_ok_def c by (simp add: claim_batch_def)
  moreover have "flush_ok ?t" using old(5) unfolding flush_ok_def c by (auto simp: claim_batch_def)
  moreover have "bytes_ok ?t" using old(1) unfolding bytes_ok_def load by (simp add: claim_batch_def)
  moreover have "batch_ok empty_batch" by (simp add: batch_ok_def empty_batch_def)
  then have "batches_ok ?t" using old(3) by (simp add: batches_ok_def claim_batch_def)
  moreover have "stop_ok ?t" using old(4) by (simp add: stop_ok_def claim_batch_def)
  ultimately show ?thesis by (simp add: writer_inv_def)
qed

lemma bytes_taken_keeps:
  assumes inv: "writer_inv st" and w: "ws_worker st = Offering (written @ rest) deadline frame later"
  shows "writer_inv (st\<lparr>ws_output := ws_output st @ written, ws_worker := FrameLoop rest deadline' frame later\<rparr>)"
    (is "writer_inv ?t")
proof -
  note old = writer_invD [OF inv]
  have ok: "intact st" using old(6) w by simp
  have c: "commands ?t = commands st" by (simp add: commands_def w)
  have load: "load ?t = load st" unfolding load_def c by (simp add: w)
  have out: "outstanding st = written @ outstanding ?t" unfolding outstanding_def c by (simp add: w)
  have all: "ws_output st @ written @ outstanding ?t = concat (ws_accepted st)" using ok unfolding intact_def out by simp
  have "intact ?t" using ok all unfolding intact_def load c by simp
  moreover have "flush_ok ?t" using old(5) all unfolding flush_ok_def c by auto
  moreover have "prefix (ws_output st @ written) (concat (ws_accepted st))"
    unfolding all [symmetric] by (simp add: prefixI)
  then have "bytes_ok ?t" using old(1) unfolding bytes_ok_def load by simp
  moreover have "names_ok ?t" using old(2) unfolding names_ok_def c by simp
  ultimately show ?thesis using old(3,4) by (simp add: writer_inv_def batches_ok_def stop_ok_def)
qed

lemma frame_written_keeps:
  assumes inv: "writer_inv st" and w: "ws_worker st = FrameWritten r frame later"
  shows "writer_inv (st\<lparr>ws_queued_bytes := fetch_sub (ws_queued_bytes st) (length frame),
    ws_worker := (case r of Inr _ \<Rightarrow> NextFrame later | Inl e \<Rightarrow> Failing e)\<rparr>)" (is "writer_inv ?t")
proof -
  note old = writer_invD [OF inv]
  have c: "commands ?t = commands st" by (simp add: commands_def w split: sum.split)
  have room: "length frame \<le> load st" by (simp add: load_def w)
  with old(1) have bytes: "ws_queued_bytes ?t = ws_queued_bytes st - length frame" by (simp add: bytes_ok_def)
  have load: "load ?t \<le> load st - length frame" "isl r \<or> load ?t = load st - length frame"
    unfolding load_def c by (simp_all add: w split: sum.split)
  have "intact ?t" if "intact st" "\<not> isl r"
    using that load bytes unfolding intact_def outstanding_def c by (auto simp: w split: sum.splits)
  moreover have "load ?t \<le> ws_queued_bytes st - length frame"
    using old(1) load(1) by (meson bytes_ok_def diff_le_mono le_trans)
  then have "bytes_ok ?t" using old(1) unfolding bytes_ok_def bytes by (auto intro: le_trans [OF diff_le_self])
  moreover have "names_ok ?t" "flush_ok ?t" using old(2,5) unfolding names_ok_def flush_ok_def c by simp_all
  ultimately show ?thesis using old(3,4,6) w
    by (cases r) (simp_all add: writer_inv_def batches_ok_def stop_ok_def)
qed

lemma offer_frame_keeps:
  assumes inv: "writer_inv st" and w: "ws_worker st = Offering rest deadline frame later" and ok: "takes_what_is_offered result st"
  shows "writer_inv (offer_frame result now rest deadline frame later st)"
proof (cases "frame_iteration result now rest deadline")
  case (NextTurn written rest' deadline')
  have "ws_worker st = Offering (written @ rest') deadline frame later" using turn_keeps_bytes [OF NextTurn] w by simp
  from bytes_taken_keeps [OF inv this] show ?thesis by (simp add: offer_frame_def NextTurn)
next
  case (GiveUp e)
  have "writer_inv (st\<lparr>ws_queue := ws_queue st, ws_stopped := ws_stopped st, ws_error := ws_error st, ws_worker := FrameWritten (Inl e) frame later\<rparr>)"
    by (rule halting_keeps [OF inv, where n = 0]) (simp_all add: commands_def load_def w)
  with GiveUp show ?thesis by (simp add: offer_frame_def)
next
  case TurnPanic
  with ok w show ?thesis
    by (auto simp: takes_what_is_offered_def frame_iteration_def poll_turn_def split: write_result.splits io_kind.splits if_splits)
qed

lemma halts:
  assumes "writer_inv st" and "halted_at (ws_stopped st) w" and "worker_commands w = []"
    and "held_size w \<le> held_size (ws_worker st)" and "w = Leaving \<or> w = Exited \<longrightarrow> ws_stopped st"
  shows "writer_inv (st\<lparr>ws_error := e, ws_worker := w\<rparr>)"
proof -
  let ?n = "length (worker_commands (ws_worker st))"
  have "writer_inv (st\<lparr>ws_queue := ws_queue st, ws_stopped := ws_stopped st, ws_error := e, ws_worker := w\<rparr>)"
    by (rule halting_keeps [OF assms(1), where n = ?n]) (use assms in \<open>simp_all add: commands_def load_def\<close>)
  then show ?thesis by simp
qed

lemma worker_turn_keeps:
  assumes inv: "writer_inv st" and ok: "takes_what_is_offered result st"
  shows "writer_inv (worker_turn result now st)"
proof (cases "ws_worker st")
  case WaitingForCommand
  have "writer_inv (st\<lparr>ws_error := ws_error st, ws_worker := Leaving\<rparr>)" if "ws_dropped st"
    using that writer_invD(4) [OF inv] by (intro halts [OF inv]) (simp_all add: stop_ok_def)
  moreover have "writer_inv (st\<lparr>ws_queue := q, ws_worker := Received c\<rparr>)" if "ws_queue st = c # q" for c q
    using WaitingForCommand that by (intro moving_keeps [OF inv]) (simp_all add: commands_def)
  ultimately show ?thesis using inv WaitingForCommand by (simp add: worker_turn_def split: list.split)
next
  case (Received c)
  have "writer_inv (st\<lparr>ws_error := ws_error st, ws_worker := Leaving\<rparr>)" if "ws_stopped st"
    using that by (intro halts [OF inv]) simp_all
  moreover have "writer_inv (st\<lparr>ws_queue := ws_queue st, ws_worker := Claiming b\<rparr>)" if "c = CmdFrames b" "\<not> ws_stopped st" for b
    using Received that by (intro moving_keeps [OF inv]) (simp_all add: commands_def)
  ultimately show ?thesis using inv Received flush_answered_keeps [OF inv]
    by (simp add: worker_turn_def split: writer_command.split)
next
  case (NextFrame frames)
  have "writer_inv (st\<lparr>ws_error := ws_error st, ws_worker := WaitingForCommand\<rparr>)" if "ws_stopped st"
    using that by (intro halts [OF inv]) simp_all
  moreover have "writer_inv (st\<lparr>ws_queue := ws_queue st, ws_worker := WaitingForCommand\<rparr>)" if "frames = []"
    using NextFrame that by (intro moving_keeps [OF inv]) (simp_all add: commands_def)
  moreover have "writer_inv (st\<lparr>ws_queue := ws_queue st, ws_worker := FrameLoop f (now + WRITE_TIMEOUT) f later\<rparr>)"
    if "frames = f # later" "\<not> ws_stopped st" for f later
    using NextFrame that by (intro moving_keeps [OF inv]) (simp_all add: commands_def)
  ultimately show ?thesis using inv NextFrame by (simp add: worker_turn_def split: list.split)
next
  case (FrameLoop rest deadline frame later)
  have "writer_inv (st\<lparr>ws_error := ws_error st, ws_worker := FrameWritten (Inr ()) frame later\<rparr>)" if "ws_stopped st"
    using FrameLoop that by (intro halts [OF inv]) simp_all
  moreover have "writer_inv (st\<lparr>ws_queue := ws_queue st, ws_worker := FrameWritten (Inr ()) frame later\<rparr>)" if "rest = []"
    using FrameLoop that by (intro moving_keeps [OF inv]) (simp_all add: commands_def)
  moreover have "writer_inv (st\<lparr>ws_queue := ws_queue st, ws_worker := Offering rest deadline frame later\<rparr>)"
    using FrameLoop by (intro moving_keeps [OF inv]) (simp_all add: commands_def)
  ultimately show ?thesis using inv FrameLoop by (simp add: worker_turn_def)
next
  case (Failing e)
  have "writer_inv (st\<lparr>ws_error := Some e, ws_worker := Stopping\<rparr>)" by (intro halts [OF inv]) simp_all
  then show ?thesis by (simp add: worker_turn_def Failing)
next
  case Stopping
  have "writer_inv (st\<lparr>ws_queue := ws_queue st, ws_stopped := True, ws_error := ws_error st, ws_worker := Leaving\<rparr>)"
    by (rule halting_keeps [OF inv, where n = 0]) (simp_all add: commands_def load_def Stopping)
  then show ?thesis by (simp add: worker_turn_def Stopping)
next
  case Leaving
  have "writer_inv (st\<lparr>ws_queue := [], ws_stopped := ws_stopped st, ws_error := ws_error st, ws_worker := Exited\<rparr>)"
    by (rule halting_keeps [OF inv, where n = "length (commands st)"])
      (use writer_invD(4) [OF inv] in \<open>simp_all add: load_def Leaving stop_ok_def\<close>)
  then show ?thesis by (simp add: worker_turn_def Leaving)
qed (use inv ok claim_batch_keeps offer_frame_keeps frame_written_keeps in \<open>simp_all add: worker_turn_def\<close>)

lemma writer_step_keeps: "writer_inv st \<Longrightarrow> writer_step enc st t \<Longrightarrow> writer_inv t"
  by (erule writer_step.cases)
    (auto intro: begin_send_keeps begin_flush_keeps producer_turn_keeps between_calls_keeps take_error_keeps worker_turn_keeps
      simp: stop_keeps)

interpretation writer_run: kept_by_steps "writer_step enc" writer_inv
  by unfold_locales (rule writer_step_keeps)

subsection \<open>A call without interruption\<close>

lemma send_is_run:
  assumes "ws_producer st = Returned r" and "\<not> ws_dropped st"
  shows "(writer_step enc)\<^sup>*\<^sup>* st (send enc message st)"
proof -
  have turn: "(writer_step enc)\<^sup>*\<^sup>* st (producer_turn u)" if "(writer_step enc)\<^sup>*\<^sup>* st u" for u
    using that producer_acts by (rule rtranclp.rtrancl_into_rtrancl)
  have "(writer_step enc)\<^sup>*\<^sup>* st (begin_send enc message st)" using send_called [OF assms] by (rule r_into_rtranclp)
  then show ?thesis unfolding send_def by (intro turn)
qed

text \<open>Four turns are enough for \<open>send\<close> to return.\<close>

lemma send_returns: "\<exists>r. ws_producer (send enc message st) = Returned r"
proof -
  have late: "\<exists>r. ws_producer (producer_turn (producer_turn u)) = Returned r" if "ws_producer u = NeedsBatch f" for u f
    using that by (auto simp: producer_turn_def push_batch_def try_send_def Let_def release_bytes_def)
  have same: "producer_turn u = u" if "ws_producer u = Returned r" for u r using that by (simp add: producer_turn_def)
  have "\<exists>r. ws_producer (producer_turn (producer_turn (producer_turn u))) = Returned r" if "ws_producer u = Reserved f" for u f
  proof -
    have "(\<exists>r. ws_producer (producer_turn u) = Returned r) \<or> ws_producer (producer_turn u) = NeedsBatch f"
      using that by (auto simp: producer_turn_def append_to_pending_def Let_def split: option.split)
    with late same show ?thesis by metis
  qed
  note reserved = this
  have "\<exists>r. ws_producer (producer_turn (producer_turn (producer_turn (producer_turn u)))) = Returned r"
    if "(\<exists>r. ws_producer u = Returned r) \<or> ws_producer u = Checked f" for u f
  proof -
    have "(\<exists>r. ws_producer (producer_turn u) = Returned r) \<or> ws_producer (producer_turn u) = Reserved f"
      using that by (auto simp: producer_turn_def reserve_bytes_def split: option.split)
    with reserved same show ?thesis by metis
  qed
  moreover have "(\<exists>r. ws_producer (begin_send enc message st) = Returned r) \<or> (\<exists>f. ws_producer (begin_send enc message st) = Checked f)"
    by (auto simp: begin_send_def split: sum.split)
  ultimately show ?thesis unfolding send_def by blast
qed

section \<open>What the peer receives\<close>

text \<open>
  C35. However the threads interleave, the socket has taken a prefix of the accepted frames in
  the order of acceptance, and at most \<open>MAX_QUEUED_BYTES\<close> wait.  As long as the worker
  has not halted nothing is lost: what was taken and what is outstanding together are the
  accepted frames, and the byte counter is exactly what is outstanding and reserved.  When a waiting
  \<open>flush\<close> has been answered, every accepted frame has been taken in full.
\<close>

theorem writer_delivers_in_order:
  assumes "(writer_step enc)\<^sup>*\<^sup>* writer_new st"
  shows "prefix (ws_output st) (concat (ws_accepted st)) \<and> ws_queued_bytes st \<le> MAX_QUEUED_BYTES \<and>
    (\<not> halted st \<longrightarrow> ws_output st @ outstanding st = concat (ws_accepted st) \<and> ws_queued_bytes st = load st) \<and>
    (\<forall>f. ws_producer st = FlushWait f \<longrightarrow> f \<in> set (ws_flushed st) \<longrightarrow> ws_output st = concat (ws_accepted st))"
proof -
  note inv = writer_invD [OF writer_run.run_keeps [OF assms writer_inv_new]]
  show ?thesis using inv(1,5,6) by (simp add: bytes_ok_def flush_ok_def intact_def)
qed

text \<open>One message sent, and the worker half-way through it.\<close>

definition ex_enc :: "byte \<Rightarrow> string + byte list" where
  "ex_enc b = Inr [b]"

definition ex_sent :: writer_state where
  "ex_sent = send ex_enc 7 writer_new"

definition ex_offering :: writer_state where
  "ex_offering = ex_sent\<lparr>ws_queue := [], ws_batches := (ws_batches ex_sent)(0 := empty_batch),
     ws_worker := Offering [1, 0, 0, 0, 7] 5000 [1, 0, 0, 0, 7] []\<rparr>"

definition ex_writer :: writer_state where
  "ex_writer = worker_turn (Wrote 3) 1 ex_offering"

lemma ex_frame_bytes: "write_message ex_enc [] 7 = Inr [1, 0, 0, 0, 7]"
proof -
  have four: "(4 :: nat) = Suc (Suc (Suc (Suc 0)))" by simp
  have "to_le 4 1 = [1, 0, 0, 0]" unfolding four by simp
  then show ?thesis by (simp add: write_message_def ex_enc_def u32_max_def)
qed

lemma ex_sent_eq: "ex_sent = writer_new\<lparr>ws_queue := [CmdFrames 0], ws_next := 1,
    ws_batches := (\<lambda>_. empty_batch)(0 := \<lparr>fb_frames = [[1, 0, 0, 0, 7]], fb_bytes = 5\<rparr>),
    ws_pending_batch := Some 0, ws_queued_bytes := 5, ws_accepted := [[1, 0, 0, 0, 7]]\<rparr>"
  by (simp add: ex_sent_def send_def producer_turn_def begin_send_def ex_frame_bytes reserve_bytes_def
      append_to_pending_def push_batch_def try_send_def writer_new_def machine_simps MAX_QUEUED_BYTES_def
      MAX_GRAPHICS_FRAME_SIZE_def MAX_QUEUED_BATCHES_def Let_def) (simp add: eval_nat_numeral)

lemma ex_offering_turns:
  "ex_offering = (let w = worker_turn (WriteFailed WouldBlock) 0 in w (w (w (w (w ex_sent)))))"
  by (simp add: ex_offering_def ex_sent_eq worker_turn_def claim_batch_def writer_new_def WRITE_TIMEOUT_def)

lemma ex_writer_run: "(writer_step ex_enc)\<^sup>*\<^sup>* writer_new ex_writer"
proof -
  have turn: "(writer_step ex_enc)\<^sup>*\<^sup>* writer_new (worker_turn r now u)"
    if "(writer_step ex_enc)\<^sup>*\<^sup>* writer_new u" "takes_what_is_offered r u" for r now u
    using that worker_acts by (meson rtranclp.rtrancl_into_rtrancl)
  have blocked: "takes_what_is_offered (WriteFailed e) u" for e u by (simp add: takes_what_is_offered_def)
  have "(writer_step ex_enc)\<^sup>*\<^sup>* writer_new ex_sent"
    unfolding ex_sent_def by (rule send_is_run) (simp_all add: writer_new_def)
  then have "(writer_step ex_enc)\<^sup>*\<^sup>* writer_new ex_offering"
    unfolding ex_offering_turns Let_def by (intro turn blocked)
  then show ?thesis
    unfolding ex_writer_def by (rule turn) (simp add: takes_what_is_offered_def ex_offering_def)
qed

theorem writer_delivers_in_order_witness:
  "ws_output ex_writer = [1, 0, 0] \<and> outstanding ex_writer = [0, 7] \<and> ws_queued_bytes ex_writer = load ex_writer"
proof -
  have state: "ws_output ex_writer = [1, 0, 0]" "ws_accepted ex_writer = [[1, 0, 0, 0, 7]]" "\<not> halted ex_writer"
    by (simp_all add: ex_writer_def worker_turn_def offer_frame_def frame_iteration_def ex_offering_def ex_sent_eq writer_new_def)
  from writer_delivers_in_order [OF ex_writer_run] state show ?thesis by simp
qed

end
