(* ===== verification/Endpoints.thy ===== *)
theory Endpoints
  imports EndpointRegistry EndpointWriter
begin

section \<open>The registry over native writers\<close>

text \<open>
  The two halves of an endpoint put together: \<open>impl EndpointTransport for NativeEndpointTransport\<close>
  of \<open>src/src/client/endpoint/writer.rs\<close> gives the registry of \<open>registry.rs\<close> its transports.
  A call of the registry runs with no action of the worker in between, so that a \<open>flush\<close> whose
  command was queued times out; what happens when the worker does act is the matter of
  \<open>EndpointWriter\<close>.  The text of an error of the operating system is an argument.
\<close>

definition writer_error :: "(nat \<Rightarrow> string) \<Rightarrow> io_error \<Rightarrow> endpoint_error" where
  "writer_error os_text e =
     (case e of
        BrokenPipe \<Rightarrow> \<lparr>ee_kind = BrokenPipeKind, ee_message = ''endpoint writer stopped''\<rparr>
      | ConnectionAborted \<Rightarrow> \<lparr>ee_kind = ConnectionAbortedKind, ee_message = ''endpoint output queue is full''\<rparr>
      | InvalidData s \<Rightarrow> \<lparr>ee_kind = InvalidDataKind, ee_message = s\<rparr>
      | TimedOut \<Rightarrow> \<lparr>ee_kind = TimedOutKind, ee_message = ''endpoint write timed out''\<rparr>
      | StreamError n \<Rightarrow> \<lparr>ee_kind = OsKind n, ee_message = os_text n\<rparr>)"

definition writer_send ::
    "(client_message \<Rightarrow> string + byte list) \<Rightarrow> (nat \<Rightarrow> string) \<Rightarrow> client_message \<Rightarrow> writer_state \<Rightarrow> (endpoint_error + unit) \<times> writer_state" where
  "writer_send enc os_text message st =
     (let st = send enc message st in
      (case ws_producer st of Returned (Inl e) \<Rightarrow> Inl (writer_error os_text e) | _ \<Rightarrow> Inr (), st))"

definition writer_flush :: "nat \<Rightarrow> writer_state \<Rightarrow> (endpoint_error + unit) \<times> writer_state" where
  "writer_flush deadline st =
     (let st = push_flush (begin_flush st) in
      case ws_producer st of
        FlushWait _ \<Rightarrow> (Inl \<lparr>ee_kind = TimedOutKind, ee_message = ''endpoint flush timed out''\<rparr>,
                        st\<lparr>ws_producer := Returned (Inl TimedOut)\<rparr>)
      | _ \<Rightarrow> (Inl \<lparr>ee_kind = ConnectionAbortedKind, ee_message = ''endpoint output queue is full''\<rparr>, st))"

definition writer_transport :: "(client_message \<Rightarrow> string + byte list) \<Rightarrow> (nat \<Rightarrow> string) \<Rightarrow> writer_state transport_ops" where
  "writer_transport enc os_text =
     \<lparr>tr_send = writer_send enc os_text, tr_disconnect = disconnect, tr_flush = writer_flush,
      tr_take_error = (\<lambda>st. case take_error st of (e, st) \<Rightarrow> (map_option (writer_error os_text) e, st))\<rparr>"

lemma stopped_send:
  assumes "ws_stopped st"
  shows "send enc message st = st\<lparr>ws_producer := Returned (Inl BrokenPipe)\<rparr>"
  using assms by (simp add: send_def begin_send_def producer_turn_def)

interpretation native: endpoint_transport "writer_transport enc os_text" ws_stopped
  by unfold_locales (simp_all add: writer_transport_def disconnect_def writer_send_def stopped_send)

text \<open>
  C40. Whatever a client does with the registry of its connections, at most one failure is
  reported of each endpoint and none names the connection that is open now; every transport
  that was handed over is still connected or has been told to stop, and one that was told to stop
  accepts no further message; only remote connections that agreed on it are probed.
\<close>

theorem registry_keeps_connections_apart:
  assumes "(registry_step (writer_transport enc os_text))\<^sup>*\<^sup>* (registry_new (writer_transport enc os_text) w g n now) rg"
  shows "distinct (map tf_endpoint_id (rg_failures rg)) \<and>
    (\<forall>f\<in>set (rg_failures rg). \<not> registry_accepts (tf_endpoint_id f) (tf_generation f) rg) \<and>
    rg_handed rg = card (dom (rg_connections rg)) + length (rg_retired rg) \<and>
    (\<forall>t\<in>set (rg_retired rg). \<forall>m. ws_stopped t \<and> isl (fst (tr_send (writer_transport enc os_text) m t))) \<and>
    (\<forall>e c. rg_connections rg e = Some c \<longrightarrow> cn_health c \<noteq> None \<longrightarrow> e \<noteq> LocalEndpoint \<and> supports_health_check (cn_negotiation c))"
proof -
  have "registry_inv ws_stopped (registry_new (writer_transport enc os_text) w g n now)"
    by (simp add: registry_new_def registry_insert_def registry_empty_def registry_inv_def failures_ok_def health_ok_def
        is_local_def Let_def)
  from native.run_keeps [OF assms this] have inv: "registry_inv ws_stopped rg" .
  show ?thesis
    using inv native.retired_refuses [OF inv]
    by (auto simp: registry_inv_def failures_ok_def health_ok_def registry_accepts_def is_local_def list_all_iff split: option.splits)
qed

text \<open>A local connection that fails and is replaced.\<close>

definition ex_registry :: "writer_state registry" where
  "ex_registry =
     (let tr = writer_transport (\<lambda>m. Inr []) (\<lambda>_. '''');
          rg = registry_new tr writer_new 1 (negotiation_new [] []) 0
      in registry_insert tr LocalEndpoint writer_new 2 (negotiation_new [] []) True 9
           (registry_fail tr LocalEndpoint \<lparr>ee_kind = OsKind 32, ee_message = ''broken''\<rparr> rg))"

theorem registry_keeps_connections_apart_witness:
  "map tf_generation (rg_failures ex_registry) = [1] \<and> \<not> registry_accepts LocalEndpoint 1 ex_registry \<and>
   registry_accepts LocalEndpoint 2 ex_registry \<and> rg_handed ex_registry = 2 \<and> length (rg_retired ex_registry) = 1"
proof -
  let ?tr = "writer_transport (\<lambda>m. Inr []) (\<lambda>_. '''')"
  let ?rg = "registry_new ?tr writer_new 1 (negotiation_new [] []) 0"
  let ?failed = "registry_fail ?tr LocalEndpoint \<lparr>ee_kind = OsKind 32, ee_message = ''broken''\<rparr> ?rg"
  note simps = registry_new_def registry_insert_def registry_empty_def registry_fail_def record_failure_def retire_def is_local_def
    negotiation_new_def Let_def
  have "registry_step ?tr ?rg ?failed" by (rule failed)
  moreover have "newer LocalEndpoint 2 ?failed" by (simp add: newer_def simps)
  then have "registry_step ?tr ?failed ex_registry" unfolding ex_registry_def Let_def by (rule inserted)
  ultimately have run: "(registry_step ?tr)\<^sup>*\<^sup>* ?rg ex_registry" by (meson r_into_rtranclp rtranclp.rtrancl_into_rtrancl)
  have fs: "rg_failures ex_registry = [\<lparr>tf_endpoint_id = LocalEndpoint, tf_generation = 1, tf_kind = OsKind 32, tf_message = ''broken''\<rparr>]"
    "rg_handed ex_registry = 2" "length (rg_retired ex_registry) = 1" "registry_accepts LocalEndpoint 2 ex_registry"
    by (simp_all add: ex_registry_def simps registry_accepts_def)
  have "\<forall>f\<in>set (rg_failures ex_registry). \<not> registry_accepts (tf_endpoint_id f) (tf_generation f) ex_registry"
    using registry_keeps_connections_apart [OF run] by blast
  then have "\<not> registry_accepts LocalEndpoint 1 ex_registry" unfolding fs(1) by simp
  then show ?thesis using fs by simp
qed

end
