(* ===== verification/ClientReader.thy ===== *)
theory ClientReader
  imports EndpointWriter
begin

section \<open>Reading the messages of a client\<close>

text \<open>
  The reading half of \<open>client_read_loop_with_endpoint_controls\<close> in
  \<open>src/src/server/client_transport.rs\<close>: as long as the server runs and the connection is open, one
  message after the other is read from the client's stream and handled; a message that cannot be read
  disconnects the client, whatever the reason.  What the guard of the loop finds in its \<open>k\<close>-th
  turn and whether the handler of a message lets the loop go on are arguments.  The value is the messages
  that were handled and the framing error that ended the loop, if one did.
\<close>

lemma read_message_shorter: "read_message dec s cap = (Inr m, rest) \<Longrightarrow> length rest < length s"
  by (auto simp: read_message_def read_exact_or_eof_def LENGTH_PREFIX_BYTES_def Let_def split: if_splits sum.splits prod.splits)

function client_read_loop ::
    "(nat \<Rightarrow> bool) \<Rightarrow> ('m \<Rightarrow> bool) \<Rightarrow> (byte list \<Rightarrow> string + 'm \<times> nat) \<Rightarrow> nat \<Rightarrow> byte list \<Rightarrow> 'm list \<times> framing_error option" where
  "client_read_loop running goes_on dec k stream =
     (if \<not> running k then ([], None)
      else case read_message dec stream MAX_GRAPHICS_FRAME_SIZE of
             (Inl e, rest) \<Rightarrow> ([], Some e)
           | (Inr msg, rest) \<Rightarrow>
               if goes_on msg
               then (case client_read_loop running goes_on dec (Suc k) rest of (msgs, e) \<Rightarrow> (msg # msgs, e))
               else ([msg], None))"
  by pat_completeness auto
termination
  by (relation "measure (\<lambda>(running, goes_on, dec, k, stream). length stream)") (auto dest: read_message_shorter [OF sym])

declare client_read_loop.simps [simp del]

subsection \<open>Streams of frames\<close>

text \<open>The frames of some messages, each of a size the server reads.\<close>

definition frames_for :: "('m \<Rightarrow> string + byte list) \<Rightarrow> 'm list \<Rightarrow> byte list list \<Rightarrow> bool" where
  "frames_for enc msgs frames \<longleftrightarrow>
     list_all2 (\<lambda>m f. write_message enc [] m = Inr f \<and> length f \<le> 4 + MAX_GRAPHICS_FRAME_SIZE) msgs frames"

lemma frame_payload:
  assumes "write_message enc [] m = Inr f" and "length f \<le> 4 + cap"
  obtains p where "enc m = Inr p" "length p \<le> u32_max" "length p \<le> cap" "f = to_le 4 (length p) @ p"
  using assms by (auto simp: write_message_Inr simp del: to_le.simps)

lemma read_whole_frame:
  assumes "codec_ok enc dec" and "write_message enc [] m = Inr f" and "length f \<le> 4 + cap"
  shows "read_message dec (f @ rest) cap = (Inr m, rest)"
  using assms(2,3) by (rule frame_payload) (use read_written [OF assms(1)] in simp)

lemma read_partial_frame:
  assumes "write_message enc [] m = Inr f" and "length f \<le> 4 + cap" and "strict_prefix s f"
  shows "fst (read_message dec s cap) = Inl UnexpectedEof"
proof -
  obtain p where p: "length p \<le> u32_max" "length p \<le> cap" "f = to_le 4 (length p) @ p"
    using assms(1,2) by (rule frame_payload)
  have s: "s = take (length s) f" "length s < length f"
    using assms(3) by (auto simp: strict_prefix_def prefix_def)
  then show ?thesis using read_message_truncated [OF p(1,2), of "length s" dec] p(3) by simp
qed

text \<open>A prefix of joined frames is some of the frames and a piece of the next one.\<close>

lemma prefix_concat_cases:
  assumes "prefix s (concat (f # fs))"
  obtains "strict_prefix s f" | rest where "s = f @ rest" "prefix rest (concat fs)"
proof -
  from assms have "prefix s f \<or> (\<exists>rest. s = f @ rest \<and> prefix rest (concat fs))" by (simp add: prefix_append)
  then show thesis using that by (cases "s = f") (auto simp: strict_prefix_def)
qed

lemma read_loop_unfold:
  "running k \<Longrightarrow> read_message dec s MAX_GRAPHICS_FRAME_SIZE = (Inr m, rest) \<Longrightarrow>
     client_read_loop running goes_on dec k s =
       (if goes_on m then (case client_read_loop running goes_on dec (Suc k) rest of (ms, e) \<Rightarrow> (m # ms, e)) else ([m], None))"
  "running k \<Longrightarrow> fst (read_message dec s MAX_GRAPHICS_FRAME_SIZE) = Inl e \<Longrightarrow>
     client_read_loop running goes_on dec k s = ([], Some e)"
  by (subst client_read_loop.simps, auto split: prod.splits sum.splits)+

lemma read_nothing: "fst (read_message dec [] cap) = Inl UnexpectedEof"
  by (simp add: read_message_def read_exact_or_eof_def LENGTH_PREFIX_BYTES_def)

lemma read_loop_prefix:
  assumes "codec_ok enc dec" and "frames_for enc msgs frames" and "prefix s (concat frames)"
  shows "prefix (fst (client_read_loop running goes_on dec k s)) msgs"
  using assms(2,3)
proof (induction frames arbitrary: msgs s k)
  case Nil
  then have "s = []" by simp
  then show ?case
  proof (cases "running k")
    case True
    then have "client_read_loop running goes_on dec k [] = ([], Some UnexpectedEof)"
      by (rule read_loop_unfold(2)) (rule read_nothing)
    then show ?thesis by (simp add: \<open>s = []\<close>)
  qed (simp add: client_read_loop.simps [of running _ _ k])
next
  case (Cons f frames)
  then obtain m ms where msgs: "msgs = m # ms" "write_message enc [] m = Inr f" "length f \<le> 4 + MAX_GRAPHICS_FRAME_SIZE"
    "frames_for enc ms frames" by (auto simp: frames_for_def list_all2_Cons2)
  show ?case
  proof (cases "running k")
    case False
    then show ?thesis by (simp add: client_read_loop.simps [of running _ _ k])
  next
    case True
    from Cons.prems(2) show ?thesis
    proof (cases rule: prefix_concat_cases)
      case 1
      have "client_read_loop running goes_on dec k s = ([], Some UnexpectedEof)"
        using True read_partial_frame [OF msgs(2,3) 1] by (rule read_loop_unfold(2))
      then show ?thesis by simp
    next
      case (2 rest)
      have "read_message dec s MAX_GRAPHICS_FRAME_SIZE = (Inr m, rest)"
        unfolding 2(1) by (rule read_whole_frame [OF assms(1) msgs(2,3)])
      then show ?thesis using Cons.IH [OF msgs(4) 2(2), of "Suc k"] msgs(1)
        by (auto simp: read_loop_unfold(1) [where running = running, OF True] split: prod.split)
    qed
  qed
qed

lemma read_loop_all:
  assumes "codec_ok enc dec" and "frames_for enc msgs frames"
  shows "client_read_loop (\<lambda>_. True) (\<lambda>_. True) dec k (concat frames) = (msgs, Some UnexpectedEof)"
  using assms(2)
proof (induction frames arbitrary: msgs k)
  case Nil
  then show ?case by (simp add: frames_for_def read_loop_unfold(2) read_nothing)
next
  case (Cons f frames)
  then obtain m ms where msgs: "msgs = m # ms" "write_message enc [] m = Inr f" "length f \<le> 4 + MAX_GRAPHICS_FRAME_SIZE"
    "frames_for enc ms frames" by (auto simp: frames_for_def list_all2_Cons2)
  then show ?case
    using Cons.IH [OF msgs(4)] read_loop_unfold(1) [OF _ read_whole_frame [OF assms(1) msgs(2,3)]] by simp
qed

subsection \<open>The frames a writer accepts\<close>

text \<open>Every frame in the hands of the user interface, and every accepted one, is the frame of a message.\<close>

definition producer_frames :: "producer \<Rightarrow> byte list list" where
  "producer_frames p = (case p of Checked f \<Rightarrow> [f] | Reserved f \<Rightarrow> [f] | NeedsBatch f \<Rightarrow> [f] | Refused f _ \<Rightarrow> [f] | _ \<Rightarrow> [])"

definition accepts_frames :: "('m \<Rightarrow> string + byte list) \<Rightarrow> writer_state \<Rightarrow> bool" where
  "accepts_frames enc st \<longleftrightarrow>
     (\<forall>f\<in>set (ws_accepted st @ producer_frames (ws_producer st)). \<exists>m. write_message enc [] m = Inr f)"

lemma worker_turn_producer [simp]:
  "ws_accepted (worker_turn result now st) = ws_accepted st" "ws_producer (worker_turn result now st) = ws_producer st"
  by (simp_all add: worker_turn_def claim_batch_def offer_frame_def split: worker.split list.split writer_command.split frame_turn.split)

lemma producer_turn_frames: "accepts_frames enc st \<Longrightarrow> accepts_frames enc (producer_turn st)"
  by (cases "ws_producer st")
    (auto simp: accepts_frames_def producer_turn_def reserve_bytes_def append_to_pending_def push_batch_def release_bytes_def
      push_flush_def try_send_def producer_frames_def Let_def split: option.split)

lemma writer_step_frames: "accepts_frames enc st \<Longrightarrow> writer_step enc st t \<Longrightarrow> accepts_frames enc t"
proof (erule writer_step.cases)
  fix u
  assume "accepts_frames enc st" "st = u" "t = producer_turn u"
  then show ?thesis using producer_turn_frames by simp
qed (auto simp: accepts_frames_def producer_frames_def begin_send_def begin_flush_def take_error_def disconnect_def
  drop_transport_def split: sum.split)

interpretation frames_run: kept_by_steps "writer_step enc" "accepts_frames enc"
  by unfold_locales (rule writer_step_frames)

lemma accepted_messages:
  assumes "(writer_step enc)\<^sup>*\<^sup>* writer_new st" and "list_all (\<lambda>f. length f \<le> 4 + MAX_GRAPHICS_FRAME_SIZE) (ws_accepted st)"
  shows "\<exists>msgs. frames_for enc msgs (ws_accepted st)"
proof -
  have "accepts_frames enc writer_new" by (simp add: accepts_frames_def writer_new_def producer_frames_def)
  from frames_run.run_keeps [OF assms(1) this] obtain msg where "\<forall>f\<in>set (ws_accepted st). write_message enc [] (msg f) = Inr f"
    unfolding accepts_frames_def by (metis UnCI set_append)
  with assms(2) have "frames_for enc (map msg (ws_accepted st)) (ws_accepted st)"
    by (auto simp: frames_for_def list_all2_map1 list_all_iff intro!: list.rel_refl_strong)
  then show ?thesis by blast
qed

end
