(* ===== verification/ClientQueue.thy ===== *)
theory ClientQueue
  imports Framing "HOL-Library.Sublist"
begin

section \<open>The outgoing queue of a client connection\<close>

text \<open>
  \<open>ClientWriterQueue\<close> of \<open>src/src/server/client_transport.rs\<close>: what the server thread, the read
  thread and the write thread of one client share.  Control frames are reliable and
  ordered, within limits on their bytes and number; there is one slot for a render frame
  that may be dropped; ordered render frames go out before the slot.  The phase says how far
  the connection is closed.

  Every operation holds the lock of the state from its beginning to its end, so each is one
  function on the state.  \<open>recv\<close> waits on the condition variable inside its loop:
  \<open>recv_turn\<close> is one pass of the loop, and says whether it returned or went to sleep.
  \<open>cq_notified\<close> says whether \<open>notify_all\<close> was called since the writer last fell asleep.  The
  control handle of the socket belongs to the platform; kept of it are the calls that were made.

  The last three fields are ghosts: the control and render frames that were accepted, and
  what the writer has claimed of them.  The fields that exist for tests only are left out.
\<close>

definition MAX_CLIENT_CONTROL_BACKLOG_BYTES :: usize where
  "MAX_CLIENT_CONTROL_BACKLOG_BYTES = 4 * 1024 * 1024"

definition MAX_CLIENT_CONTROL_BACKLOG_MESSAGES :: usize where
  "MAX_CLIENT_CONTROL_BACKLOG_MESSAGES = 4096"

definition ENDPOINT_RESERVED_CONTROL_BYTES :: usize where
  "ENDPOINT_RESERVED_CONTROL_BYTES = MAX_FRAME_SIZE + 4"

definition ENDPOINT_RESERVED_CONTROL_MESSAGES :: usize where
  "ENDPOINT_RESERVED_CONTROL_MESSAGES = 64"

lemmas backlog_limits =
  MAX_CLIENT_CONTROL_BACKLOG_BYTES_def MAX_CLIENT_CONTROL_BACKLOG_MESSAGES_def
  ENDPOINT_RESERVED_CONTROL_BYTES_def ENDPOINT_RESERVED_CONTROL_MESSAGES_def

datatype client_close_state = Open | Sealed | Draining | Closed | Aborted

datatype client_write_item = Control "byte list" | Render "byte list"

datatype try_send_error = QueueFull "byte list" | QueueDisconnected "byte list"

datatype io_call = IoShutdown | IoSetDeadline nat

record client_writer_credits =
  cred_render :: bool
  cred_endpoint :: bool

record client_queue =
  cq_control :: "byte list list"
  cq_control_bytes :: usize
  cq_ordered :: "byte list list"
  cq_render :: "byte list option"
  cq_senders :: usize
  cq_phase :: client_close_state
  cq_registration :: bool
  cq_io :: "io_call list option"
  cq_reader_running :: bool
  cq_writer_running :: bool
  cq_pending_events :: usize
  cq_disconnect_pending :: "bool option"
  cq_disconnect_notified :: bool
  cq_drained_pending :: bool
  cq_drained_notified :: bool
  cq_credits :: client_writer_credits
  cq_notification_pending :: bool
  cq_endpoint_waiting :: bool
  cq_notified :: bool
  cq_accepted_control :: "byte list list"
  cq_accepted_render :: "byte list list"
  cq_claimed :: "client_write_item list"

definition no_credits :: client_writer_credits where
  "no_credits = \<lparr>cred_render = False, cred_endpoint = False\<rparr>"

definition client_queue_new :: client_queue where
  "client_queue_new = \<lparr>cq_control = [], cq_control_bytes = 0, cq_ordered = [], cq_render = None, cq_senders = 0,
     cq_phase = Open, cq_registration = False, cq_io = None, cq_reader_running = False, cq_writer_running = False,
     cq_pending_events = 0, cq_disconnect_pending = None, cq_disconnect_notified = False, cq_drained_pending = False,
     cq_drained_notified = False, cq_credits = no_credits, cq_notification_pending = False,
     cq_endpoint_waiting = False, cq_notified = False, cq_accepted_control = [], cq_accepted_render = [],
     cq_claimed = []\<rparr>"

definition notify_all :: "client_queue \<Rightarrow> client_queue" where
  "notify_all q = q\<lparr>cq_notified := True\<rparr>"

subsection \<open>Handles and threads\<close>

definition attach :: "bool \<Rightarrow> client_queue \<Rightarrow> client_queue" where
  "attach reader q =
     (let io = (if cq_phase q = Aborted then [IoShutdown] else []) in
      q\<lparr>cq_io := Some io, cq_reader_running := reader, cq_writer_running := True\<rparr>)"

definition add_sender :: "client_queue \<Rightarrow> client_queue" where
  "add_sender q = q\<lparr>cq_senders := sat_add u64_max (cq_senders q) 1\<rparr>"

definition remove_sender :: "client_queue \<Rightarrow> client_queue" where
  "remove_sender q = notify_all (q\<lparr>cq_senders := cq_senders q - 1\<rparr>)"

definition worker_done :: "bool \<Rightarrow> client_queue \<Rightarrow> client_queue" where
  "worker_done reader q =
     (let q = (if reader then q\<lparr>cq_reader_running := False\<rparr> else q\<lparr>cq_writer_running := False\<rparr>) in
      if \<not> cq_reader_running q \<and> \<not> cq_writer_running q then q\<lparr>cq_io := None, cq_registration := False\<rparr> else q)"

definition is_complete :: "client_queue \<Rightarrow> bool" where
  "is_complete q \<longleftrightarrow> \<not> cq_reader_running q \<and> \<not> cq_writer_running q"

subsection \<open>Closing\<close>

definition io_do :: "io_call \<Rightarrow> client_queue \<Rightarrow> client_queue" where
  "io_do c q = q\<lparr>cq_io := map_option (\<lambda>calls. calls @ [c]) (cq_io q)\<rparr>"

definition seal :: "nat option \<Rightarrow> client_queue \<Rightarrow> client_queue" where
  "seal deadline q =
     (let q = (if cq_phase q = Open then q\<lparr>cq_phase := Sealed, cq_render := None, cq_ordered := []\<rparr> else q);
          q = (case deadline of Some d \<Rightarrow> io_do (IoSetDeadline d) q | None \<Rightarrow> q)
      in notify_all q)"

definition abort_locked :: "client_queue \<Rightarrow> client_queue" where
  "abort_locked q =
     (if cq_phase q = Closed then q
      else notify_all (io_do IoShutdown
        (q\<lparr>cq_phase := Aborted, cq_control := [], cq_control_bytes := 0, cq_render := None, cq_ordered := []\<rparr>)))"

subsection \<open>Sending\<close>

definition push_control :: "usize \<Rightarrow> byte list \<Rightarrow> client_queue \<Rightarrow> client_queue" where
  "push_control bytes frame q =
     q\<lparr>cq_control_bytes := bytes, cq_control := cq_control q @ [frame],
       cq_accepted_control := cq_accepted_control q @ [frame]\<rparr>"

definition control_full :: "usize \<Rightarrow> usize \<Rightarrow> byte list \<Rightarrow> client_queue \<Rightarrow> bool" where
  "control_full max_bytes max_messages frame q \<longleftrightarrow>
     max_bytes < sat_add u64_max (cq_control_bytes q) (length frame) \<or> max_messages \<le> length (cq_control q)"

definition send_control :: "byte list \<Rightarrow> client_queue \<Rightarrow> (byte list + unit) \<times> client_queue" where
  "send_control frame q =
     (if cq_phase q \<noteq> Open then (Inl frame, q)
      else if control_full MAX_CLIENT_CONTROL_BACKLOG_BYTES MAX_CLIENT_CONTROL_BACKLOG_MESSAGES frame q
      then (Inl frame, abort_locked q)
      else (Inr (), notify_all (push_control (sat_add u64_max (cq_control_bytes q) (length frame)) frame q)))"

definition try_send_endpoint_frame :: "byte list \<Rightarrow> client_queue \<Rightarrow> (try_send_error + unit) \<times> client_queue" where
  "try_send_endpoint_frame frame q =
     (if cq_phase q \<noteq> Open \<or> cq_disconnect_notified q then (Inl (QueueDisconnected frame), q)
      else if control_full (MAX_CLIENT_CONTROL_BACKLOG_BYTES - ENDPOINT_RESERVED_CONTROL_BYTES)
                (MAX_CLIENT_CONTROL_BACKLOG_MESSAGES - ENDPOINT_RESERVED_CONTROL_MESSAGES) frame q
      then (Inl (QueueFull frame), q\<lparr>cq_endpoint_waiting := True\<rparr>)
      else (Inr (), notify_all (push_control (wadd64 (cq_control_bytes q) (length frame)) frame q)))"

definition try_send_render :: "byte list \<Rightarrow> client_queue \<Rightarrow> (try_send_error + unit) \<times> client_queue" where
  "try_send_render frame q =
     (if cq_phase q \<noteq> Open then (Inl (QueueDisconnected frame), q)
      else if cq_render q \<noteq> None then (Inl (QueueFull frame), q)
      else (Inr (), notify_all (q\<lparr>cq_render := Some frame, cq_accepted_render := cq_accepted_render q @ [frame]\<rparr>)))"

definition discard_pending_render :: "client_queue \<Rightarrow> client_queue" where
  "discard_pending_render q = notify_all (q\<lparr>cq_render := None, cq_ordered := []\<rparr>)"

definition send_ordered :: "byte list \<Rightarrow> client_queue \<Rightarrow> (try_send_error + unit) \<times> client_queue" where
  "send_ordered frame q =
     (if cq_phase q \<noteq> Open then (Inl (QueueDisconnected frame), q)
      else if cq_ordered q \<noteq> [] then (Inl (QueueFull frame), q)
      else let older = (case cq_render q of Some f \<Rightarrow> [f] | None \<Rightarrow> []) in
           (Inr (), notify_all (q\<lparr>cq_render := None, cq_ordered := cq_ordered q @ older @ [frame],
              cq_accepted_render := cq_accepted_render q @ [frame]\<rparr>)))"

text \<open>The last message; \<open>encoded\<close> is what \<open>write_message\<close> makes of it.\<close>

definition shutdown :: "framing_error + byte list \<Rightarrow> nat option \<Rightarrow> client_queue \<Rightarrow> client_queue" where
  "shutdown encoded deadline q =
     (if cq_phase q = Open
      then case encoded of
             Inl e \<Rightarrow> abort_locked q
           | Inr framed \<Rightarrow>
               if control_full MAX_CLIENT_CONTROL_BACKLOG_BYTES MAX_CLIENT_CONTROL_BACKLOG_MESSAGES framed q
               then abort_locked q
               else seal deadline (push_control (wadd64 (cq_control_bytes q) (length framed)) framed q)
      else seal deadline q)"

subsection \<open>Taking\<close>

datatype recv_result = Took client_write_item | TookNone | Slept

definition recv_turn :: "client_queue \<Rightarrow> recv_result \<times> client_queue" where
  "recv_turn q =
     (if cq_phase q = Closed \<or> cq_phase q = Aborted then (TookNone, q)
      else case cq_control q of
        frame # rest \<Rightarrow>
          (Took (Control frame),
           q\<lparr>cq_control_bytes := cq_control_bytes q - length frame, cq_control := rest,
             cq_claimed := cq_claimed q @ [Control frame]\<rparr>)
      | [] \<Rightarrow>
          case cq_ordered q of
            frame # rest \<Rightarrow>
              (Took (Render frame), notify_all (q\<lparr>cq_ordered := rest, cq_claimed := cq_claimed q @ [Render frame]\<rparr>))
          | [] \<Rightarrow>
              case cq_render q of
                Some frame \<Rightarrow> (Took (Render frame), q\<lparr>cq_render := None, cq_claimed := cq_claimed q @ [Render frame]\<rparr>)
              | None \<Rightarrow>
                  if cq_senders q = 0 \<or> cq_phase q \<noteq> Open then (TookNone, q\<lparr>cq_phase := Draining\<rparr>)
                  else (Slept, q\<lparr>cq_notified := False\<rparr>))"

text \<open>The end of \<open>run_client_writer\<close>, when the socket has been shut down in an orderly way.\<close>

definition mark_closed :: "client_queue \<Rightarrow> client_queue" where
  "mark_closed q = (if cq_phase q \<noteq> Aborted then q\<lparr>cq_phase := Closed\<rparr> else q)"

subsection \<open>Events for the server\<close>

text \<open>
  The channel to the server thread is a bounded channel of the asynchronous runtime, shared by all clients:
  \<open>try_send\<close> is an argument.  An event carries the identity of its client; \<open>ClientEvent\<close> stands for
  all variants that a client's message gives rise to.
\<close>

datatype channel_error = ChannelFull | ChannelClosed

datatype 'e server_event =
    ClientConnected u64
  | ClientEvent u64 'e
  | ClientDetach u64
  | ClientDisconnected u64
  | ClientWriterDrained u64
  | NoClientEvent

fun transport_client_id :: "'e server_event \<Rightarrow> u64 option" where
  "transport_client_id (ClientConnected c) = Some c"
| "transport_client_id (ClientEvent c e) = Some c"
| "transport_client_id _ = None"

definition notifications_ready :: "client_queue \<Rightarrow> bool" where
  "notifications_ready q \<longleftrightarrow> cq_drained_pending q \<or> (cq_disconnect_pending q \<noteq> None \<and> cq_pending_events q = 0)"

definition publish_notifications :: "client_queue \<Rightarrow> client_queue" where
  "publish_notifications q = q\<lparr>cq_notification_pending := notifications_ready q\<rparr>"

datatype send_attempt = EventAccepted | EventRefused | EventRetry

text \<open>
  One pass of the loop of \<open>send_client_event\<close>; after \<open>EventRetry\<close> it waits and tries again.  The count of
  unacknowledged events cannot reach the width of its type: they are in the bounded channel or at the server.
\<close>

definition send_client_event ::
    "('c \<Rightarrow> 'e server_event \<Rightarrow> channel_error + 'c) \<Rightarrow> 'e server_event \<Rightarrow> bool \<Rightarrow> bool \<Rightarrow> client_queue \<times> 'c \<Rightarrow>
     send_attempt \<times> client_queue \<times> 'c" where
  "send_client_event chan_send event should_quit past_deadline qc =
     (let (q, ch) = qc in
      if should_quit \<or> past_deadline \<or> cq_phase q \<noteq> Open \<or> cq_disconnect_notified q then (EventRefused, q, ch)
      else case chan_send ch event of
             Inr ch' \<Rightarrow> (EventAccepted, q\<lparr>cq_pending_events := cq_pending_events q + 1\<rparr>, ch')
           | Inl ChannelClosed \<Rightarrow> (EventRefused, q, ch)
           | Inl ChannelFull \<Rightarrow> (EventRetry, q, ch))"

definition notify_disconnect ::
    "('c \<Rightarrow> 'e server_event \<Rightarrow> channel_error + 'c) \<Rightarrow> u64 \<Rightarrow> bool \<Rightarrow> client_queue \<times> 'c \<Rightarrow> client_queue \<times> 'c" where
  "notify_disconnect chan_send client_id detached qc =
     (let (q, ch) = qc in
      if cq_disconnect_notified q then (q, ch)
      else let q = q\<lparr>cq_disconnect_notified := True\<rparr>;
               event = (if detached then ClientDetach client_id else ClientDisconnected client_id)
           in case chan_send ch event of
                Inr ch' \<Rightarrow> (q, ch')
              | Inl _ \<Rightarrow> (publish_notifications (q\<lparr>cq_disconnect_pending := Some detached\<rparr>), ch))"

definition notify_credit ::
    "('c \<Rightarrow> 'e server_event \<Rightarrow> channel_error + 'c) \<Rightarrow> u64 \<Rightarrow> bool \<Rightarrow> client_queue \<times> 'c \<Rightarrow> client_queue \<times> 'c" where
  "notify_credit chan_send client_id render qc =
     (let (q, ch) = qc in
      if cq_disconnect_notified q then (q, ch)
      else let credits = cq_credits q;
               q = q\<lparr>cq_credits := \<lparr>cred_render = (cred_render credits \<or> render), cred_endpoint = (cred_endpoint credits \<or> \<not> render)\<rparr>\<rparr>
           in if cq_drained_notified q then (q, ch)
              else let q = q\<lparr>cq_drained_notified := True\<rparr>
                   in case chan_send ch (ClientWriterDrained client_id) of
                        Inr ch' \<Rightarrow> (q, ch')
                      | Inl _ \<Rightarrow> (publish_notifications (q\<lparr>cq_drained_pending := True\<rparr>), ch))"

text \<open>\<open>ClientWriter\<close>'s side of the notifications, for the server thread.\<close>

definition take_transport_notifications :: "client_queue \<Rightarrow> (bool option \<times> bool) \<times> client_queue" where
  "take_transport_notifications q =
     (if \<not> cq_notification_pending q then ((None, False), q)
      else let disconnected = (if cq_pending_events q = 0 then cq_disconnect_pending q else None);
               drained = cq_drained_pending q;
               q = (if cq_pending_events q = 0 then q\<lparr>cq_disconnect_pending := None\<rparr> else q)
           in ((disconnected, drained), publish_notifications (q\<lparr>cq_drained_pending := False\<rparr>)))"

definition acknowledge_transport_drain :: "client_queue \<Rightarrow> client_writer_credits \<times> client_queue" where
  "acknowledge_transport_drain q = (cq_credits q, q\<lparr>cq_drained_notified := False, cq_credits := no_credits\<rparr>)"

definition defer_endpoint_credit :: "client_queue \<Rightarrow> client_queue" where
  "defer_endpoint_credit q =
     (if cq_phase q \<noteq> Open \<or> cq_disconnect_notified q then q
      else let q = q\<lparr>cq_credits := (cq_credits q)\<lparr>cred_endpoint := True\<rparr>\<rparr>
           in if \<not> cq_drained_notified q
              then publish_notifications (q\<lparr>cq_drained_notified := True, cq_drained_pending := True\<rparr>) else q)"

definition complete_event :: "client_queue \<Rightarrow> bool \<times> client_queue" where
  "complete_event q =
     (let q = publish_notifications (q\<lparr>cq_pending_events := cq_pending_events q - 1\<rparr>) in (cq_notification_pending q, q))"

definition defer_removal_for_accepted_events :: "client_queue \<Rightarrow> bool \<times> client_queue" where
  "defer_removal_for_accepted_events q =
     (if cq_pending_events q = 0 then (False, q\<lparr>cq_disconnect_notified := True\<rparr>)
      else let q = (if \<not> cq_disconnect_notified q
                    then publish_notifications (q\<lparr>cq_disconnect_notified := True, cq_disconnect_pending := Some False\<rparr>)
                    else q)
           in (True, seal None q))"

section \<open>The invariant of the queue\<close>

fun control_frames :: "client_write_item list \<Rightarrow> byte list list" where
  "control_frames [] = []"
| "control_frames (Control frame # items) = frame # control_frames items"
| "control_frames (Render frame # items) = control_frames items"

fun render_frames :: "client_write_item list \<Rightarrow> byte list list" where
  "render_frames [] = []"
| "render_frames (Control frame # items) = render_frames items"
| "render_frames (Render frame # items) = frame # render_frames items"

lemma control_frames_append [simp]: "control_frames (xs @ ys) = control_frames xs @ control_frames ys"
  by (induction xs rule: control_frames.induct) auto

lemma render_frames_append [simp]: "render_frames (xs @ ys) = render_frames xs @ render_frames ys"
  by (induction xs rule: render_frames.induct) auto

definition waiting_render :: "client_queue \<Rightarrow> byte list list" where
  "waiting_render q = cq_ordered q @ (case cq_render q of Some frame \<Rightarrow> [frame] | None \<Rightarrow> [])"

definition queue_ok :: "client_queue \<Rightarrow> bool" where
  "queue_ok q \<longleftrightarrow>
     cq_control_bytes q = sum_list (map length (cq_control q)) \<and>
     cq_control_bytes q \<le> MAX_CLIENT_CONTROL_BACKLOG_BYTES \<and>
     length (cq_control q) \<le> MAX_CLIENT_CONTROL_BACKLOG_MESSAGES \<and>
     length (cq_ordered q) \<le> 2 \<and>
     (cq_phase q \<noteq> Open \<longrightarrow> waiting_render q = []) \<and>
     (cq_phase q \<in> {Draining, Closed, Aborted} \<longrightarrow> cq_control q = []) \<and>
     prefix (control_frames (cq_claimed q) @ cq_control q) (cq_accepted_control q) \<and>
     (cq_phase q \<noteq> Aborted \<longrightarrow> cq_accepted_control q = control_frames (cq_claimed q) @ cq_control q) \<and>
     subseq (render_frames (cq_claimed q) @ waiting_render q) (cq_accepted_render q)"

lemma queue_ok_new: "queue_ok client_queue_new"
  by (simp add: queue_ok_def client_queue_new_def waiting_render_def)

text \<open>The fields that the invariant does not mention.\<close>

lemma queue_ok_irrelevant [simp]:
  "queue_ok (q\<lparr>cq_senders := a\<rparr>) = queue_ok q"
  "queue_ok (q\<lparr>cq_io := b\<rparr>) = queue_ok q"
  "queue_ok (q\<lparr>cq_registration := c\<rparr>) = queue_ok q"
  "queue_ok (q\<lparr>cq_reader_running := d\<rparr>) = queue_ok q"
  "queue_ok (q\<lparr>cq_writer_running := e\<rparr>) = queue_ok q"
  "queue_ok (q\<lparr>cq_pending_events := f\<rparr>) = queue_ok q"
  "queue_ok (q\<lparr>cq_disconnect_pending := g\<rparr>) = queue_ok q"
  "queue_ok (q\<lparr>cq_disconnect_notified := h\<rparr>) = queue_ok q"
  "queue_ok (q\<lparr>cq_drained_pending := i\<rparr>) = queue_ok q"
  "queue_ok (q\<lparr>cq_drained_notified := j\<rparr>) = queue_ok q"
  "queue_ok (q\<lparr>cq_credits := k\<rparr>) = queue_ok q"
  "queue_ok (q\<lparr>cq_notification_pending := l\<rparr>) = queue_ok q"
  "queue_ok (q\<lparr>cq_endpoint_waiting := m\<rparr>) = queue_ok q"
  "queue_ok (q\<lparr>cq_notified := n\<rparr>) = queue_ok q"
  by (simp_all add: queue_ok_def waiting_render_def)

lemma queue_ok_wrappers [simp]:
  "queue_ok (notify_all q) = queue_ok q"
  "queue_ok (io_do c q) = queue_ok q"
  "queue_ok (publish_notifications q) = queue_ok q"
  "queue_ok (attach r q) = queue_ok q"
  "queue_ok (add_sender q) = queue_ok q"
  "queue_ok (remove_sender q) = queue_ok q"
  "queue_ok (worker_done r q) = queue_ok q"
  by (simp_all add: notify_all_def io_do_def publish_notifications_def attach_def add_sender_def remove_sender_def
      worker_done_def Let_def)

lemma subseq_append_leftD: "subseq (xs @ ys) zs \<Longrightarrow> subseq xs zs"
  by (meson prefixI prefix_imp_subseq subseq_order.order_trans)

lemma seal_ok: "queue_ok q \<Longrightarrow> queue_ok (seal deadline q)"
proof -
  assume ok: "queue_ok q"
  then have "queue_ok (q\<lparr>cq_phase := Sealed, cq_render := None, cq_ordered := []\<rparr>)" if "cq_phase q = Open"
    using that by (auto simp: queue_ok_def waiting_render_def dest: subseq_append_leftD)
  with ok show ?thesis by (simp add: seal_def Let_def split: option.split)
qed

lemma abort_locked_ok: "queue_ok q \<Longrightarrow> queue_ok (abort_locked q)"
proof -
  assume ok: "queue_ok q"
  then have "queue_ok (q\<lparr>cq_phase := Aborted, cq_control := [], cq_control_bytes := 0, cq_render := None, cq_ordered := []\<rparr>)"
    by (auto simp: queue_ok_def waiting_render_def dest: subseq_append_leftD append_prefixD)
  with ok show ?thesis by (simp add: abort_locked_def)
qed

text \<open>Within the limits both additions are exact.\<close>

lemma room_exact:
  assumes "\<not> control_full max_bytes max_messages frame q" and "max_bytes \<le> MAX_CLIENT_CONTROL_BACKLOG_BYTES"
  shows "sat_add u64_max (cq_control_bytes q) (length frame) = cq_control_bytes q + length frame"
    and "wadd64 (cq_control_bytes q) (length frame) = cq_control_bytes q + length frame"
    and "cq_control_bytes q + length frame \<le> max_bytes"
proof -
  show sum: "cq_control_bytes q + length frame \<le> max_bytes" using assms
    by (auto simp: control_full_def sat_add_def u64_max_def MAX_CLIENT_CONTROL_BACKLOG_BYTES_def)
  then show "sat_add u64_max (cq_control_bytes q) (length frame) = cq_control_bytes q + length frame"
    "wadd64 (cq_control_bytes q) (length frame) = cq_control_bytes q + length frame"
    using assms(2) by (simp_all add: sat_add_def u64_max_def MAX_CLIENT_CONTROL_BACKLOG_BYTES_def)
qed

lemma push_control_ok:
  assumes "queue_ok q" and "cq_phase q = Open"
    and "\<not> control_full MAX_CLIENT_CONTROL_BACKLOG_BYTES MAX_CLIENT_CONTROL_BACKLOG_MESSAGES frame q"
  shows "queue_ok (push_control (sat_add u64_max (cq_control_bytes q) (length frame)) frame q)"
    and "queue_ok (push_control (wadd64 (cq_control_bytes q) (length frame)) frame q)"
  using assms room_exact [OF assms(3) order_refl]
  by (simp_all add: queue_ok_def push_control_def control_full_def waiting_render_def)

lemma control_full_mono:
  "control_full b m frame q \<Longrightarrow> b' \<le> b \<Longrightarrow> m' \<le> m \<Longrightarrow> control_full b' m' frame q"
  by (auto simp: control_full_def)

lemma send_control_ok: "queue_ok q \<Longrightarrow> queue_ok (snd (send_control frame q))"
  by (simp add: send_control_def abort_locked_ok push_control_ok)

lemma try_send_endpoint_frame_ok: "queue_ok q \<Longrightarrow> queue_ok (snd (try_send_endpoint_frame frame q))"
  using control_full_mono [of MAX_CLIENT_CONTROL_BACKLOG_BYTES MAX_CLIENT_CONTROL_BACKLOG_MESSAGES frame q]
  by (auto simp: try_send_endpoint_frame_def intro!: push_control_ok)

text \<open>What the invariant says of render frames, apart from the rest.\<close>

lemma queue_ok_render:
  assumes "queue_ok q" and "subseq (render_frames (cq_claimed q) @ ordered @ (case slot of Some f \<Rightarrow> [f] | None \<Rightarrow> [])) accepted"
    and "length ordered \<le> 2" and "cq_phase q \<noteq> Open \<Longrightarrow> ordered = [] \<and> slot = None"
  shows "queue_ok (q\<lparr>cq_render := slot, cq_ordered := ordered, cq_accepted_render := accepted\<rparr>)"
  using assms by (simp add: queue_ok_def waiting_render_def)

lemma render_accepted:
  "queue_ok q \<Longrightarrow> subseq (render_frames (cq_claimed q) @ waiting_render q @ [frame]) (cq_accepted_render q @ [frame])"
  using list_emb_append_mono [of "(=)" "render_frames (cq_claimed q) @ waiting_render q" "cq_accepted_render q" "[frame]" "[frame]"]
  by (simp add: queue_ok_def)

lemma ordered_at_most_two: "queue_ok q \<Longrightarrow> length (cq_ordered q) \<le> 2"
  by (simp add: queue_ok_def)

lemma try_send_render_ok:
  assumes "queue_ok q"
  shows "queue_ok (snd (try_send_render frame q))"
proof (cases "cq_phase q = Open \<and> cq_render q = None")
  case True
  then show ?thesis
    using queue_ok_render [OF assms, of "cq_ordered q" "Some frame" "cq_accepted_render q @ [frame]"]
      render_accepted [OF assms, of frame] ordered_at_most_two [OF assms]
    by (simp add: try_send_render_def waiting_render_def)
qed (use assms in \<open>auto simp: try_send_render_def\<close>)

lemma discard_pending_render_ok:
  assumes "queue_ok q"
  shows "queue_ok (discard_pending_render q)"
proof -
  have "subseq (render_frames (cq_claimed q)) (cq_accepted_render q)"
    using assms unfolding queue_ok_def by (elim conjE) (rule subseq_append_leftD)
  then show ?thesis
    using queue_ok_render [OF assms, of "[]" None "cq_accepted_render q"] by (simp add: discard_pending_render_def)
qed

lemma send_ordered_ok:
  assumes "queue_ok q"
  shows "queue_ok (snd (send_ordered frame q))"
proof (cases "cq_phase q = Open \<and> cq_ordered q = []")
  case True
  then show ?thesis
    using queue_ok_render [OF assms, of "waiting_render q @ [frame]" None "cq_accepted_render q @ [frame]"] render_accepted [OF assms, of frame]
    by (cases "cq_render q") (simp_all add: send_ordered_def waiting_render_def)
qed (use assms in \<open>auto simp: send_ordered_def\<close>)

lemma shutdown_ok: "queue_ok q \<Longrightarrow> queue_ok (shutdown encoded deadline q)"
  by (auto simp: shutdown_def split: sum.split intro!: seal_ok abort_locked_ok push_control_ok)

lemma claim_control_ok:
  "queue_ok q \<Longrightarrow> cq_control q = frame # rest \<Longrightarrow>
     queue_ok (q\<lparr>cq_control_bytes := cq_control_bytes q - length frame, cq_control := rest, cq_claimed := cq_claimed q @ [Control frame]\<rparr>)"
  by (simp add: queue_ok_def waiting_render_def)

lemma claim_ordered_ok:
  "queue_ok q \<Longrightarrow> cq_control q = [] \<Longrightarrow> cq_ordered q = frame # rest \<Longrightarrow>
     queue_ok (q\<lparr>cq_ordered := rest, cq_claimed := cq_claimed q @ [Render frame]\<rparr>)"
  by (simp add: queue_ok_def waiting_render_def)

lemma claim_render_ok:
  "queue_ok q \<Longrightarrow> cq_control q = [] \<Longrightarrow> cq_ordered q = [] \<Longrightarrow> cq_render q = Some frame \<Longrightarrow>
     queue_ok (q\<lparr>cq_render := None, cq_claimed := cq_claimed q @ [Render frame]\<rparr>)"
  by (simp add: queue_ok_def waiting_render_def)

lemma drained_ok:
  "queue_ok q \<Longrightarrow> cq_phase q \<noteq> Aborted \<Longrightarrow> cq_control q = [] \<Longrightarrow> cq_ordered q = [] \<Longrightarrow> cq_render q = None \<Longrightarrow>
     queue_ok (q\<lparr>cq_phase := Draining\<rparr>)"
  by (simp add: queue_ok_def waiting_render_def)

lemma recv_turn_ok: "queue_ok q \<Longrightarrow> queue_ok (snd (recv_turn q))"
  by (simp add: recv_turn_def claim_control_ok claim_ordered_ok claim_render_ok drained_ok split: list.split option.split)

lemma mark_closed_ok: "queue_ok q \<Longrightarrow> cq_phase q \<in> {Draining, Closed, Aborted} \<Longrightarrow> queue_ok (mark_closed q)"
  by (auto simp: mark_closed_def queue_ok_def waiting_render_def)

lemma notifications_ok:
  "queue_ok q \<Longrightarrow> queue_ok (snd (take_transport_notifications q))"
  "queue_ok q \<Longrightarrow> queue_ok (snd (acknowledge_transport_drain q))"
  "queue_ok q \<Longrightarrow> queue_ok (defer_endpoint_credit q)"
  "queue_ok q \<Longrightarrow> queue_ok (snd (complete_event q))"
  "queue_ok q \<Longrightarrow> queue_ok (snd (defer_removal_for_accepted_events q))"
  "queue_ok q \<Longrightarrow> queue_ok (fst (notify_disconnect chan_send client_id detached (q, ch)))"
  "queue_ok q \<Longrightarrow> queue_ok (fst (notify_credit chan_send client_id render (q, ch)))"
  "queue_ok q \<Longrightarrow> queue_ok (fst (snd (send_client_event chan_send event quit late (q, ch))))"
  by (simp_all add: take_transport_notifications_def acknowledge_transport_drain_def defer_endpoint_credit_def
      complete_event_def defer_removal_for_accepted_events_def notify_disconnect_def notify_credit_def
      send_client_event_def Let_def seal_ok split: sum.split channel_error.split)

lemmas queue_ops_ok =
  seal_ok abort_locked_ok send_control_ok try_send_endpoint_frame_ok try_send_render_ok discard_pending_render_ok
  send_ordered_ok shutdown_ok recv_turn_ok notifications_ok

end
