(* ===== verification/ClientLink.thy ===== *)
theory ClientLink
  imports ClientQueue
begin

section \<open>The threads of a client connection\<close>

text \<open>
  The three threads that work on the queue of one client, from the end of the handshake on: the write
  thread (\<open>run_client_writer\<close>), the read thread (\<open>client_read_loop_with_endpoint_controls\<close> with the registration before
  it, both in \<open>src/src/server/client_transport.rs\<close>), and the server thread as far as it handles the events
  of this client (\<open>handle_server_event_with_render_impact\<close>, \<open>remove_client\<close> and the
  transport notifications of \<open>drain_server_events\<close> in \<open>src/src/server/headless.rs\<close>).

  Each critical section, each atomic operation and each operation on the channel or the socket is one turn of
  its thread, and the turns interleave freely.  Arguments of a turn are what the
  environment decides: whether the server quits, what was read, whether writing to the socket worked, whether a
  live update is in progress.  Events of other clients enter the shared channel at any time.
  What is done with the contents of a client's event belongs to other components; here the event is
  taken up and, later, acknowledged.
\<close>

datatype writer_place =
    AtRecv
  | Asleep
  | Claimed client_write_item
  | Crediting "byte list"
  | Writing "byte list"
  | LoopLeft
  | FinishingStream
  | WriterNotifying
  | WriterEnding
  | WriterGone

datatype 'e reader_place =
    Connecting
  | ConnectionRefused
  | Guarding
  | Receiving
  | Sending 'e
  | LeavingLoop bool
  | ReaderNotifying bool
  | ReaderEnding
  | ReaderGone

datatype 'e client_input =
    MessageEvent 'e
  | ControlReply "byte list"
  | MessageIgnored
  | DetachMessage
  | ReadFailed
  | ObserveFailed

text \<open>Whether the client is among the clients of the server.\<close>

datatype membership = NotYet | Member | Rejected | Removed

text \<open>The event the server thread is at, and whether it will be acknowledged.\<close>

datatype 'e dispatch = Idle | Handling "'e server_event" bool | Handled bool

record ('c, 'e) client_link =
  cl_queue :: client_queue
  cl_events :: 'c
  cl_writer :: writer_place
  cl_reader :: "'e reader_place"
  cl_member :: membership
  cl_dispatch :: "'e dispatch"
  cl_written :: "byte list list"
  cl_accepted :: "'e list"
  cl_taken_up :: "'e list"

definition link_new :: "'c \<Rightarrow> ('c, 'e) client_link" where
  "link_new events =
     \<lparr>cl_queue = (attach True (add_sender (add_sender client_queue_new)))\<lparr>cq_registration := True\<rparr>, cl_events = events,
      cl_writer = AtRecv, cl_reader = Connecting, cl_member = NotYet, cl_dispatch = Idle,
      cl_written = [], cl_accepted = [], cl_taken_up = []\<rparr>"

subsection \<open>The write thread\<close>

definition writer_turn ::
    "('c \<Rightarrow> 'e server_event \<Rightarrow> channel_error + 'c) \<Rightarrow> u64 \<Rightarrow> bool \<Rightarrow> bool \<Rightarrow> ('c, 'e) client_link \<Rightarrow> ('c, 'e) client_link" where
  "writer_turn chan_send client_id written finished st =
     (let q = cl_queue st in
      case cl_writer st of
        AtRecv \<Rightarrow>
          (case recv_turn q of
             (Took item, q') \<Rightarrow> st\<lparr>cl_queue := q', cl_writer := Claimed item\<rparr>
           | (TookNone, q') \<Rightarrow> st\<lparr>cl_queue := q', cl_writer := LoopLeft\<rparr>
           | (Slept, q') \<Rightarrow> st\<lparr>cl_queue := q', cl_writer := Asleep\<rparr>)
      | Asleep \<Rightarrow> st\<lparr>cl_writer := AtRecv\<rparr>
      | Claimed (Control frame) \<Rightarrow>
          if cq_endpoint_waiting q
          then st\<lparr>cl_queue := q\<lparr>cq_endpoint_waiting := False\<rparr>, cl_writer := Crediting frame\<rparr>
          else st\<lparr>cl_writer := Writing frame\<rparr>
      | Claimed (Render frame) \<Rightarrow>
          (case notify_credit chan_send client_id True (q, cl_events st) of
             (q', ch) \<Rightarrow> st\<lparr>cl_queue := q', cl_events := ch, cl_writer := Writing frame\<rparr>)
      | Crediting frame \<Rightarrow>
          (case notify_credit chan_send client_id False (q, cl_events st) of
             (q', ch) \<Rightarrow> st\<lparr>cl_queue := q', cl_events := ch, cl_writer := Writing frame\<rparr>)
      | Writing frame \<Rightarrow>
          if written then st\<lparr>cl_writer := AtRecv, cl_written := cl_written st @ [frame]\<rparr>
          else st\<lparr>cl_queue := abort_locked q, cl_writer := LoopLeft\<rparr>
      | LoopLeft \<Rightarrow> st\<lparr>cl_writer := (if cq_phase q \<noteq> Aborted then FinishingStream else WriterNotifying)\<rparr>
      | FinishingStream \<Rightarrow>
          st\<lparr>cl_queue := (if finished then mark_closed q else abort_locked q), cl_writer := WriterNotifying\<rparr>
      | WriterNotifying \<Rightarrow>
          (case notify_disconnect chan_send client_id False (q, cl_events st) of
             (q', ch) \<Rightarrow> st\<lparr>cl_queue := q', cl_events := ch, cl_writer := WriterEnding\<rparr>)
      | WriterEnding \<Rightarrow> st\<lparr>cl_queue := worker_done False q, cl_writer := WriterGone\<rparr>
      | WriterGone \<Rightarrow> st)"

subsection \<open>The read thread\<close>

text \<open>The last message of a refused connection is \<open>encoded\<close>.\<close>

definition reader_turn ::
    "('c \<Rightarrow> 'e server_event \<Rightarrow> channel_error + 'c) \<Rightarrow> u64 \<Rightarrow> bool \<Rightarrow> bool \<Rightarrow> framing_error + byte list \<Rightarrow> 'e client_input \<Rightarrow>
     ('c, 'e) client_link \<Rightarrow> ('c, 'e) client_link" where
  "reader_turn chan_send client_id should_quit past_deadline encoded input st =
     (let q = cl_queue st in
      case cl_reader st of
        Connecting \<Rightarrow>
          (case send_client_event chan_send (ClientConnected client_id) should_quit past_deadline (q, cl_events st) of
             (EventAccepted, q', ch) \<Rightarrow> st\<lparr>cl_queue := q', cl_events := ch, cl_reader := Guarding\<rparr>
           | (EventRefused, q', ch) \<Rightarrow> st\<lparr>cl_reader := ConnectionRefused\<rparr>
           | (EventRetry, q', ch) \<Rightarrow> st)
      | ConnectionRefused \<Rightarrow> st\<lparr>cl_queue := shutdown encoded None q, cl_reader := ReaderEnding\<rparr>
      | Guarding \<Rightarrow> st\<lparr>cl_reader := (if \<not> should_quit \<and> cq_phase q = Open then Receiving else LeavingLoop False)\<rparr>
      | Receiving \<Rightarrow>
          (case input of
             MessageEvent e \<Rightarrow> st\<lparr>cl_reader := Sending e\<rparr>
           | ControlReply frame \<Rightarrow>
               (case send_control frame q of
                  (Inr _, q') \<Rightarrow> st\<lparr>cl_queue := q', cl_reader := Guarding\<rparr>
                | (Inl _, q') \<Rightarrow> st\<lparr>cl_queue := q', cl_reader := LeavingLoop False\<rparr>)
           | MessageIgnored \<Rightarrow> st\<lparr>cl_reader := Guarding\<rparr>
           | DetachMessage \<Rightarrow> st\<lparr>cl_reader := LeavingLoop True\<rparr>
           | ReadFailed \<Rightarrow> st\<lparr>cl_reader := LeavingLoop False\<rparr>
           | ObserveFailed \<Rightarrow> st\<lparr>cl_queue := abort_locked q, cl_reader := ReaderNotifying False\<rparr>)
      | Sending e \<Rightarrow>
          (case send_client_event chan_send (ClientEvent client_id e) should_quit False (q, cl_events st) of
             (EventAccepted, q', ch) \<Rightarrow>
               st\<lparr>cl_queue := q', cl_events := ch, cl_reader := Guarding, cl_accepted := cl_accepted st @ [e]\<rparr>
           | (EventRefused, q', ch) \<Rightarrow> st\<lparr>cl_reader := LeavingLoop False\<rparr>
           | (EventRetry, q', ch) \<Rightarrow> st)
      | LeavingLoop detached \<Rightarrow>
          st\<lparr>cl_queue := (if cq_phase q = Open \<and> \<not> detached \<and> \<not> should_quit then abort_locked q else q),
             cl_reader := ReaderNotifying detached\<rparr>
      | ReaderNotifying detached \<Rightarrow>
          (case notify_disconnect chan_send client_id detached (q, cl_events st) of
             (q', ch) \<Rightarrow> st\<lparr>cl_queue := q', cl_events := ch, cl_reader := ReaderEnding\<rparr>)
      | ReaderEnding \<Rightarrow> st\<lparr>cl_queue := worker_done True q, cl_reader := ReaderGone\<rparr>
      | ReaderGone \<Rightarrow> st)"

subsection \<open>The server thread\<close>

fun event_client :: "'e server_event \<Rightarrow> u64 option" where
  "event_client (ClientConnected c) = Some c"
| "event_client (ClientEvent c e) = Some c"
| "event_client (ClientDetach c) = Some c"
| "event_client (ClientDisconnected c) = Some c"
| "event_client (ClientWriterDrained c) = Some c"
| "event_client NoClientEvent = None"

fun ignore_client_event_during_handoff :: "'e server_event \<Rightarrow> bool" where
  "ignore_client_event_during_handoff (ClientConnected c) = False"
| "ignore_client_event_during_handoff (ClientDisconnected c) = False"
| "ignore_client_event_during_handoff (ClientWriterDrained c) = False"
| "ignore_client_event_during_handoff NoClientEvent = False"
| "ignore_client_event_during_handoff _ = True"

text \<open>An event is taken from the channel; what is acknowledged afterwards is fixed now.\<close>

definition server_receive ::
    "('c \<Rightarrow> ('e server_event \<times> 'c) option) \<Rightarrow> u64 \<Rightarrow> ('c, 'e) client_link \<Rightarrow> ('c, 'e) client_link" where
  "server_receive chan_recv client_id st =
     (case chan_recv (cl_events st) of
        None \<Rightarrow> st
      | Some (event, ch) \<Rightarrow>
          st\<lparr>cl_events := ch,
             cl_dispatch := Handling event
               (case event of
                  ClientConnected c \<Rightarrow> c = client_id
                | _ \<Rightarrow> transport_client_id event = Some client_id \<and> cl_member st = Member)\<rparr>)"

definition remove_client :: "('c, 'e) client_link \<Rightarrow> ('c, 'e) client_link" where
  "remove_client st =
     (if cl_member st \<noteq> Member then st
      else case defer_removal_for_accepted_events (cl_queue st) of
             (True, q) \<Rightarrow> st\<lparr>cl_queue := q\<rparr>
           | (False, q) \<Rightarrow> st\<lparr>cl_queue := seal None q, cl_member := Removed\<rparr>)"

definition handle_server_event ::
    "u64 \<Rightarrow> bool \<Rightarrow> framing_error + byte list \<Rightarrow> 'e server_event \<Rightarrow> ('c, 'e) client_link \<Rightarrow> ('c, 'e) client_link" where
  "handle_server_event client_id handoff_in_progress encoded event st =
     (if event_client event \<noteq> Some client_id then st
      else if handoff_in_progress \<and> ignore_client_event_during_handoff event
      then (case event of ClientEvent c e \<Rightarrow> st\<lparr>cl_taken_up := cl_taken_up st @ [e]\<rparr> | _ \<Rightarrow> st)
      else case event of
             ClientConnected c \<Rightarrow>
               if handoff_in_progress then st\<lparr>cl_queue := shutdown encoded None (cl_queue st), cl_member := Rejected\<rparr>
               else st\<lparr>cl_member := Member\<rparr>
           | ClientEvent c e \<Rightarrow> st\<lparr>cl_taken_up := cl_taken_up st @ [e]\<rparr>
           | ClientDetach c \<Rightarrow> remove_client st
           | ClientDisconnected c \<Rightarrow> remove_client st
           | ClientWriterDrained c \<Rightarrow>
               if cl_member st = Member then st\<lparr>cl_queue := snd (acknowledge_transport_drain (cl_queue st))\<rparr> else st
           | NoClientEvent \<Rightarrow> st)"

definition server_handle ::
    "u64 \<Rightarrow> bool \<Rightarrow> framing_error + byte list \<Rightarrow> ('c, 'e) client_link \<Rightarrow> ('c, 'e) client_link" where
  "server_handle client_id handoff_in_progress encoded st =
     (case cl_dispatch st of
        Handling event acknowledged \<Rightarrow>
          (handle_server_event client_id handoff_in_progress encoded event st)\<lparr>cl_dispatch := Handled acknowledged\<rparr>
      | _ \<Rightarrow> st)"

definition server_complete :: "('c, 'e) client_link \<Rightarrow> ('c, 'e) client_link" where
  "server_complete st =
     (case cl_dispatch st of
        Handled acknowledged \<Rightarrow>
          st\<lparr>cl_queue := (if acknowledged then snd (complete_event (cl_queue st)) else cl_queue st), cl_dispatch := Idle\<rparr>
      | _ \<Rightarrow> st)"

text \<open>The notifications that did not fit into the channel are taken from the queue.\<close>

definition server_take_notifications :: "u64 \<Rightarrow> ('c, 'e) client_link \<Rightarrow> ('c, 'e) client_link" where
  "server_take_notifications client_id st =
     (if cq_notification_pending (cl_queue st)
      then case take_transport_notifications (cl_queue st) of
             ((Some True, _), q) \<Rightarrow> st\<lparr>cl_queue := q, cl_dispatch := Handling (ClientDetach client_id) False\<rparr>
           | ((Some False, _), q) \<Rightarrow> st\<lparr>cl_queue := q, cl_dispatch := Handling (ClientDisconnected client_id) False\<rparr>
           | ((None, True), q) \<Rightarrow> st\<lparr>cl_queue := q, cl_dispatch := Handling (ClientWriterDrained client_id) False\<rparr>
           | ((None, False), q) \<Rightarrow> st\<lparr>cl_queue := q\<rparr>
      else st)"

subsection \<open>Calls on the queue\<close>

text \<open>
  The handles of a client allow calls from anywhere in the server; the render frames, the frames of endpoint
  responses and their credits are the business of the server thread, as long as the client is a member.
\<close>

datatype queue_call =
    SendControl "byte list"
  | Shutdown "framing_error + byte list" "nat option"
  | Seal "nat option"
  | Abort
  | CloneHandle
  | DropHandle
  | SendEndpointFrame "byte list"
  | SendRender "byte list"
  | SendOrdered "byte list"
  | DiscardRender
  | DeferEndpointCredit

fun perform :: "queue_call \<Rightarrow> client_queue \<Rightarrow> client_queue" where
  "perform (SendControl frame) q = snd (send_control frame q)"
| "perform (Shutdown encoded deadline) q = shutdown encoded deadline q"
| "perform (Seal deadline) q = seal deadline q"
| "perform Abort q = abort_locked q"
| "perform CloneHandle q = add_sender q"
| "perform DropHandle q = remove_sender q"
| "perform (SendEndpointFrame frame) q = snd (try_send_endpoint_frame frame q)"
| "perform (SendRender frame) q = snd (try_send_render frame q)"
| "perform (SendOrdered frame) q = snd (send_ordered frame q)"
| "perform DiscardRender q = discard_pending_render q"
| "perform DeferEndpointCredit q = defer_endpoint_credit q"

text \<open>An endpoint response is sent in chunks, which fit into the part of the backlog that is not reserved.\<close>

definition endpoint_frame_limit :: usize where
  "endpoint_frame_limit = MAX_CLIENT_CONTROL_BACKLOG_BYTES - ENDPOINT_RESERVED_CONTROL_BYTES"

fun may_call :: "membership \<Rightarrow> queue_call \<Rightarrow> bool" where
  "may_call m (SendEndpointFrame frame) \<longleftrightarrow> m = Member \<and> length frame \<le> endpoint_frame_limit"
| "may_call m (SendRender frame) \<longleftrightarrow> m = Member"
| "may_call m (SendOrdered frame) \<longleftrightarrow> m = Member"
| "may_call m DiscardRender \<longleftrightarrow> m = Member"
| "may_call m DeferEndpointCredit \<longleftrightarrow> m = Member"
| "may_call m _ \<longleftrightarrow> True"

inductive link_step ::
    "('c \<Rightarrow> 'e server_event \<Rightarrow> channel_error + 'c) \<Rightarrow> ('c \<Rightarrow> ('e server_event \<times> 'c) option) \<Rightarrow> u64 \<Rightarrow>
     ('c, 'e) client_link \<Rightarrow> ('c, 'e) client_link \<Rightarrow> bool"
  for chan_send chan_recv client_id where
  writer_acts: "link_step chan_send chan_recv client_id st (writer_turn chan_send client_id written finished st)"
| reader_acts: "link_step chan_send chan_recv client_id st (reader_turn chan_send client_id quit late encoded input st)"
| event_received: "cl_dispatch st = Idle \<Longrightarrow> link_step chan_send chan_recv client_id st (server_receive chan_recv client_id st)"
| event_handled: "link_step chan_send chan_recv client_id st (server_handle client_id handoff encoded st)"
| event_completed: "link_step chan_send chan_recv client_id st (server_complete st)"
| notifications_taken: "cl_dispatch st = Idle \<Longrightarrow> cl_member st = Member \<Longrightarrow>
    link_step chan_send chan_recv client_id st (server_take_notifications client_id st)"
| client_removed: "link_step chan_send chan_recv client_id st (remove_client st)"
| called: "may_call (cl_member st) call \<Longrightarrow>
    link_step chan_send chan_recv client_id st (st\<lparr>cl_queue := perform call (cl_queue st)\<rparr>)"
| other_event: "event_client event \<noteq> Some client_id \<Longrightarrow> chan_send (cl_events st) event = Inr ch \<Longrightarrow>
    link_step chan_send chan_recv client_id st (st\<lparr>cl_events := ch\<rparr>)"

inductive_cases link_stepE: "link_step chan_send chan_recv client_id st st'"

section \<open>What all threads do to the queue\<close>

text \<open>
  Apart from the turns in which the write thread claims a frame or marks the queue closed, a turn
  makes calls on the queue or changes notices only.
\<close>

definition frames_part :: "client_queue \<Rightarrow> client_queue" where
  "frames_part q = client_queue_new\<lparr>cq_control := cq_control q, cq_control_bytes := cq_control_bytes q, cq_ordered := cq_ordered q,
     cq_render := cq_render q, cq_senders := cq_senders q, cq_phase := cq_phase q,
     cq_endpoint_waiting := cq_endpoint_waiting q, cq_notified := cq_notified q,
     cq_accepted_control := cq_accepted_control q, cq_accepted_render := cq_accepted_render q, cq_claimed := cq_claimed q\<rparr>"

lemma frames_part_eq:
  "frames_part q' = frames_part q \<longleftrightarrow>
     cq_control q' = cq_control q \<and> cq_control_bytes q' = cq_control_bytes q \<and> cq_ordered q' = cq_ordered q \<and>
     cq_render q' = cq_render q \<and> cq_senders q' = cq_senders q \<and> cq_phase q' = cq_phase q \<and> cq_notified q' = cq_notified q \<and>
     cq_endpoint_waiting q' = cq_endpoint_waiting q \<and>
     cq_accepted_control q' = cq_accepted_control q \<and> cq_accepted_render q' = cq_accepted_render q \<and> cq_claimed q' = cq_claimed q"
  by (auto simp: frames_part_def client_queue_new_def)

inductive queue_op :: "membership \<Rightarrow> client_queue \<Rightarrow> client_queue \<Rightarrow> bool" for m where
  by_call: "may_call m call \<Longrightarrow> queue_op m q (perform call q)"
| by_notice: "frames_part q' = frames_part q \<Longrightarrow> queue_op m q q'"

lemma queue_op_refl [simp]: "queue_op m q q"
  by (rule by_notice) simp

lemma frames_part_notices [simp]:
  "frames_part (publish_notifications q) = frames_part q"
  "frames_part (worker_done r q) = frames_part q"
  "frames_part (snd (complete_event q)) = frames_part q"
  "frames_part (snd (acknowledge_transport_drain q)) = frames_part q"
  "frames_part (snd (take_transport_notifications q)) = frames_part q"
  by (auto simp: frames_part_eq publish_notifications_def worker_done_def complete_event_def acknowledge_transport_drain_def
      take_transport_notifications_def Let_def)

lemma frames_part_sends:
  "notify_credit chan_send client_id r (q, ch) = (q', ch') \<Longrightarrow> frames_part q' = frames_part q"
  "notify_disconnect chan_send client_id d (q, ch) = (q', ch') \<Longrightarrow> frames_part q' = frames_part q"
  "send_client_event chan_send event quit late (q, ch) = (r', q', ch') \<Longrightarrow> frames_part q' = frames_part q"
  by (auto simp: frames_part_eq notify_credit_def notify_disconnect_def send_client_event_def publish_notifications_def Let_def
      split: if_splits sum.splits channel_error.splits)

lemma queue_op_calls:
  "queue_op m q (abort_locked q)" "queue_op m q (seal d q)" "queue_op m q (shutdown encoded d q)"
  "send_control frame q = (r, q') \<Longrightarrow> queue_op m q q'"
  using by_call [of m Abort q] by_call [of m "Seal d" q] by_call [of m "Shutdown encoded d" q] by_call [of m "SendControl frame" q] by auto

lemma queue_op_sends:
  "notify_credit chan_send client_id r (q, ch) = (q', ch') \<Longrightarrow> queue_op m q q'"
  "notify_disconnect chan_send client_id d (q, ch) = (q', ch') \<Longrightarrow> queue_op m q q'"
  "send_client_event chan_send event quit late (q, ch) = (r', q', ch') \<Longrightarrow> queue_op m q q'"
  "take_transport_notifications q = (n, q') \<Longrightarrow> queue_op m q q'"
  "queue_op m q (worker_done w q)" "queue_op m q (snd (complete_event q))" "queue_op m q (snd (acknowledge_transport_drain q))"
  using frames_part_notices(5) [of q] by (auto intro: by_notice frames_part_sends)

text \<open>A turn of the reader sends an event, closes, or replies; it leaves the write thread where it is.\<close>

lemma reader_turn_queue:
  "queue_op m (cl_queue st) (cl_queue (reader_turn chan_send client_id quit late encoded input st)) \<and>
   cl_writer (reader_turn chan_send client_id quit late encoded input st) = cl_writer st \<and>
   cl_written (reader_turn chan_send client_id quit late encoded input st) = cl_written st"
proof (cases "cl_reader st")
  case Connecting
  then show ?thesis by (simp add: reader_turn_def Let_def queue_op_sends(3) split: prod.split send_attempt.split)
next
  case Receiving
  then show ?thesis
    by (cases input) (simp_all add: reader_turn_def Let_def queue_op_calls split: prod.split sum.split)
next
  case (Sending e)
  then show ?thesis by (simp add: reader_turn_def Let_def queue_op_sends(3) split: prod.split send_attempt.split)
next
  case (ReaderNotifying detached)
  then show ?thesis by (simp add: reader_turn_def Let_def queue_op_sends(2) split: prod.split)
qed (simp_all add: reader_turn_def Let_def queue_op_calls queue_op_sends(5))

lemma defer_removal_queue:
  assumes "defer_removal_for_accepted_events q = (b, q')"
  shows "(queue_op m)\<^sup>*\<^sup>* q q'"
proof -
  define q1 where "q1 = (if cq_disconnect_notified q then q
      else publish_notifications (q\<lparr>cq_disconnect_notified := True, cq_disconnect_pending := Some False\<rparr>))"
  have "queue_op m q q1" by (rule by_notice) (simp add: q1_def frames_part_eq publish_notifications_def)
  then have "(queue_op m)\<^sup>*\<^sup>* q (seal None q1)" by (meson converse_rtranclp_into_rtranclp queue_op_calls(2) r_into_rtranclp)
  moreover have "queue_op m q (q\<lparr>cq_disconnect_notified := True\<rparr>)" by (rule by_notice) (simp add: frames_part_eq)
  ultimately show ?thesis
    using assms by (cases "cq_pending_events q = 0")
      (auto simp: defer_removal_for_accepted_events_def q1_def Let_def split: if_splits)
qed

lemma remove_client_queue: "(queue_op m)\<^sup>*\<^sup>* (cl_queue st) (cl_queue (remove_client st))"
  by (auto simp: remove_client_def split: prod.split bool.split dest: defer_removal_queue
      intro: rtranclp.rtrancl_into_rtrancl queue_op_calls(2))

lemma handle_server_event_queue:
  "(queue_op m)\<^sup>*\<^sup>* (cl_queue st) (cl_queue (handle_server_event client_id handoff encoded event st))"
  by (cases event) (auto simp: handle_server_event_def intro: remove_client_queue queue_op_calls queue_op_sends)

lemma take_notifications_queue:
  "queue_op m (cl_queue st) (cl_queue (server_take_notifications client_id st)) \<and>
   cl_writer (server_take_notifications client_id st) = cl_writer st \<and> cl_written (server_take_notifications client_id st) = cl_written st"
  by (simp add: server_take_notifications_def queue_op_sends(4) split: prod.split option.split bool.split)

text \<open>Every turn of a thread other than the write thread.\<close>

lemma other_threads_queue:
  assumes "link_step chan_send chan_recv client_id st st'"
  shows "(\<exists>written finished. st' = writer_turn chan_send client_id written finished st) \<or>
    (queue_op (cl_member st))\<^sup>*\<^sup>* (cl_queue st) (cl_queue st') \<and> cl_writer st' = cl_writer st \<and> cl_written st' = cl_written st"
  using assms
proof cases
  case (reader_acts quit late encoded input)
  then show ?thesis using reader_turn_queue [of _ st] by blast
next
  case event_received
  then show ?thesis by (auto simp: server_receive_def split: option.split)
next
  case (event_handled handoff encoded)
  have "cl_writer (handle_server_event client_id handoff encoded ev st) = cl_writer st \<and>
      cl_written (handle_server_event client_id handoff encoded ev st) = cl_written st" for ev
    by (cases ev) (auto simp: handle_server_event_def remove_client_def split: prod.split bool.split)
  then show ?thesis unfolding event_handled using handle_server_event_queue [of _ st client_id handoff encoded]
    by (auto simp: server_handle_def split: dispatch.split)
next
  case event_completed
  then show ?thesis by (auto simp: server_complete_def queue_op_sends split: dispatch.split)
next
  case notifications_taken
  then show ?thesis using take_notifications_queue [of _ st] by blast
next
  case client_removed
  then show ?thesis using remove_client_queue [of _ st] by (auto simp: remove_client_def split: prod.split bool.split)
next
  case (called call)
  then show ?thesis using by_call by auto
qed auto

subsection \<open>Calls keep the invariant, and phases only advance\<close>

lemma frames_part_queue_ok: "frames_part q' = frames_part q \<Longrightarrow> queue_ok q' = queue_ok q"
  unfolding frames_part_eq by (elim conjE) (simp only: queue_ok_def waiting_render_def)

lemma perform_ok: "queue_ok q \<Longrightarrow> queue_ok (perform call q)"
  by (cases call) (simp_all add: queue_ops_ok)

lemma queue_op_ok: "queue_op m q q' \<Longrightarrow> queue_ok q \<Longrightarrow> queue_ok q'"
  by (erule queue_op.cases) (use perform_ok frames_part_queue_ok in blast)+

interpretation queue_run: kept_by_steps "queue_op m" queue_ok
  by unfold_locales (rule queue_op_ok)

fun phase_rank :: "client_close_state \<Rightarrow> nat" where
  "phase_rank Open = 0"
| "phase_rank Sealed = 1"
| "phase_rank Draining = 2"
| "phase_rank Closed = 3"
| "phase_rank Aborted = 3"

definition advances :: "client_close_state \<Rightarrow> client_close_state \<Rightarrow> bool" where
  "advances p p' \<longleftrightarrow> p' = p \<or> phase_rank p < phase_rank p'"

lemma advances_refl [simp]: "advances p p"
  by (simp add: advances_def)

lemma advances_trans: "advances a b \<Longrightarrow> advances b c \<Longrightarrow> advances a c"
  by (auto simp: advances_def)

text \<open>A call that is not a turn of the write thread seals or aborts, if it changes the phase.\<close>

definition call_phase :: "client_close_state \<Rightarrow> client_close_state \<Rightarrow> bool" where
  "call_phase p p' \<longleftrightarrow> p' = p \<or> (p = Open \<and> p' = Sealed) \<or> (p \<noteq> Closed \<and> p' = Aborted)"

lemma call_phase_trans: "call_phase a b \<Longrightarrow> call_phase b c \<Longrightarrow> call_phase a c"
  by (auto simp: call_phase_def)

lemma call_phase_advances: "call_phase p p' \<Longrightarrow> advances p p'"
  by (cases p) (auto simp: call_phase_def advances_def)

lemma notify_all_fields [simp]:
  "cq_phase (notify_all q) = cq_phase q" "cq_claimed (notify_all q) = cq_claimed q" "cq_notified (notify_all q)"
  "cq_phase (io_do c q) = cq_phase q" "cq_claimed (io_do c q) = cq_claimed q"
  "cq_phase (push_control b f q) = cq_phase q" "cq_claimed (push_control b f q) = cq_claimed q"
  by (simp_all add: notify_all_def io_do_def push_control_def)

lemma perform_phase: "call_phase (cq_phase q) (cq_phase (perform call q)) \<and> cq_claimed (perform call q) = cq_claimed q"
  by (cases call)
    (auto simp: call_phase_def send_control_def shutdown_def seal_def abort_locked_def add_sender_def remove_sender_def
      try_send_endpoint_frame_def try_send_render_def send_ordered_def discard_pending_render_def defer_endpoint_credit_def
      publish_notifications_def Let_def split: sum.split option.split)

lemma queue_ops_phase: "(queue_op m)\<^sup>*\<^sup>* q q' \<Longrightarrow> call_phase (cq_phase q) (cq_phase q') \<and> cq_claimed q' = cq_claimed q"
proof (induction rule: rtranclp_induct)
  case (step q' q'')
  from step(2) have "call_phase (cq_phase q') (cq_phase q'') \<and> cq_claimed q'' = cq_claimed q'"
    by cases (use perform_phase in \<open>simp_all add: frames_part_eq call_phase_def\<close>)
  with step(3) show ?case using call_phase_trans by metis
qed (simp add: call_phase_def)

text \<open>Whatever could give a sleeping write thread something to do wakes it.\<close>

definition would_sleep :: "client_queue \<Rightarrow> bool" where
  "would_sleep q \<longleftrightarrow> fst (recv_turn q) = Slept"

lemma would_sleep_iff:
  "would_sleep q \<longleftrightarrow> cq_phase q = Open \<and> cq_control q = [] \<and> cq_ordered q = [] \<and> cq_render q = None \<and> cq_senders q \<noteq> 0"
  by (auto simp: would_sleep_def recv_turn_def split: list.split option.split)

lemma perform_wakes: "cq_notified q \<or> would_sleep q \<Longrightarrow> cq_notified (perform call q) \<or> would_sleep (perform call q)"
proof (cases call)
  case (Shutdown encoded deadline)
  assume "cq_notified q \<or> would_sleep q"
  then show ?thesis unfolding Shutdown
    by (auto simp: shutdown_def seal_def abort_locked_def would_sleep_iff Let_def split: sum.split)
qed (auto simp: would_sleep_iff send_control_def seal_def abort_locked_def add_sender_def remove_sender_def sat_add_def u64_max_def
      try_send_endpoint_frame_def try_send_render_def send_ordered_def discard_pending_render_def defer_endpoint_credit_def
      publish_notifications_def Let_def)

lemma queue_ops_wake: "(queue_op m)\<^sup>*\<^sup>* q q' \<Longrightarrow> cq_notified q \<or> would_sleep q \<Longrightarrow> cq_notified q' \<or> would_sleep q'"
proof (induction rule: rtranclp_induct)
  case (step q' q'')
  from step(2) step(3) [OF step(4)] show ?case
    by cases (use perform_wakes in \<open>auto simp: frames_part_eq would_sleep_iff\<close>)
qed

subsection \<open>Where the frames are\<close>

fun item_frame :: "client_write_item \<Rightarrow> byte list" where
  "item_frame (Control frame) = frame"
| "item_frame (Render frame) = frame"

fun in_flight :: "writer_place \<Rightarrow> byte list list" where
  "in_flight (Claimed item) = [item_frame item]"
| "in_flight (Crediting frame) = [frame]"
| "in_flight (Writing frame) = [frame]"
| "in_flight _ = []"

fun in_loop :: "writer_place \<Rightarrow> bool" where
  "in_loop LoopLeft = False"
| "in_loop FinishingStream = False"
| "in_loop WriterNotifying = False"
| "in_loop WriterEnding = False"
| "in_loop WriterGone = False"
| "in_loop _ = True"

definition places_ok :: "client_close_state \<Rightarrow> writer_place \<Rightarrow> bool" where
  "places_ok p w \<longleftrightarrow>
     (in_loop w \<longrightarrow> p \<in> {Open, Sealed, Aborted}) \<and> (w \<in> {LoopLeft, FinishingStream} \<longrightarrow> p \<in> {Draining, Aborted}) \<and>
     (w \<in> {WriterNotifying, WriterEnding, WriterGone} \<longrightarrow> p \<in> {Closed, Aborted})"

definition written_ok :: "client_close_state \<Rightarrow> writer_place \<Rightarrow> byte list list \<Rightarrow> byte list list \<Rightarrow> bool" where
  "written_ok p w written claimed \<longleftrightarrow>
     prefix written claimed \<and> (in_loop w \<or> p \<noteq> Aborted \<longrightarrow> claimed = written @ in_flight w)"

definition frames_inv :: "('c, 'e) client_link \<Rightarrow> bool" where
  "frames_inv st \<longleftrightarrow> queue_ok (cl_queue st) \<and> places_ok (cq_phase (cl_queue st)) (cl_writer st) \<and>
     (cl_writer st = Asleep \<longrightarrow> cq_notified (cl_queue st) \<or> would_sleep (cl_queue st)) \<and>
     written_ok (cq_phase (cl_queue st)) (cl_writer st) (cl_written st) (map item_frame (cq_claimed (cl_queue st)))"

lemma frames_inv_new: "frames_inv (link_new events)"
proof -
  have "queue_ok (cl_queue (link_new events))" using queue_ok_new by (simp add: link_new_def)
  moreover have "cq_phase (cl_queue (link_new events)) = Open" "cq_claimed (cl_queue (link_new events)) = []"
    by (simp_all add: link_new_def attach_def add_sender_def client_queue_new_def)
  ultimately show ?thesis by (simp add: frames_inv_def places_ok_def written_ok_def) (simp add: link_new_def)
qed

lemma places_ok_call: "places_ok p w \<Longrightarrow> call_phase p p' \<Longrightarrow> places_ok p' w"
  by (cases w) (auto simp: places_ok_def call_phase_def)

lemma written_ok_call: "written_ok p w xs ys \<Longrightarrow> call_phase p p' \<Longrightarrow> written_ok p' w xs ys"
  by (auto simp: written_ok_def call_phase_def)

lemma others_keep_frames:
  assumes "frames_inv st" and "(queue_op m)\<^sup>*\<^sup>* (cl_queue st) (cl_queue st')" "cl_writer st' = cl_writer st" "cl_written st' = cl_written st"
  shows "frames_inv st'"
proof -
  note p = conjunct1 [OF queue_ops_phase [OF assms(2)]] conjunct2 [OF queue_ops_phase [OF assms(2)]]
  have inv: "queue_ok (cl_queue st)" "places_ok (cq_phase (cl_queue st)) (cl_writer st)"
    "cl_writer st = Asleep \<longrightarrow> cq_notified (cl_queue st) \<or> would_sleep (cl_queue st)"
    "written_ok (cq_phase (cl_queue st)) (cl_writer st) (cl_written st) (map item_frame (cq_claimed (cl_queue st)))"
    using assms(1) by (simp_all add: frames_inv_def)
  show ?thesis unfolding frames_inv_def assms(3,4) p(2)
    using queue_run.run_keeps [OF assms(2) inv(1)] places_ok_call [OF inv(2) p(1)] written_ok_call [OF inv(4) p(1)]
      queue_ops_wake [OF assms(2)] inv(3) by simp
qed

lemma recv_turn_cases:
  assumes "recv_turn q = (r, q')"
  shows "case r of
      Took item \<Rightarrow> cq_phase q' = cq_phase q \<and> cq_phase q \<notin> {Closed, Aborted} \<and> cq_claimed q' = cq_claimed q @ [item]
    | TookNone \<Rightarrow> cq_claimed q' = cq_claimed q \<and>
        (if cq_phase q \<in> {Closed, Aborted} then cq_phase q' = cq_phase q else cq_phase q' = Draining)
    | Slept \<Rightarrow> cq_claimed q' = cq_claimed q \<and> cq_phase q' = cq_phase q \<and> cq_phase q = Open \<and> would_sleep q'"
  using assms by (auto simp: recv_turn_def would_sleep_iff split: if_splits list.splits option.splits)

lemma abort_locked_fields [simp]:
  "cq_claimed (abort_locked q) = cq_claimed q"
  "cq_phase (abort_locked q) = (if cq_phase q = Closed then Closed else Aborted)"
  by (auto simp: abort_locked_def)

lemma sends_fields:
  "notify_credit chan_send client_id r (q, ch) = (q', ch') \<Longrightarrow> cq_phase q' = cq_phase q \<and> cq_claimed q' = cq_claimed q"
  "notify_disconnect chan_send client_id d (q, ch) = (q', ch') \<Longrightarrow> cq_phase q' = cq_phase q \<and> cq_claimed q' = cq_claimed q"
  using frames_part_sends(1,2) by (fastforce simp: frames_part_eq)+

lemma sends_ok:
  "notify_credit chan_send client_id r (q, ch) = (q', ch') \<Longrightarrow> queue_ok q \<Longrightarrow> queue_ok q'"
  "notify_disconnect chan_send client_id d (q, ch) = (q', ch') \<Longrightarrow> queue_ok q \<Longrightarrow> queue_ok q'"
  by (rule queue_op_ok, erule queue_op_sends, assumption)+

lemma writer_keeps_frames:
  assumes "frames_inv st"
  shows "frames_inv (writer_turn chan_send client_id written finished st)"
proof (cases "cl_writer st")
  case AtRecv
  obtain r q' where r: "recv_turn (cl_queue st) = (r, q')" by fastforce
  have "queue_ok q'" using assms recv_turn_ok [of "cl_queue st"] r by (simp add: frames_inv_def)
  then show ?thesis using assms recv_turn_cases [OF r] AtRecv r
    by (cases r) (auto simp: frames_inv_def writer_turn_def Let_def places_ok_def written_ok_def split: if_splits)
next
  case (Claimed item)
  show ?thesis
  proof (cases item)
    case (Control frame)
    with Claimed assms show ?thesis by (auto simp: frames_inv_def writer_turn_def Let_def places_ok_def written_ok_def)
  next
    case (Render frame)
    obtain q' ch where n: "notify_credit chan_send client_id True (cl_queue st, cl_events st) = (q', ch)" by fastforce
    show ?thesis using assms Claimed Render n sends_fields(1) [OF n] sends_ok(1) [OF n]
      by (simp add: frames_inv_def writer_turn_def places_ok_def written_ok_def)
  qed
next
  case (Crediting frame)
  obtain q' ch where n: "notify_credit chan_send client_id False (cl_queue st, cl_events st) = (q', ch)" by fastforce
  show ?thesis using assms Crediting n sends_fields(1) [OF n] sends_ok(1) [OF n]
    by (simp add: frames_inv_def writer_turn_def places_ok_def written_ok_def)
next
  case WriterNotifying
  obtain q' ch where n: "notify_disconnect chan_send client_id False (cl_queue st, cl_events st) = (q', ch)" by fastforce
  show ?thesis using assms WriterNotifying n sends_fields(2) [OF n] sends_ok(2) [OF n]
    by (simp add: frames_inv_def writer_turn_def places_ok_def written_ok_def)
next
  case FinishingStream
  then show ?thesis using assms mark_closed_ok [of "cl_queue st"] abort_locked_ok [of "cl_queue st"]
    by (auto simp: frames_inv_def writer_turn_def Let_def places_ok_def written_ok_def mark_closed_def)
next
  case (Writing frame)
  then show ?thesis using assms abort_locked_ok [of "cl_queue st"]
    by (auto simp: frames_inv_def writer_turn_def Let_def places_ok_def written_ok_def)
next
  case WriterEnding
  have "cq_phase (worker_done False q) = cq_phase q" "cq_claimed (worker_done False q) = cq_claimed q" for q
    by (simp_all add: worker_done_def Let_def)
  then show ?thesis using assms WriterEnding
    by (auto simp: frames_inv_def writer_turn_def Let_def places_ok_def written_ok_def)
qed (use assms in \<open>auto simp: frames_inv_def writer_turn_def Let_def places_ok_def written_ok_def\<close>)

interpretation link_frames: kept_by_steps "link_step chan_send chan_recv client_id" frames_inv
  by unfold_locales (metis others_keep_frames writer_keeps_frames other_threads_queue)

section \<open>Frames that are sent arrive\<close>

text \<open>
  C8. However the threads interleave, the backlog of a client stays within its limits and its byte count is
  exact, nothing for the screen is kept once the connection is being closed, nothing at all once it is draining or
  closed, and a write thread that sleeps and has not been woken has nothing to do: no wake-up is lost.
\<close>

theorem backlog_bounded_and_awake:
  assumes "(link_step chan_send chan_recv client_id)\<^sup>*\<^sup>* (link_new events) st"
  shows "cq_control_bytes (cl_queue st) = sum_list (map length (cq_control (cl_queue st))) \<and>
    cq_control_bytes (cl_queue st) \<le> 4194304 \<and> length (cq_control (cl_queue st)) \<le> 4096 \<and> length (cq_ordered (cl_queue st)) \<le> 2 \<and>
    (cq_phase (cl_queue st) \<noteq> Open \<longrightarrow> cq_ordered (cl_queue st) = [] \<and> cq_render (cl_queue st) = None) \<and>
    (cq_phase (cl_queue st) \<in> {Draining, Closed, Aborted} \<longrightarrow> cq_control (cl_queue st) = []) \<and>
    (cl_writer st = Asleep \<and> \<not> cq_notified (cl_queue st) \<longrightarrow> fst (recv_turn (cl_queue st)) = Slept)"
proof -
  have inv: "frames_inv st" using assms frames_inv_new by (rule link_frames.run_keeps)
  then show ?thesis
    by (auto simp: frames_inv_def queue_ok_def waiting_render_def backlog_limits would_sleep_def split: option.splits)
qed

lemma link_phase_advances:
  assumes "link_step chan_send chan_recv client_id st st'" and "frames_inv st"
  shows "advances (cq_phase (cl_queue st)) (cq_phase (cl_queue st'))"
  using other_threads_queue [OF assms(1)]
proof (elim disjE exE)
  fix written finished assume st': "st' = writer_turn chan_send client_id written finished st"
  have p: "places_ok (cq_phase (cl_queue st)) (cl_writer st)" using assms(2) by (simp add: frames_inv_def)
  show ?thesis
  proof (cases "cl_writer st")
    case AtRecv
    obtain r q' where r: "recv_turn (cl_queue st) = (r, q')" by fastforce
    show ?thesis using recv_turn_cases [OF r] p AtRecv r unfolding st'
      by (cases r) (auto simp: writer_turn_def Let_def advances_def places_ok_def split: if_splits)
  next
    case (Claimed item)
    then show ?thesis unfolding st'
      by (cases item) (auto simp: writer_turn_def Let_def dest: sends_fields(1) split: prod.split)
  qed (use p in \<open>auto simp: st' writer_turn_def Let_def advances_def places_ok_def mark_closed_def worker_done_def
      dest: sends_fields split: prod.split\<close>)
qed (use queue_ops_phase call_phase_advances in blast)

interpretation phase_run: kept_by_steps "link_step chan_send chan_recv client_id"
    "\<lambda>st. frames_inv st \<and> advances p (cq_phase (cl_queue st))"
  using link_phase_advances advances_trans link_frames.step_keeps by unfold_locales blast

lemma closed_all_written:
  assumes "frames_inv st" and "cq_phase (cl_queue st) = Closed"
  shows "control_frames (cq_claimed (cl_queue st)) = cq_accepted_control (cl_queue st) \<and>
    cl_written st = map item_frame (cq_claimed (cl_queue st))"
  using assms by (cases "cl_writer st") (simp_all add: frames_inv_def queue_ok_def places_ok_def written_ok_def)

text \<open>
  C12. The frames that reach the socket are whole frames in the order they were claimed; the control frames
  among the claimed ones are a prefix of the accepted ones, and the render frames are accepted ones in their
  order.  When the connection has closed without an abort, every accepted control frame has
  reached the socket, and a phase once left never comes back.
\<close>

theorem frames_delivered_in_order:
  assumes "(link_step chan_send chan_recv client_id)\<^sup>*\<^sup>* (link_new events) st"
  shows "prefix (cl_written st) (map item_frame (cq_claimed (cl_queue st))) \<and>
    prefix (control_frames (cq_claimed (cl_queue st))) (cq_accepted_control (cl_queue st)) \<and>
    subseq (render_frames (cq_claimed (cl_queue st))) (cq_accepted_render (cl_queue st)) \<and>
    (cq_phase (cl_queue st) = Closed \<longrightarrow>
       control_frames (cq_claimed (cl_queue st)) = cq_accepted_control (cl_queue st) \<and>
       cl_written st = map item_frame (cq_claimed (cl_queue st))) \<and>
    (\<forall>st'. (link_step chan_send chan_recv client_id)\<^sup>*\<^sup>* st st' \<longrightarrow> advances (cq_phase (cl_queue st)) (cq_phase (cl_queue st')))"
proof -
  have inv: "frames_inv st" using assms frames_inv_new by (rule link_frames.run_keeps)
  have "advances (cq_phase (cl_queue st)) (cq_phase (cl_queue st'))"
    if "(link_step chan_send chan_recv client_id)\<^sup>*\<^sup>* st st'" for st'
    using phase_run.run_keeps [OF that] inv by simp
  moreover have "subseq (render_frames (cq_claimed (cl_queue st))) (cq_accepted_render (cl_queue st))"
    using inv unfolding frames_inv_def queue_ok_def by (elim conjE) (rule subseq_append_leftD)
  ultimately show ?thesis
    using inv closed_all_written [OF inv] by (auto simp: frames_inv_def queue_ok_def written_ok_def dest: append_prefixD)
qed

subsection \<open>A sealed queue drains\<close>

fun turns_left :: "writer_place \<Rightarrow> nat" where
  "turns_left (Claimed item) = 3"
| "turns_left (Crediting frame) = 2"
| "turns_left (Writing frame) = 1"
| "turns_left Asleep = 1"
| "turns_left _ = 0"

definition drain_measure :: "('c, 'e) client_link \<Rightarrow> nat" where
  "drain_measure st = 4 * length (cq_control (cl_queue st)) + turns_left (cl_writer st)"

lemma frames_part_fields:
  "frames_part q' = frames_part q \<Longrightarrow> cq_phase q' = cq_phase q \<and> cq_control q' = cq_control q \<and> cq_accepted_control q' = cq_accepted_control q"
  by (simp add: frames_part_eq)

text \<open>With a socket that takes what is written, a turn brings the write thread nearer to the end.\<close>

lemma drain_turn:
  fixes chan_send client_id
  assumes "frames_inv st" and "cq_phase (cl_queue st) = Sealed" and "\<not> (cl_writer st = AtRecv \<and> cq_control (cl_queue st) = [])"
  defines "st' \<equiv> writer_turn chan_send client_id True True st"
  shows "cq_phase (cl_queue st') = Sealed \<and> cq_accepted_control (cl_queue st') = cq_accepted_control (cl_queue st) \<and>
    drain_measure st' < drain_measure st"
proof (cases "cl_writer st")
  case AtRecv
  then show ?thesis using assms(2,3)
    by (cases "cq_control (cl_queue st)") (simp_all add: st'_def writer_turn_def recv_turn_def drain_measure_def Let_def)
next
  case (Claimed item)
  obtain q' ch where n: "notify_credit chan_send client_id True (cl_queue st, cl_events st) = (q', ch)" by fastforce
  show ?thesis using Claimed assms(2) n frames_part_fields [OF frames_part_sends(1) [OF n]]
    by (cases item) (simp_all add: st'_def writer_turn_def drain_measure_def Let_def)
next
  case (Crediting frame)
  obtain q' ch where n: "notify_credit chan_send client_id False (cl_queue st, cl_events st) = (q', ch)" by fastforce
  show ?thesis using Crediting assms(2) n frames_part_fields [OF frames_part_sends(1) [OF n]]
    by (simp add: st'_def writer_turn_def drain_measure_def Let_def)
qed (use assms(1,2) in \<open>simp_all add: st'_def writer_turn_def drain_measure_def Let_def frames_inv_def places_ok_def\<close>)

lemma drain_end:
  fixes chan_send client_id
  assumes "frames_inv st" and "cq_phase (cl_queue st) = Sealed" and "cl_writer st = AtRecv" "cq_control (cl_queue st) = []"
  defines "st' \<equiv> (writer_turn chan_send client_id True True ^^ 3) st"
  shows "cq_phase (cl_queue st') = Closed \<and> cq_accepted_control (cl_queue st') = cq_accepted_control (cl_queue st)"
proof -
  have "waiting_render (cl_queue st) = []" using assms(1,2) by (simp add: frames_inv_def queue_ok_def)
  then have none: "cq_ordered (cl_queue st) = []" "cq_render (cl_queue st) = None"
    by (auto simp: waiting_render_def split: option.splits)
  have three: "(3 :: nat) = Suc (Suc (Suc 0))" by simp
  show ?thesis unfolding st'_def three
    by (simp add: assms(2-4) none writer_turn_def recv_turn_def mark_closed_def Let_def)
qed

lemma writer_run_frames: "frames_inv st \<Longrightarrow> frames_inv ((writer_turn chan_send client_id True True ^^ n) st)"
  by (induction n) (simp_all add: writer_keeps_frames)

text \<open>
  C24. A sealed connection closes: from any state in which the queue is sealed, a socket that takes what
  is written lets the write thread reach the closed phase by its own turns, and then every control
  frame that had been accepted has been written.
\<close>

theorem sealed_connection_closes:
  assumes "(link_step chan_send chan_recv client_id)\<^sup>*\<^sup>* (link_new events) st" and "cq_phase (cl_queue st) = Sealed"
  shows "\<exists>n. let st' = (writer_turn chan_send client_id True True ^^ n) st in
    cq_phase (cl_queue st') = Closed \<and> control_frames (cq_claimed (cl_queue st')) = cq_accepted_control (cl_queue st) \<and>
    cl_written st' = map item_frame (cq_claimed (cl_queue st'))"
proof -
  have inv: "frames_inv st" using assms(1) frames_inv_new by (rule link_frames.run_keeps)
  have "\<exists>n. cq_phase (cl_queue ((writer_turn chan_send client_id True True ^^ n) st)) = Closed \<and>
      cq_accepted_control (cl_queue ((writer_turn chan_send client_id True True ^^ n) st)) = cq_accepted_control (cl_queue st)"
    using inv assms(2)
  proof (induction "drain_measure st" arbitrary: st rule: less_induct)
    case less
    show ?case
    proof (cases "cl_writer st = AtRecv \<and> cq_control (cl_queue st) = []")
      case True
      then show ?thesis using drain_end [OF less.prems] by blast
    next
      case False
      note t = drain_turn [OF less.prems False, of chan_send client_id]
      obtain n where "cq_phase (cl_queue ((writer_turn chan_send client_id True True ^^ n) (writer_turn chan_send client_id True True st))) = Closed \<and>
          cq_accepted_control (cl_queue ((writer_turn chan_send client_id True True ^^ n) (writer_turn chan_send client_id True True st))) =
          cq_accepted_control (cl_queue (writer_turn chan_send client_id True True st))"
        using less.hyps [OF _ writer_keeps_frames [OF less.prems(1)]] t by blast
      then have "cq_phase (cl_queue ((writer_turn chan_send client_id True True ^^ Suc n) st)) = Closed \<and>
          cq_accepted_control (cl_queue ((writer_turn chan_send client_id True True ^^ Suc n) st)) = cq_accepted_control (cl_queue st)"
        using t by (simp add: funpow_swap1)
      then show ?thesis by blast
    qed
  qed
  then obtain n where n: "cq_phase (cl_queue ((writer_turn chan_send client_id True True ^^ n) st)) = Closed"
      "cq_accepted_control (cl_queue ((writer_turn chan_send client_id True True ^^ n) st)) = cq_accepted_control (cl_queue st)" by blast
  then show ?thesis
    using closed_all_written [OF writer_run_frames [OF inv] n(1)] by (intro exI [of _ n]) (simp add: Let_def)
qed

section \<open>A connection step by step\<close>

text \<open>
  A channel for sixty-four events, and client 7 on it: it is introduced and becomes a member; a control frame and a render
  frame are sent, the control frame is claimed and written; then the connection is sealed.
\<close>

definition ex_send :: "unit server_event list \<Rightarrow> unit server_event \<Rightarrow> channel_error + unit server_event list" where
  "ex_send ch event = (if length ch < 64 then Inr (ch @ [event]) else Inl ChannelFull)"

fun ex_recv :: "unit server_event list \<Rightarrow> (unit server_event \<times> unit server_event list) option" where
  "ex_recv [] = None"
| "ex_recv (event # ch) = Some (event, ch)"

definition ex_call :: "queue_call \<Rightarrow> ('c, 'e) client_link \<Rightarrow> ('c, 'e) client_link" where
  "ex_call call st = st\<lparr>cl_queue := perform call (cl_queue st)\<rparr>"

definition ex_write :: "(unit server_event list, unit) client_link \<Rightarrow> (unit server_event list, unit) client_link" where
  "ex_write st = writer_turn ex_send 7 True True st"

definition ex_member :: "(unit server_event list, unit) client_link" where
  "ex_member = server_complete (server_handle 7 False (Inr []) (server_receive ex_recv 7
     (reader_turn ex_send 7 False False (Inr []) MessageIgnored (link_new []))))"

definition ex_sent_both :: "(unit server_event list, unit) client_link" where
  "ex_sent_both = ex_call (SendRender [3]) (ex_call (SendControl [1, 2]) ex_member)"

definition ex_control_written :: "(unit server_event list, unit) client_link" where
  "ex_control_written = ex_write (ex_write (ex_write ex_sent_both))"

definition ex_sealed :: "(unit server_event list, unit) client_link" where
  "ex_sealed = ex_call (Seal None) (ex_call (SendControl [4]) ex_control_written)"

lemmas ex_link_defs = ex_send_def ex_call_def ex_write_def reader_turn_def server_receive_def server_handle_def handle_server_event_def
  server_complete_def complete_event_def send_client_event_def link_new_def attach_def add_sender_def client_queue_new_def
  publish_notifications_def notifications_ready_def

lemma ex_member_eq:
  "ex_member = \<lparr>cl_queue = client_queue_new\<lparr>cq_senders := 2, cq_io := Some [], cq_registration := True, cq_reader_running := True, cq_writer_running := True\<rparr>,
     cl_events = [], cl_writer = AtRecv, cl_reader = Guarding, cl_member = Member, cl_dispatch = Idle, cl_written = [],
     cl_accepted = [], cl_taken_up = []\<rparr>"
  by (simp add: ex_member_def ex_link_defs machine_simps)

lemma ex_turns:
  assumes "(link_step ex_send ex_recv 7)\<^sup>*\<^sup>* (link_new []) st"
  shows "(link_step ex_send ex_recv 7)\<^sup>*\<^sup>* (link_new []) (ex_write st)"
    and "may_call (cl_member st) call \<Longrightarrow> (link_step ex_send ex_recv 7)\<^sup>*\<^sup>* (link_new []) (ex_call call st)"
  unfolding ex_write_def ex_call_def
  by (rule rtranclp.rtrancl_into_rtrancl [OF assms], rule writer_acts called, assumption?)+

lemma ex_member_run: "(link_step ex_send ex_recv 7)\<^sup>*\<^sup>* (link_new []) ex_member"
proof -
  let ?s1 = "reader_turn ex_send 7 False False (Inr []) MessageIgnored (link_new []) :: (unit server_event list, unit) client_link"
  have "link_step ex_send ex_recv 7 (link_new []) ?s1" by (rule reader_acts)
  moreover have "cl_dispatch ?s1 = Idle" by (simp add: ex_link_defs)
  then have "link_step ex_send ex_recv 7 ?s1 (server_receive ex_recv 7 ?s1)" by (rule event_received)
  ultimately show ?thesis unfolding ex_member_def
    by (meson converse_rtranclp_into_rtranclp event_completed event_handled rtranclp.rtrancl_refl)
qed

lemma ex_sent_both_eq:
  "ex_sent_both = ex_member\<lparr>cl_queue := (cl_queue ex_member)\<lparr>cq_control_bytes := 2, cq_control := [[1, 2]], cq_accepted_control := [[1, 2]],
     cq_render := Some [3], cq_accepted_render := [[3]], cq_notified := True\<rparr>\<rparr>"
  by (simp add: ex_sent_both_def ex_call_def ex_member_eq send_control_def try_send_render_def push_control_def control_full_def
      notify_all_def client_queue_new_def backlog_limits machine_simps)

lemma ex_control_written_eq:
  "ex_control_written = ex_sent_both\<lparr>cl_queue := (cl_queue ex_sent_both)\<lparr>cq_control_bytes := 0, cq_control := [], cq_claimed := [Control [1, 2]]\<rparr>,
     cl_written := [[1, 2]]\<rparr>"
  by (simp add: ex_control_written_def ex_write_def ex_sent_both_eq ex_member_eq writer_turn_def recv_turn_def client_queue_new_def)

lemma ex_sent_both_run: "(link_step ex_send ex_recv 7)\<^sup>*\<^sup>* (link_new []) ex_sent_both"
  unfolding ex_sent_both_def by (intro ex_turns ex_member_run) (simp_all add: ex_call_def ex_member_eq)

lemma ex_control_written_run: "(link_step ex_send ex_recv 7)\<^sup>*\<^sup>* (link_new []) ex_control_written"
  unfolding ex_control_written_def by (intro ex_turns ex_sent_both_run)

lemma ex_sealed_run: "(link_step ex_send ex_recv 7)\<^sup>*\<^sup>* (link_new []) ex_sealed"
  unfolding ex_sealed_def by (intro ex_turns ex_control_written_run) simp_all

theorem backlog_bounded_and_awake_witness:
  "cq_control_bytes (cl_queue ex_sent_both) = 2 \<and> length (cq_control (cl_queue ex_sent_both)) \<le> 4096"
  using backlog_bounded_and_awake [OF ex_sent_both_run] by (simp add: ex_sent_both_eq)

theorem frames_delivered_in_order_witness:
  "cl_written ex_control_written = [[1, 2]] \<and> prefix (cl_written ex_control_written) (map item_frame (cq_claimed (cl_queue ex_control_written)))"
  using frames_delivered_in_order [OF ex_control_written_run] by (simp add: ex_control_written_eq)

theorem sealed_connection_closes_witness:
  "\<exists>n. let st' = (writer_turn ex_send 7 True True ^^ n) ex_sealed in
    cq_phase (cl_queue st') = Closed \<and> control_frames (cq_claimed (cl_queue st')) = [[1, 2], [4]] \<and>
    cl_written st' = map item_frame (cq_claimed (cl_queue st'))"
proof -
  have "cq_phase (cl_queue ex_sealed) = Sealed" "cq_accepted_control (cl_queue ex_sealed) = [[1, 2], [4]]"
    by (simp_all add: ex_sealed_def ex_call_def ex_control_written_eq ex_sent_both_eq ex_member_eq client_queue_new_def send_control_def
        seal_def push_control_def control_full_def notify_all_def backlog_limits machine_simps)
  then show ?thesis using sealed_connection_closes [OF ex_sealed_run] by simp
qed

end
