(* ===== verification/ClientEvents.thy ===== *)
theory ClientEvents
  imports ClientLink
begin

section \<open>The events of a client, abstractly\<close>

text \<open>
  An account of the events of one client: what is on its way to the server thread, what waits to be
  acknowledged and what has been announced.  The connection of a client refines it: each turn of a thread is some steps
  of the account.  The properties of the order of events are proved of the account.

  The channel is documented to be a bounded queue: an event that is sent is behind the others,
  and the event received is the first.
\<close>

definition fifo_channel ::
    "('c \<Rightarrow> 'e server_event \<Rightarrow> channel_error + 'c) \<Rightarrow> ('c \<Rightarrow> ('e server_event \<times> 'c) option) \<Rightarrow> ('c \<Rightarrow> 'e server_event list) \<Rightarrow> bool" where
  "fifo_channel chan_send chan_recv contents \<longleftrightarrow>
     (\<forall>ch event ch'. chan_send ch event = Inr ch' \<longrightarrow> contents ch' = contents ch @ [event]) \<and>
     (\<forall>ch event ch'. chan_recv ch = Some (event, ch') \<longrightarrow> contents ch = event # contents ch')"

datatype stage = Introducing | Introduced | Left

record 'e ledger =
  lg_pending :: nat
  lg_disconnect :: "bool option"
  lg_notified :: bool
  lg_drained_pending :: bool
  lg_drained_notified :: bool
  lg_credit :: bool
  lg_flag :: bool
  lg_queue :: "'e server_event list"
  lg_dispatch :: "'e dispatch"
  lg_member :: membership
  lg_stage :: stage
  lg_accepted :: "'e list"
  lg_taken_up :: "'e list"

fun reader_stage :: "'e reader_place \<Rightarrow> stage" where
  "reader_stage Connecting = Introducing"
| "reader_stage Guarding = Introduced"
| "reader_stage Receiving = Introduced"
| "reader_stage (Sending e) = Introduced"
| "reader_stage _ = Left"

definition has_credit :: "client_writer_credits \<Rightarrow> bool" where
  "has_credit c \<longleftrightarrow> cred_render c \<or> cred_endpoint c"

definition ledger :: "('c \<Rightarrow> 'e server_event list) \<Rightarrow> ('c, 'e) client_link \<Rightarrow> 'e ledger" where
  "ledger contents st =
     \<lparr>lg_pending = cq_pending_events (cl_queue st), lg_disconnect = cq_disconnect_pending (cl_queue st),
      lg_notified = cq_disconnect_notified (cl_queue st), lg_drained_pending = cq_drained_pending (cl_queue st),
      lg_drained_notified = cq_drained_notified (cl_queue st), lg_credit = has_credit (cq_credits (cl_queue st)),
      lg_flag = cq_notification_pending (cl_queue st), lg_queue = contents (cl_events st), lg_dispatch = cl_dispatch st,
      lg_member = cl_member st, lg_stage = reader_stage (cl_reader st), lg_accepted = cl_accepted st, lg_taken_up = cl_taken_up st\<rparr>"

definition is_disconnect :: "u64 \<Rightarrow> 'e server_event \<Rightarrow> bool" where
  "is_disconnect c event \<longleftrightarrow> event = ClientDetach c \<or> event = ClientDisconnected c"

definition lg_publish :: "'e ledger \<Rightarrow> 'e ledger" where
  "lg_publish l = l\<lparr>lg_flag := (lg_drained_pending l \<or> (lg_disconnect l \<noteq> None \<and> lg_pending l = 0))\<rparr>"

inductive ledger_step :: "u64 \<Rightarrow> 'e ledger \<Rightarrow> 'e ledger \<Rightarrow> bool" for c where
  introduced: "lg_stage l = Introducing \<Longrightarrow> \<not> lg_notified l \<Longrightarrow>
    ledger_step c l (l\<lparr>lg_pending := Suc (lg_pending l), lg_queue := lg_queue l @ [ClientConnected c], lg_stage := Introduced\<rparr>)"
| accepted: "lg_stage l = Introduced \<Longrightarrow> \<not> lg_notified l \<Longrightarrow>
    ledger_step c l (l\<lparr>lg_pending := Suc (lg_pending l), lg_queue := lg_queue l @ [ClientEvent c e], lg_accepted := lg_accepted l @ [e]\<rparr>)"
| left: "ledger_step c l (l\<lparr>lg_stage := Left\<rparr>)"
| disconnect_sent: "\<not> lg_notified l \<Longrightarrow> is_disconnect c event \<Longrightarrow>
    ledger_step c l (l\<lparr>lg_notified := True, lg_queue := lg_queue l @ [event]\<rparr>)"
| disconnect_kept: "\<not> lg_notified l \<Longrightarrow>
    ledger_step c l (lg_publish (l\<lparr>lg_notified := True, lg_disconnect := Some d\<rparr>))"
| credit_noted: "\<not> lg_notified l \<Longrightarrow> lg_drained_notified l \<Longrightarrow> ledger_step c l (l\<lparr>lg_credit := True\<rparr>)"
| credit_sent: "\<not> lg_notified l \<Longrightarrow> lg_member l \<noteq> NotYet \<Longrightarrow>
    ledger_step c l (l\<lparr>lg_credit := True, lg_drained_notified := True, lg_queue := lg_queue l @ [ClientWriterDrained c]\<rparr>)"
| credit_kept: "\<not> lg_notified l \<Longrightarrow> lg_member l \<noteq> NotYet \<Longrightarrow>
    ledger_step c l (lg_publish (l\<lparr>lg_credit := True, lg_drained_notified := True, lg_drained_pending := True\<rparr>))"
| received: "lg_dispatch l = Idle \<Longrightarrow> lg_queue l = event # rest \<Longrightarrow>
    ledger_step c l (l\<lparr>lg_queue := rest, lg_dispatch := Handling event
      (event = ClientConnected c \<or> (\<exists>e. event = ClientEvent c e) \<and> lg_member l = Member)\<rparr>)"
| taken_up: "lg_dispatch l = Handling (ClientEvent c e) a \<Longrightarrow>
    ledger_step c l (l\<lparr>lg_taken_up := lg_taken_up l @ [e], lg_dispatch := Handled a\<rparr>)"
| registered: "lg_dispatch l = Handling (ClientConnected c) a \<Longrightarrow> m \<in> {Member, Rejected} \<Longrightarrow>
    ledger_step c l (l\<lparr>lg_member := m, lg_dispatch := Handled a\<rparr>)"
| acknowledged: "lg_dispatch l = Handling (ClientWriterDrained c) a \<Longrightarrow>
    ledger_step c l (l\<lparr>lg_drained_notified := False, lg_credit := False, lg_dispatch := Handled a\<rparr>)"
| passed: "lg_dispatch l = Handling event a \<Longrightarrow> transport_client_id event \<noteq> Some c \<Longrightarrow>
    event \<noteq> ClientWriterDrained c \<or> lg_member l \<noteq> Member \<Longrightarrow> ledger_step c l (l\<lparr>lg_dispatch := Handled a\<rparr>)"
| removed: "lg_member l = Member \<Longrightarrow> lg_pending l = 0 \<Longrightarrow> ledger_step c l (l\<lparr>lg_notified := True, lg_member := Removed\<rparr>)"
| completed: "lg_dispatch l = Handled a \<Longrightarrow>
    ledger_step c l ((if a then lg_publish (l\<lparr>lg_pending := lg_pending l - 1\<rparr>) else l)\<lparr>lg_dispatch := Idle\<rparr>)"
| disconnect_taken: "lg_dispatch l = Idle \<Longrightarrow> lg_member l = Member \<Longrightarrow> lg_pending l = 0 \<Longrightarrow> lg_disconnect l \<noteq> None \<Longrightarrow> is_disconnect c event \<Longrightarrow>
    ledger_step c l (lg_publish (l\<lparr>lg_disconnect := None, lg_drained_pending := False, lg_dispatch := Handling event False\<rparr>))"
| drained_taken: "lg_dispatch l = Idle \<Longrightarrow> lg_member l = Member \<Longrightarrow> lg_drained_pending l \<Longrightarrow>
    ledger_step c l (lg_publish (l\<lparr>lg_drained_pending := False, lg_dispatch := Handling (ClientWriterDrained c) False\<rparr>))"
| published: "ledger_step c l (lg_publish l)"
| others: "event_client event \<noteq> Some c \<Longrightarrow> ledger_step c l (l\<lparr>lg_queue := lg_queue l @ [event]\<rparr>)"

inductive_cases ledger_stepE: "ledger_step c l l'"

section \<open>Invariants of the account\<close>

definition own :: "u64 \<Rightarrow> 'e server_event \<Rightarrow> bool" where
  "own c event \<longleftrightarrow> transport_client_id event = Some c"

lemma own_simps [simp]:
  "own c (ClientConnected d) \<longleftrightarrow> d = c" "own c (ClientEvent d e) \<longleftrightarrow> d = c" "\<not> own c (ClientDetach d)"
  "\<not> own c (ClientDisconnected d)" "\<not> own c (ClientWriterDrained d)" "\<not> own c NoClientEvent"
  by (simp_all add: own_def)

fun handling :: "'e dispatch \<Rightarrow> 'e server_event list" where
  "handling (Handling event a) = [event]"
| "handling _ = []"

fun owed :: "'e dispatch \<Rightarrow> nat" where
  "owed Idle = 0"
| "owed (Handling event a) = (if a then 1 else 0)"
| "owed (Handled a) = (if a then 1 else 0)"

text \<open>The events of the client that were accepted and not taken up yet, oldest first.\<close>

definition under_way :: "u64 \<Rightarrow> 'e ledger \<Rightarrow> 'e server_event list" where
  "under_way c l = filter (own c) (handling (lg_dispatch l) @ lg_queue l)"

definition order_inv :: "u64 \<Rightarrow> 'e ledger \<Rightarrow> bool" where
  "order_inv c l \<longleftrightarrow>
     (\<exists>conn rest. under_way c l = conn @ map (ClientEvent c) rest \<and> lg_accepted l = lg_taken_up l @ rest \<and>
        (conn = [] \<or> conn = [ClientConnected c] \<and> lg_member l = NotYet \<and> lg_stage l \<noteq> Introducing) \<and>
        (conn = [] \<and> lg_member l = NotYet \<longrightarrow> rest = [] \<and> lg_stage l \<noteq> Introduced) \<and>
        (lg_stage l = Introducing \<longrightarrow> lg_member l = NotYet))"

definition pend_inv :: "u64 \<Rightarrow> 'e ledger \<Rightarrow> bool" where
  "pend_inv c l \<longleftrightarrow>
     (lg_member l \<in> {NotYet, Member} \<longrightarrow> lg_pending l = length (filter (own c) (lg_queue l)) + owed (lg_dispatch l) \<and>
        (\<forall>event a. lg_dispatch l = Handling event a \<longrightarrow> a = own c event)) \<and>
     (lg_member l = Removed \<longrightarrow> lg_pending l = 0 \<and> under_way c l = [] \<and> lg_notified l)"

lemma publish_fields [simp]:
  "lg_pending (lg_publish l) = lg_pending l" "lg_disconnect (lg_publish l) = lg_disconnect l" "lg_notified (lg_publish l) = lg_notified l"
  "lg_drained_pending (lg_publish l) = lg_drained_pending l" "lg_drained_notified (lg_publish l) = lg_drained_notified l"
  "lg_credit (lg_publish l) = lg_credit l" "lg_queue (lg_publish l) = lg_queue l" "lg_dispatch (lg_publish l) = lg_dispatch l"
  "lg_member (lg_publish l) = lg_member l" "lg_stage (lg_publish l) = lg_stage l" "lg_accepted (lg_publish l) = lg_accepted l"
  "lg_taken_up (lg_publish l) = lg_taken_up l"
  "lg_flag (lg_publish l) = (lg_drained_pending l \<or> (lg_disconnect l \<noteq> None \<and> lg_pending l = 0))"
  by (simp_all add: lg_publish_def)

lemma other_not_own: "event_client event \<noteq> Some c \<Longrightarrow> \<not> own c event \<and> \<not> is_disconnect c event"
  by (cases event) (auto simp: is_disconnect_def)

lemma disconnect_not_own: "is_disconnect c event \<Longrightarrow> \<not> own c event"
  by (auto simp: is_disconnect_def)

lemma order_invI:
  assumes "under_way c l = conn @ map (ClientEvent c) rest" "lg_accepted l = lg_taken_up l @ rest"
    "conn = [] \<or> conn = [ClientConnected c] \<and> lg_member l = NotYet \<and> lg_stage l \<noteq> Introducing"
    "conn = [] \<Longrightarrow> lg_member l = NotYet \<Longrightarrow> rest = [] \<and> lg_stage l \<noteq> Introduced"
    "lg_stage l = Introducing \<Longrightarrow> lg_member l = NotYet"
  shows "order_inv c l"
  using assms unfolding order_inv_def by blast

text \<open>Steps that leave what the order of events depends on.\<close>

lemma order_inv_same:
  "order_inv c l \<Longrightarrow> under_way c l' = under_way c l \<Longrightarrow> lg_accepted l' = lg_accepted l \<Longrightarrow> lg_taken_up l' = lg_taken_up l \<Longrightarrow>
     lg_member l' = lg_member l \<Longrightarrow> lg_stage l' = lg_stage l \<or> lg_stage l' = Left \<Longrightarrow> order_inv c l'"
  unfolding order_inv_def by (metis stage.distinct(3,5))

lemma order_inv_kept:
  assumes "ledger_step c l l'" and "order_inv c l"
  shows "order_inv c l'"
  using assms
proof (induction rule: ledger_step.induct)
  case (introduced l)
  then have "under_way c l = [] \<and> lg_accepted l = lg_taken_up l \<and> lg_member l = NotYet" by (auto simp: order_inv_def)
  then show ?case by (intro order_invI [where conn = "[ClientConnected c]" and rest = "[]"]) (auto simp: under_way_def)
next
  case (accepted l e)
  then obtain conn rest where o: "under_way c l = conn @ map (ClientEvent c) rest" "lg_accepted l = lg_taken_up l @ rest"
      "conn = [] \<or> conn = [ClientConnected c] \<and> lg_member l = NotYet" "conn = [] \<Longrightarrow> lg_member l \<noteq> NotYet"
    by (auto simp: order_inv_def)
  then show ?case using accepted(1)
    by (intro order_invI [where conn = conn and rest = "rest @ [e]"]) (auto simp: under_way_def)
next
  case (taken_up l e a)
  then obtain conn rest where o: "ClientEvent c e # filter (own c) (lg_queue l) = conn @ map (ClientEvent c) rest"
      "lg_accepted l = lg_taken_up l @ rest" "conn = [] \<or> conn = [ClientConnected c] \<and> lg_member l = NotYet"
      "conn = [] \<and> lg_member l = NotYet \<longrightarrow> rest = []" "lg_stage l = Introducing \<longrightarrow> lg_member l = NotYet"
    by (auto simp: order_inv_def under_way_def)
  then have "conn = []" by auto
  then obtain rest' where "rest = e # rest'" "filter (own c) (lg_queue l) = map (ClientEvent c) rest'" using o(1) by auto
  then show ?case using o \<open>conn = []\<close>
    by (intro order_invI [where conn = "[]" and rest = rest']) (auto simp: under_way_def)
next
  case (registered l a m)
  then obtain conn rest where o: "ClientConnected c # filter (own c) (lg_queue l) = conn @ map (ClientEvent c) rest"
      "lg_accepted l = lg_taken_up l @ rest" "conn = [] \<or> conn = [ClientConnected c] \<and> lg_stage l \<noteq> Introducing"
    by (auto simp: order_inv_def under_way_def)
  then have "conn = [ClientConnected c]" by (auto simp: Cons_eq_map_conv)
  then show ?case using o registered(2)
    by (intro order_invI [where conn = "[]" and rest = rest]) (auto simp: under_way_def)
next
  case (removed l)
  then show ?case unfolding order_inv_def under_way_def by auto
next
  case (received l event rest)
  then show ?case by (elim order_inv_same) (auto simp: under_way_def)
next
  case (passed l event a)
  then show ?case by (elim order_inv_same) (auto simp: under_way_def own_def)
next
  case (others event l)
  then show ?case using other_not_own [of event c] by (elim order_inv_same) (auto simp: under_way_def)
next
  case (disconnect_sent l event)
  then show ?case using disconnect_not_own [of c event] by (elim order_inv_same) (auto simp: under_way_def)
next
  case (disconnect_taken l event)
  then show ?case using disconnect_not_own [of c event] by (elim order_inv_same) (auto simp: under_way_def)
qed (erule order_inv_same; simp add: under_way_def)+

lemma first_is_introduction: "order_inv c l \<Longrightarrow> lg_member l = NotYet \<Longrightarrow> under_way c l \<noteq> ClientEvent c e # events"
  by (auto simp: order_inv_def)

lemma introduced_once: "order_inv c l \<Longrightarrow> lg_dispatch l = Handling (ClientConnected c) a \<Longrightarrow> lg_member l = NotYet"
  by (auto simp: order_inv_def under_way_def Cons_eq_map_conv)

lemma pend_inv_kept: "ledger_step c l l' \<Longrightarrow> order_inv c l \<Longrightarrow> pend_inv c l \<Longrightarrow> pend_inv c l'"
proof (induction rule: ledger_step.induct)
  case (received l event rest)
  have "\<not> (lg_member l = NotYet \<and> event = ClientEvent c e)" for e
    using first_is_introduction [of c l e "filter (own c) rest"] received by (auto simp: under_way_def)
  with received show ?case by (cases event) (auto simp: pend_inv_def under_way_def)
next
  case (passed l event a)
  then show ?case by (auto simp: pend_inv_def under_way_def own_def)
next
  case (others event l)
  then show ?case using other_not_own [of event c] by (auto simp: pend_inv_def under_way_def)
next
  case (disconnect_sent l event)
  then show ?case using disconnect_not_own [of c event] by (auto simp: pend_inv_def under_way_def)
next
  case (disconnect_taken l event)
  then show ?case using disconnect_not_own [of c event] by (auto simp: pend_inv_def under_way_def)
next
  case (removed l)
  then show ?case by (cases "lg_dispatch l") (auto simp: pend_inv_def under_way_def)
next
  case (registered l a m)
  then show ?case using introduced_once [of c l a] by (auto simp: pend_inv_def under_way_def)
qed (auto simp: pend_inv_def under_way_def)

text \<open>At most one disconnect is announced, and it is the last word of the client.\<close>

fun last_word :: "u64 \<Rightarrow> 'e server_event list \<Rightarrow> bool" where
  "last_word c [] \<longleftrightarrow> True"
| "last_word c (event # events) \<longleftrightarrow> (is_disconnect c event \<longrightarrow> filter (own c) events = []) \<and> last_word c events"

lemma last_word_append:
  "last_word c (events @ [event]) \<longleftrightarrow> last_word c events \<and> (own c event \<longrightarrow> filter (is_disconnect c) events = [])"
  by (induction events) (auto simp: filter_empty_conv)

definition announcements :: "u64 \<Rightarrow> 'e ledger \<Rightarrow> nat" where
  "announcements c l = length (filter (is_disconnect c) (handling (lg_dispatch l) @ lg_queue l)) + (if lg_disconnect l = None then 0 else 1)"

definition disc_inv :: "u64 \<Rightarrow> 'e ledger \<Rightarrow> bool" where
  "disc_inv c l \<longleftrightarrow> announcements c l \<le> 1 \<and> (\<not> lg_notified l \<longrightarrow> announcements c l = 0) \<and>
     last_word c (handling (lg_dispatch l) @ lg_queue l)"

lemma is_disconnect_simps [simp]:
  "\<not> is_disconnect c (ClientConnected d)" "\<not> is_disconnect c (ClientEvent d e)" "\<not> is_disconnect c (ClientWriterDrained d)"
  by (simp_all add: is_disconnect_def)

lemma disc_inv_kept: "ledger_step c l l' \<Longrightarrow> pend_inv c l \<Longrightarrow> disc_inv c l \<Longrightarrow> disc_inv c l'"
proof (induction rule: ledger_step.induct)
  case (introduced l)
  then show ?case using last_word_append [of c "handling (lg_dispatch l) @ lg_queue l"]
    by (simp add: disc_inv_def announcements_def split: if_splits)
next
  case (accepted l e)
  then show ?case using last_word_append [of c "handling (lg_dispatch l) @ lg_queue l"]
    by (simp add: disc_inv_def announcements_def split: if_splits)
next
  case (disconnect_sent l event)
  then show ?case using last_word_append [of c "handling (lg_dispatch l) @ lg_queue l"] disconnect_not_own [of c event]
    by (simp add: disc_inv_def announcements_def split: if_splits)
next
  case (credit_sent l)
  then show ?case using last_word_append [of c "handling (lg_dispatch l) @ lg_queue l"]
    by (simp add: disc_inv_def announcements_def split: if_splits)
next
  case (others event l)
  then show ?case using last_word_append [of c "handling (lg_dispatch l) @ lg_queue l"] other_not_own [of event c]
    by (simp add: disc_inv_def announcements_def split: if_splits)
next
  case (received l event rest)
  then show ?case by (simp add: disc_inv_def announcements_def)
next
  case (disconnect_taken l event)
  then show ?case by (auto simp: disc_inv_def announcements_def pend_inv_def split: if_splits)
next
  case (passed l event a)
  then show ?case by (simp add: disc_inv_def announcements_def split: if_splits)
qed (simp_all add: disc_inv_def announcements_def split: if_splits)

text \<open>A credit that the write thread gave is announced until the server has taken it.\<close>

definition credit_inv :: "u64 \<Rightarrow> 'e ledger \<Rightarrow> bool" where
  "credit_inv c l \<longleftrightarrow> lg_flag l = (lg_drained_pending l \<or> (lg_disconnect l \<noteq> None \<and> lg_pending l = 0)) \<and>
     (lg_member l = NotYet \<longrightarrow> \<not> lg_credit l \<and> \<not> lg_drained_notified l) \<and>
     (lg_member l = Member \<and> \<not> lg_notified l \<longrightarrow> (lg_credit l \<longrightarrow> lg_drained_notified l) \<and>
        (lg_drained_notified l \<longrightarrow> lg_drained_pending l \<or> ClientWriterDrained c \<in> set (handling (lg_dispatch l) @ lg_queue l)))"

lemma quiet_before_disconnect: "disc_inv c l \<Longrightarrow> \<not> lg_notified l \<Longrightarrow> lg_disconnect l = None"
  by (simp add: disc_inv_def announcements_def split: if_splits)

lemma credit_inv_kept: "ledger_step c l l' \<Longrightarrow> order_inv c l \<Longrightarrow> disc_inv c l \<Longrightarrow> credit_inv c l \<Longrightarrow> credit_inv c l'"
proof (induction rule: ledger_step.induct)
  case (introduced l)
  then show ?case using quiet_before_disconnect [of c l] by (auto simp: credit_inv_def)
next
  case (accepted l e)
  then show ?case using quiet_before_disconnect [of c l] by (auto simp: credit_inv_def)
next
  case (disconnect_taken l event)
  then show ?case using quiet_before_disconnect [of c l] by (auto simp: credit_inv_def)
next
  case (registered l a m)
  then show ?case using introduced_once [of c l a] by (auto simp: credit_inv_def)
qed (auto simp: credit_inv_def)

definition ledger_inv :: "u64 \<Rightarrow> 'e ledger \<Rightarrow> bool" where
  "ledger_inv c l \<longleftrightarrow> order_inv c l \<and> pend_inv c l \<and> disc_inv c l \<and> credit_inv c l"

interpretation ledger_run: kept_by_steps "ledger_step c" "ledger_inv c"
  by unfold_locales (use order_inv_kept pend_inv_kept disc_inv_kept credit_inv_kept in \<open>auto simp: ledger_inv_def\<close>)

section \<open>The connection refines the account\<close>

text \<open>Before the client is a member there are no credits to give.\<close>

definition quiet_queue :: "client_queue \<Rightarrow> bool" where
  "quiet_queue q \<longleftrightarrow> cq_render q = None \<and> cq_ordered q = [] \<and> \<not> cq_endpoint_waiting q"

fun gives_credit :: "writer_place \<Rightarrow> bool" where
  "gives_credit (Claimed (Render frame)) = True"
| "gives_credit (Crediting frame) = True"
| "gives_credit _ = False"

definition quiet_inv :: "('c, 'e) client_link \<Rightarrow> bool" where
  "quiet_inv st \<longleftrightarrow> (cl_member st = NotYet \<longrightarrow> quiet_queue (cl_queue st) \<and> \<not> gives_credit (cl_writer st))"

lemma push_control_fields [simp]:
  "cq_render (push_control b f q) = cq_render q" "cq_ordered (push_control b f q) = cq_ordered q"
  "cq_endpoint_waiting (push_control b f q) = cq_endpoint_waiting q"
  "quiet_queue (notify_all q) = quiet_queue q" "quiet_queue (io_do c q) = quiet_queue q"
  by (simp_all add: push_control_def quiet_queue_def notify_all_def io_do_def)

lemma quiet_calls: "quiet_queue q \<Longrightarrow> may_call NotYet call \<Longrightarrow> quiet_queue (perform call q)"
  by (cases call) (auto simp: quiet_queue_def send_control_def shutdown_def seal_def abort_locked_def add_sender_def
      remove_sender_def notify_all_def io_do_def push_control_def Let_def split: sum.split option.split)

lemma quiet_ops: "(queue_op NotYet)\<^sup>*\<^sup>* q q' \<Longrightarrow> quiet_queue q \<Longrightarrow> quiet_queue q'"
proof (induction rule: rtranclp_induct)
  case (step q' q'')
  from step(2) step(3) [OF step(4)] show ?case
    by cases (use quiet_calls in \<open>auto simp: frames_part_eq quiet_queue_def\<close>)
qed

lemma never_member_again:
  assumes "link_step chan_send chan_recv c st st'" and "cl_member st' = NotYet"
  shows "cl_member st = NotYet"
  using assms
proof cases
  case (reader_acts quit late encoded input)
  have "cl_member (reader_turn chan_send c quit late encoded input st) = cl_member st"
    by (cases "cl_reader st"; cases input)
      (simp_all add: reader_turn_def Let_def split: send_attempt.split prod.split sum.split)
  then show ?thesis using assms(2) unfolding reader_acts by simp
next
  case (writer_acts written finished)
  have "cl_member (writer_turn chan_send c written finished st) = cl_member st"
    by (simp add: writer_turn_def Let_def split: writer_place.split client_write_item.split recv_result.split prod.split)
  then show ?thesis using assms(2) unfolding writer_acts by simp
next
  case (event_handled handoff encoded)
  then show ?thesis using assms(2)
    by (auto simp: server_handle_def handle_server_event_def remove_client_def
        split: dispatch.splits server_event.splits prod.splits bool.splits if_splits)
qed (use assms(2) in \<open>auto simp: server_receive_def server_complete_def server_take_notifications_def remove_client_def
    split: option.splits dispatch.splits prod.splits bool.splits if_splits\<close>)

lemma writer_keeps_quiet:
  fixes chan_send c written finished
  assumes "quiet_queue (cl_queue st)" "\<not> gives_credit (cl_writer st)"
  defines "st' \<equiv> writer_turn chan_send c written finished st"
  shows "quiet_queue (cl_queue st') \<and> \<not> gives_credit (cl_writer st')"
proof (cases "cl_writer st")
  case AtRecv
  with assms(1) show ?thesis
    by (auto simp: st'_def writer_turn_def recv_turn_def quiet_queue_def Let_def split: list.split)
next
  case (Claimed item)
  then show ?thesis using assms(1,2) by (cases item) (auto simp: st'_def writer_turn_def quiet_queue_def)
next
  case WriterNotifying
  obtain q' ch where n: "notify_disconnect chan_send c False (cl_queue st, cl_events st) = (q', ch)" by fastforce
  show ?thesis using assms(1) WriterNotifying n frames_part_sends(2) [OF n]
    by (simp add: st'_def writer_turn_def quiet_queue_def frames_part_eq)
qed (use assms(1,2) in \<open>auto simp: st'_def writer_turn_def quiet_queue_def Let_def abort_locked_def mark_closed_def worker_done_def notify_all_def io_do_def\<close>)

lemma quiet_inv_kept:
  assumes "link_step chan_send chan_recv c st st'" and "quiet_inv st"
  shows "quiet_inv st'"
proof (cases "cl_member st' = NotYet")
  case True
  then have member: "cl_member st = NotYet" using never_member_again [OF assms(1)] by simp
  then have quiet: "quiet_queue (cl_queue st)" "\<not> gives_credit (cl_writer st)" using assms(2) by (simp_all add: quiet_inv_def)
  from other_threads_queue [OF assms(1)] show ?thesis
  proof (elim disjE exE conjE)
    fix written finished assume "st' = writer_turn chan_send c written finished st"
    then show ?thesis using writer_keeps_quiet [OF quiet] by (simp add: quiet_inv_def)
  next
    assume ops: "(queue_op (cl_member st))\<^sup>*\<^sup>* (cl_queue st) (cl_queue st')" and writer: "cl_writer st' = cl_writer st"
    have "quiet_queue (cl_queue st')" using quiet_ops [OF _ quiet(1)] ops member by simp
    then show ?thesis using quiet(2) writer by (simp add: quiet_inv_def)
  qed
qed (simp add: quiet_inv_def)

subsection \<open>Turns as steps of the account\<close>

definition notices_part :: "client_queue \<Rightarrow> client_queue" where
  "notices_part q = client_queue_new\<lparr>cq_pending_events := cq_pending_events q, cq_disconnect_pending := cq_disconnect_pending q,
     cq_disconnect_notified := cq_disconnect_notified q, cq_drained_pending := cq_drained_pending q,
     cq_drained_notified := cq_drained_notified q, cq_credits := cq_credits q, cq_notification_pending := cq_notification_pending q\<rparr>"

lemma notices_part_eq:
  "notices_part q' = notices_part q \<longleftrightarrow>
     cq_pending_events q' = cq_pending_events q \<and> cq_disconnect_pending q' = cq_disconnect_pending q \<and>
     cq_disconnect_notified q' = cq_disconnect_notified q \<and> cq_drained_pending q' = cq_drained_pending q \<and>
     cq_drained_notified q' = cq_drained_notified q \<and> cq_credits q' = cq_credits q \<and> cq_notification_pending q' = cq_notification_pending q"
  by (auto simp: notices_part_def client_queue_new_def)

lemma notices_part_frames [simp]:
  "notices_part (notify_all q) = notices_part q" "notices_part (io_do call q) = notices_part q"
  "notices_part (push_control bytes frame q) = notices_part q" "notices_part (abort_locked q) = notices_part q"
  "notices_part (seal deadline q) = notices_part q" "notices_part (worker_done reader q) = notices_part q"
  "notices_part (mark_closed q) = notices_part q"
  by (auto simp: notices_part_eq notify_all_def io_do_def push_control_def abort_locked_def seal_def worker_done_def mark_closed_def Let_def
      split: option.split)

lemma notices_part_calls:
  "notices_part (shutdown encoded deadline q) = notices_part q"
  "send_control frame q = (r, q') \<Longrightarrow> notices_part q' = notices_part q"
  "recv_turn q = (item, q') \<Longrightarrow> notices_part q' = notices_part q"
proof -
  show "notices_part (shutdown encoded deadline q) = notices_part q" by (simp add: shutdown_def split: sum.split)
  show "send_control frame q = (r, q') \<Longrightarrow> notices_part q' = notices_part q" by (auto simp: send_control_def split: if_splits)
  show "recv_turn q = (item, q') \<Longrightarrow> notices_part q' = notices_part q"
    by (auto simp: recv_turn_def notices_part_eq notify_all_def split: if_splits list.splits option.splits)
qed

lemma perform_notices: "call \<noteq> DeferEndpointCredit \<Longrightarrow> notices_part (perform call q) = notices_part q"
proof (cases call)
  case (SendControl frame)
  then show ?thesis using notices_part_calls(2) [of frame q] by (simp add: prod_eq_iff)
qed (auto simp: notices_part_calls(1) try_send_endpoint_frame_def try_send_render_def send_ordered_def Let_def,
    auto simp: notices_part_eq discard_pending_render_def add_sender_def remove_sender_def notify_all_def)

lemma ledger_same:
  "notices_part q' = notices_part (cl_queue st) \<Longrightarrow> ledger contents (st\<lparr>cl_queue := q'\<rparr>) = ledger contents st"
  by (simp add: ledger_def notices_part_eq)

lemma ledger_places [simp]:
  "ledger contents (st\<lparr>cl_writer := w\<rparr>) = ledger contents st"
  "ledger contents (st\<lparr>cl_written := xs\<rparr>) = ledger contents st"
  by (simp_all add: ledger_def)

text \<open>Sending a notice, for either thread.\<close>

lemma disconnect_refines:
  fixes st :: "('c, 'e) client_link"
  assumes "fifo_channel chan_send chan_recv contents"
    and "notify_disconnect chan_send c d (cl_queue st, cl_events st) = (q', ch')"
  shows "(ledger_step c)\<^sup>*\<^sup>* (ledger contents st) (ledger contents (st\<lparr>cl_queue := q', cl_events := ch'\<rparr>))"
proof (cases "cq_disconnect_notified (cl_queue st)")
  case True
  with assms(2) show ?thesis by (simp add: notify_disconnect_def ledger_def)
next
  case False
  define event :: "'e server_event" where "event = (if d then ClientDetach c else ClientDisconnected c)"
  have event: "is_disconnect c event" by (simp add: event_def is_disconnect_def)
  have new: "\<not> lg_notified (ledger contents st)" using False by (simp add: ledger_def)
  show ?thesis
  proof (cases "chan_send (cl_events st) event")
    case (Inl e)
    have "ledger contents (st\<lparr>cl_queue := q', cl_events := ch'\<rparr>) = lg_publish ((ledger contents st)\<lparr>lg_notified := True, lg_disconnect := Some d\<rparr>)"
      using assms(2) False Inl
      by (auto simp: notify_disconnect_def event_def ledger_def lg_publish_def publish_notifications_def notifications_ready_def Let_def)
    then show ?thesis using ledger_step.disconnect_kept [OF new, of c d] by auto
  next
    case (Inr ch)
    then have "contents ch = contents (cl_events st) @ [event]" using assms(1) by (simp add: fifo_channel_def)
    then have "ledger contents (st\<lparr>cl_queue := q', cl_events := ch'\<rparr>) =
        (ledger contents st)\<lparr>lg_notified := True, lg_queue := lg_queue (ledger contents st) @ [event]\<rparr>"
      using assms(2) False Inr by (auto simp: notify_disconnect_def event_def ledger_def Let_def)
    then show ?thesis using ledger_step.disconnect_sent [OF new event] by auto
  qed
qed

lemma credit_refines:
  assumes "fifo_channel chan_send chan_recv contents"
    and "notify_credit chan_send c r (cl_queue st, cl_events st) = (q', ch')" and "cl_member st \<noteq> NotYet"
  shows "(ledger_step c)\<^sup>*\<^sup>* (ledger contents st) (ledger contents (st\<lparr>cl_queue := q', cl_events := ch'\<rparr>))"
proof -
  let ?l = "ledger contents st" and ?l' = "ledger contents (st\<lparr>cl_queue := q', cl_events := ch'\<rparr>)"
  consider "cq_disconnect_notified (cl_queue st)"
    | "\<not> lg_notified ?l" "cq_drained_notified (cl_queue st)"
    | e where "\<not> lg_notified ?l" "\<not> cq_drained_notified (cl_queue st)" "chan_send (cl_events st) (ClientWriterDrained c) = Inl e"
    | ch where "\<not> lg_notified ?l" "\<not> cq_drained_notified (cl_queue st)" "chan_send (cl_events st) (ClientWriterDrained c) = Inr ch"
    by (cases "chan_send (cl_events st) (ClientWriterDrained c)") (auto simp: ledger_def)
  then show ?thesis
  proof cases
    case 1
    with assms(2) show ?thesis by (simp add: notify_credit_def ledger_def)
  next
    case 2
    then have "?l' = ?l\<lparr>lg_credit := True\<rparr>" using assms(2) by (auto simp: notify_credit_def ledger_def has_credit_def Let_def)
    then show ?thesis using ledger_step.credit_noted [OF 2(1), of c] 2(2) by (auto simp: ledger_def)
  next
    case 3
    then have "?l' = lg_publish (?l\<lparr>lg_credit := True, lg_drained_notified := True, lg_drained_pending := True\<rparr>)" using assms(2)
      by (auto simp: notify_credit_def ledger_def has_credit_def lg_publish_def publish_notifications_def notifications_ready_def Let_def)
    then show ?thesis using ledger_step.credit_kept [OF 3(1), of c] assms(3) by (auto simp: ledger_def)
  next
    case 4
    then have "contents ch = contents (cl_events st) @ [ClientWriterDrained c]" using assms(1) by (simp add: fifo_channel_def)
    then have "?l' = ?l\<lparr>lg_credit := True, lg_drained_notified := True, lg_queue := lg_queue ?l @ [ClientWriterDrained c]\<rparr>"
      using assms(2) 4 by (auto simp: notify_credit_def ledger_def has_credit_def Let_def)
    then show ?thesis using ledger_step.credit_sent [OF 4(1), of c] assms(3) by (auto simp: ledger_def)
  qed
qed

lemma writer_refines:
  assumes "fifo_channel chan_send chan_recv contents" and "quiet_inv st"
  shows "(ledger_step c)\<^sup>*\<^sup>* (ledger contents st) (ledger contents (writer_turn chan_send c written finished st))"
proof (cases "cl_writer st")
  case AtRecv
  obtain r q' where r: "recv_turn (cl_queue st) = (r, q')" by fastforce
  then show ?thesis using AtRecv ledger_same [OF notices_part_calls(3) [OF r], of contents]
    by (cases r) (simp_all add: writer_turn_def)
next
  case (Claimed item)
  show ?thesis
  proof (cases item)
    case (Control frame)
    then show ?thesis using Claimed by (simp add: writer_turn_def Let_def ledger_def)
  next
    case (Render frame)
    obtain q' ch where n: "notify_credit chan_send c True (cl_queue st, cl_events st) = (q', ch)" by fastforce
    have "cl_member st \<noteq> NotYet" using assms(2) Claimed Render by (auto simp: quiet_inv_def)
    then show ?thesis using credit_refines [OF assms(1) n] Claimed Render n by (simp add: writer_turn_def)
  qed
next
  case (Crediting frame)
  obtain q' ch where n: "notify_credit chan_send c False (cl_queue st, cl_events st) = (q', ch)" by fastforce
  have "cl_member st \<noteq> NotYet" using assms(2) Crediting by (auto simp: quiet_inv_def)
  then show ?thesis using credit_refines [OF assms(1) n] Crediting n by (simp add: writer_turn_def)
next
  case WriterNotifying
  obtain q' ch where n: "notify_disconnect chan_send c False (cl_queue st, cl_events st) = (q', ch)" by fastforce
  then show ?thesis using disconnect_refines [OF assms(1) n] WriterNotifying by (simp add: writer_turn_def)
qed (simp_all add: writer_turn_def Let_def ledger_same)

lemma stage_left: "reader_stage r = Left \<Longrightarrow> (ledger_step c)\<^sup>*\<^sup>* (ledger contents st) (ledger contents (st\<lparr>cl_reader := r\<rparr>))"
  using ledger_step.left [of c "ledger contents st"] by (simp add: ledger_def)

lemma left_after:
  "(ledger_step c)\<^sup>*\<^sup>* l (ledger contents st) \<Longrightarrow> reader_stage r = Left \<Longrightarrow> (ledger_step c)\<^sup>*\<^sup>* l (ledger contents (st\<lparr>cl_reader := r\<rparr>))"
  using stage_left rtranclp_trans by fast

lemma same_after:
  "notices_part q = notices_part (cl_queue st) \<Longrightarrow> reader_stage r = Left \<or> reader_stage r = reader_stage (cl_reader st) \<Longrightarrow>
     (ledger_step c)\<^sup>*\<^sup>* (ledger contents st) (ledger contents (st\<lparr>cl_queue := q, cl_reader := r\<rparr>))"
  using left_after [of c "ledger contents st" contents "st\<lparr>cl_queue := q\<rparr>" r] ledger_same [of q st contents]
  by (auto simp: ledger_def)

lemma send_client_event_cases:
  assumes "send_client_event chan_send event quit late (q, ch) = (r, q', ch')"
  shows "r = EventAccepted \<and> \<not> cq_disconnect_notified q \<and> q' = q\<lparr>cq_pending_events := cq_pending_events q + 1\<rparr> \<and> chan_send ch event = Inr ch' \<or>
    r \<noteq> EventAccepted"
  using assms by (auto simp: send_client_event_def split: if_splits sum.splits channel_error.splits)

lemma reader_refines:
  assumes "fifo_channel chan_send chan_recv contents"
  shows "(ledger_step c)\<^sup>*\<^sup>* (ledger contents st) (ledger contents (reader_turn chan_send c quit late encoded input st))"
proof (cases "cl_reader st")
  case Connecting
  obtain r q' ch where r: "send_client_event chan_send (ClientConnected c) quit late (cl_queue st, cl_events st) = (r, q', ch)"
    using prod_cases3 by blast
  show ?thesis
  proof (cases r)
    case EventAccepted
    then have sent: "\<not> cq_disconnect_notified (cl_queue st)"
        "q' = (cl_queue st)\<lparr>cq_pending_events := cq_pending_events (cl_queue st) + 1\<rparr>" "contents ch = contents (cl_events st) @ [ClientConnected c]"
      using send_client_event_cases [OF r] assms by (auto simp: fifo_channel_def)
    then have "ledger contents (reader_turn chan_send c quit late encoded input st) =
        (ledger contents st)\<lparr>lg_pending := Suc (lg_pending (ledger contents st)),
          lg_queue := lg_queue (ledger contents st) @ [ClientConnected c], lg_stage := Introduced\<rparr>"
      using Connecting r EventAccepted by (simp add: reader_turn_def ledger_def)
    then show ?thesis using ledger_step.introduced [of "ledger contents st" c] sent(1) Connecting by (auto simp: ledger_def)
  qed (use Connecting r in \<open>simp_all add: reader_turn_def stage_left\<close>)
next
  case (Sending e)
  obtain r q' ch where r: "send_client_event chan_send (ClientEvent c e) quit False (cl_queue st, cl_events st) = (r, q', ch)"
    using prod_cases3 by blast
  show ?thesis
  proof (cases r)
    case EventAccepted
    then have sent: "\<not> cq_disconnect_notified (cl_queue st)"
        "q' = (cl_queue st)\<lparr>cq_pending_events := cq_pending_events (cl_queue st) + 1\<rparr>" "contents ch = contents (cl_events st) @ [ClientEvent c e]"
      using send_client_event_cases [OF r] assms by (auto simp: fifo_channel_def)
    then have "ledger contents (reader_turn chan_send c quit late encoded input st) =
        (ledger contents st)\<lparr>lg_pending := Suc (lg_pending (ledger contents st)),
          lg_queue := lg_queue (ledger contents st) @ [ClientEvent c e], lg_accepted := lg_accepted (ledger contents st) @ [e]\<rparr>"
      using Sending r EventAccepted by (simp add: reader_turn_def ledger_def)
    then show ?thesis using ledger_step.accepted [of "ledger contents st" c e] sent(1) Sending by (auto simp: ledger_def)
  qed (use Sending r in \<open>simp_all add: reader_turn_def stage_left\<close>)
next
  case Receiving
  show ?thesis
  proof (cases input)
    case (MessageEvent e)
    then show ?thesis using Receiving by (simp add: reader_turn_def ledger_def)
  next
    case (ControlReply frame)
    obtain r q' where r: "send_control frame (cl_queue st) = (r, q')" by fastforce
    then show ?thesis using ControlReply Receiving same_after [OF notices_part_calls(2) [OF r]]
      by (cases r) (simp_all add: reader_turn_def)
  next
    case MessageIgnored
    then show ?thesis using Receiving by (simp add: reader_turn_def ledger_def)
  qed (use Receiving in \<open>simp_all add: reader_turn_def Let_def stage_left same_after\<close>)
next
  case (ReaderNotifying d)
  obtain q' ch where n: "notify_disconnect chan_send c d (cl_queue st, cl_events st) = (q', ch)" by fastforce
  then show ?thesis using left_after [OF disconnect_refines [OF assms n]] ReaderNotifying by (simp add: reader_turn_def)
next
  case Guarding
  then have "ledger contents (st\<lparr>cl_reader := Receiving\<rparr>) = ledger contents st" by (simp add: ledger_def)
  with Guarding show ?thesis by (simp add: reader_turn_def stage_left)
qed (simp_all add: reader_turn_def Let_def same_after stage_left notices_part_calls(1))

lemmas shutdown_notices = notices_part_calls(1) [unfolded notices_part_eq]
lemmas seal_notices = notices_part_frames(5) [unfolded notices_part_eq]

lemma removal_refines: "(ledger_step c)\<^sup>*\<^sup>* (ledger contents st) (ledger contents (remove_client st))"
proof -
  let ?q = "cl_queue st" and ?l = "ledger contents st"
  consider "cl_member st \<noteq> Member"
    | "cl_member st = Member" "cq_pending_events ?q = 0"
    | "cl_member st = Member" "cq_pending_events ?q \<noteq> 0" "cq_disconnect_notified ?q"
    | "cl_member st = Member" "cq_pending_events ?q \<noteq> 0" "\<not> cq_disconnect_notified ?q" by blast
  then show ?thesis
  proof cases
    case 2
    have "ledger contents (remove_client st) = ?l\<lparr>lg_notified := True, lg_member := Removed\<rparr>"
      using 2 by (simp add: remove_client_def defer_removal_for_accepted_events_def ledger_def seal_notices)
    then show ?thesis using ledger_step.removed [of ?l c] 2 by (auto simp: ledger_def)
  next
    case 3
    have "notices_part (seal None ?q) = notices_part ?q" by simp
    then show ?thesis
      using 3 by (simp add: remove_client_def defer_removal_for_accepted_events_def ledger_same)
  next
    case 4
    have "ledger contents (remove_client st) = lg_publish (?l\<lparr>lg_notified := True, lg_disconnect := Some False\<rparr>)"
      using 4 by (simp add: remove_client_def defer_removal_for_accepted_events_def ledger_def seal_notices lg_publish_def
          publish_notifications_def notifications_ready_def)
    then show ?thesis using ledger_step.disconnect_kept [of ?l c False] 4 by (auto simp: ledger_def)
  qed (simp add: remove_client_def)
qed

lemma passed_refines:
  assumes "cl_dispatch st = Handling event a" "\<not> own c event" "event \<noteq> ClientWriterDrained c \<or> cl_member st \<noteq> Member"
  shows "ledger_step c (ledger contents st) (ledger contents (st\<lparr>cl_dispatch := Handled a\<rparr>))"
  using ledger_step.passed [of "ledger contents st" event a c] assms by (simp add: ledger_def own_def)

lemma remove_client_keeps_dispatch [simp]: "cl_dispatch (remove_client st) = cl_dispatch st"
  by (simp add: remove_client_def split: prod.split bool.split)

lemma handle_refines:
  "(ledger_step c)\<^sup>*\<^sup>* (ledger contents st) (ledger contents (server_handle c handoff encoded st))"
proof (cases "cl_dispatch st")
  case (Handling event a)
  let ?done = "st\<lparr>cl_dispatch := Handled a\<rparr>"
  have removed: "(ledger_step c)\<^sup>*\<^sup>* (ledger contents st) (ledger contents ((remove_client st)\<lparr>cl_dispatch := Handled a\<rparr>))" if "is_disconnect c event"
    using that Handling by (intro rtranclp.rtrancl_into_rtrancl [OF removal_refines passed_refines]) (auto simp: is_disconnect_def)
  show ?thesis
  proof (cases "event_client event = Some c")
    case False
    have "ledger_step c (ledger contents st) (ledger contents ?done)"
      by (rule passed_refines [OF Handling]) (use False other_not_own [OF False] in auto)
    then show ?thesis using Handling False by (simp add: server_handle_def handle_server_event_def r_into_rtranclp)
  next
    case True
    show ?thesis
    proof (cases event)
      case (ClientConnected d)
      then show ?thesis using Handling True ledger_step.registered [of "ledger contents st" c a Member] ledger_step.registered [of "ledger contents st" c a Rejected]
        by (auto simp: server_handle_def handle_server_event_def ledger_def shutdown_notices)
    next
      case (ClientEvent d e)
      then show ?thesis using Handling True ledger_step.taken_up [of "ledger contents st" c e a]
        by (auto simp: server_handle_def handle_server_event_def ledger_def)
    next
      case (ClientDetach d)
      then show ?thesis using Handling True removed passed_refines [of st event a c]
        by (auto simp: server_handle_def handle_server_event_def is_disconnect_def)
    next
      case (ClientDisconnected d)
      then show ?thesis using Handling True removed by (simp add: server_handle_def handle_server_event_def is_disconnect_def)
    next
      case (ClientWriterDrained d)
      then show ?thesis using Handling True ledger_step.acknowledged [of "ledger contents st" c a] passed_refines [of st event a c]
        by (auto simp: server_handle_def handle_server_event_def acknowledge_transport_drain_def ledger_def has_credit_def no_credits_def)
    qed (use True in simp)
  qed
qed (simp_all add: server_handle_def)

lemma take_refines:
  fixes st :: "('c, 'e) client_link"
  assumes "cl_dispatch st = Idle" "cl_member st = Member"
  shows "(ledger_step c)\<^sup>*\<^sup>* (ledger contents st) (ledger contents (server_take_notifications c st))"
proof -
  let ?q = "cl_queue st" and ?l = "ledger contents st"
  have idle: "lg_dispatch ?l = Idle" "lg_member ?l = Member" using assms by (simp_all add: ledger_def)
  have note_simps: "take_transport_notifications ?q = ((if cq_pending_events ?q = 0 then cq_disconnect_pending ?q else None, cq_drained_pending ?q),
      publish_notifications ((if cq_pending_events ?q = 0 then ?q\<lparr>cq_disconnect_pending := None\<rparr> else ?q)\<lparr>cq_drained_pending := False\<rparr>))"
    if "cq_notification_pending ?q" using that by (simp add: take_transport_notifications_def Let_def)
  consider "\<not> cq_notification_pending ?q"
    | d where "cq_notification_pending ?q" "cq_pending_events ?q = 0" "cq_disconnect_pending ?q = Some d"
    | "cq_notification_pending ?q" "cq_pending_events ?q = 0 \<longrightarrow> cq_disconnect_pending ?q = None" "cq_drained_pending ?q"
    | "cq_notification_pending ?q" "cq_pending_events ?q = 0 \<longrightarrow> cq_disconnect_pending ?q = None" "\<not> cq_drained_pending ?q"
    by (cases "cq_disconnect_pending ?q") auto
  then show ?thesis
  proof cases
    case 2
    define event :: "'e server_event" where "event = (if d then ClientDetach c else ClientDisconnected c)"
    have "ledger contents (server_take_notifications c st) =
        lg_publish (?l\<lparr>lg_disconnect := None, lg_drained_pending := False, lg_dispatch := Handling event False\<rparr>)"
      using 2 note_simps by (simp add: server_take_notifications_def ledger_def lg_publish_def publish_notifications_def notifications_ready_def
          event_def split: bool.split)
    then show ?thesis using ledger_step.disconnect_taken [OF idle, of c event] 2 by (auto simp: ledger_def event_def is_disconnect_def)
  next
    case 3
    then have "ledger contents (server_take_notifications c st) =
        lg_publish (?l\<lparr>lg_drained_pending := False, lg_dispatch := Handling (ClientWriterDrained c) False\<rparr>)"
      using note_simps by (auto simp: server_take_notifications_def ledger_def lg_publish_def publish_notifications_def notifications_ready_def)
    then show ?thesis using ledger_step.drained_taken [OF idle, of c] 3 by (auto simp: ledger_def)
  next
    case 4
    then have "ledger contents (server_take_notifications c st) = lg_publish ?l"
      using note_simps by (auto simp: server_take_notifications_def ledger_def lg_publish_def publish_notifications_def notifications_ready_def)
    then show ?thesis using ledger_step.published by (metis r_into_rtranclp)
  qed (simp add: server_take_notifications_def)
qed

lemma call_refines:
  assumes "may_call (cl_member st) call"
  shows "(ledger_step c)\<^sup>*\<^sup>* (ledger contents st) (ledger contents (st\<lparr>cl_queue := perform call (cl_queue st)\<rparr>))"
proof (cases "call = DeferEndpointCredit")
  case True
  let ?q = "cl_queue st" and ?l = "ledger contents st"
  consider "cq_phase ?q \<noteq> Open \<or> cq_disconnect_notified ?q"
    | "cq_phase ?q = Open" "\<not> lg_notified ?l" "cq_drained_notified ?q"
    | "cq_phase ?q = Open" "\<not> lg_notified ?l" "\<not> cq_drained_notified ?q" by (auto simp: ledger_def)
  then show ?thesis
  proof cases
    case 2
    then have "ledger contents (st\<lparr>cl_queue := perform call ?q\<rparr>) = ?l\<lparr>lg_credit := True\<rparr>"
      by (simp add: True defer_endpoint_credit_def ledger_def has_credit_def)
    then show ?thesis using ledger_step.credit_noted [OF 2(2), of c] 2(3) by (auto simp: ledger_def)
  next
    case 3
    then have "ledger contents (st\<lparr>cl_queue := perform call ?q\<rparr>) =
        lg_publish (?l\<lparr>lg_credit := True, lg_drained_notified := True, lg_drained_pending := True\<rparr>)"
      by (simp add: True defer_endpoint_credit_def ledger_def has_credit_def lg_publish_def publish_notifications_def notifications_ready_def)
    then show ?thesis using ledger_step.credit_kept [OF 3(2), of c] assms True by (auto simp: ledger_def)
  qed (simp add: True defer_endpoint_credit_def)
qed (simp add: ledger_same perform_notices)

lemma link_refines_ledger:
  assumes "fifo_channel chan_send chan_recv contents" and "link_step chan_send chan_recv c st st'" and "quiet_inv st"
  shows "(ledger_step c)\<^sup>*\<^sup>* (ledger contents st) (ledger contents st')"
  using assms(2)
proof cases
  case event_received
  show ?thesis
  proof (cases "chan_recv (cl_events st)")
    case (Some r)
    obtain event ch where r: "r = (event, ch)" by fastforce
    then have "contents (cl_events st) = event # contents ch" using assms(1) Some by (simp add: fifo_channel_def)
    then show ?thesis using ledger_step.received [of "ledger contents st" event "contents ch" c] event_received Some r
      by (cases event) (auto simp: server_receive_def ledger_def)
  qed (use event_received in \<open>simp add: server_receive_def\<close>)
next
  case event_completed
  show ?thesis
  proof (cases "cl_dispatch st")
    case (Handled a)
    then show ?thesis using ledger_step.completed [of "ledger contents st" a c] unfolding event_completed
      by (auto simp: server_complete_def complete_event_def ledger_def lg_publish_def publish_notifications_def notifications_ready_def Let_def)
  qed (use event_completed in \<open>simp_all add: server_complete_def\<close>)
next
  case (other_event event ch)
  then have "contents ch = contents (cl_events st) @ [event]" using assms(1) by (simp add: fifo_channel_def)
  then show ?thesis using ledger_step.others [of event c "ledger contents st"] other_event by (auto simp: ledger_def)
next
  case (writer_acts written finished)
  show ?thesis unfolding writer_acts using assms(1,3) by (rule writer_refines)
next
  case (reader_acts quit late encoded input)
  show ?thesis unfolding reader_acts using assms(1) by (rule reader_refines)
next
  case (event_handled handoff encoded)
  show ?thesis unfolding event_handled by (rule handle_refines)
next
  case notifications_taken
  then show ?thesis using take_refines by simp
next
  case client_removed
  show ?thesis unfolding client_removed by (rule removal_refines)
next
  case (called call)
  then show ?thesis using call_refines by simp
qed

interpretation link_account: simulation
    "\<lambda>st st'. fifo_channel chan_send chan_recv contents \<and> link_step chan_send chan_recv c st st'" quiet_inv "ledger_step c" "ledger contents"
  by unfold_locales (auto intro: quiet_inv_kept link_refines_ledger)

definition no_events_of :: "u64 \<Rightarrow> 'e server_event list \<Rightarrow> bool" where
  "no_events_of c events \<longleftrightarrow> list_all (\<lambda>event. event_client event \<noteq> Some c) events"

lemma ledger_inv_new:
  assumes "no_events_of c (contents events)"
  shows "ledger_inv c (ledger contents (link_new events))"
proof -
  have none: "filter (own c) (contents events) = []" "filter (is_disconnect c) (contents events) = []"
    using assms other_not_own by (fastforce simp: no_events_of_def list_all_iff filter_empty_conv)+
  have "last_word c es" if "filter (own c) es = []" for es :: "'a server_event list"
    using that by (induction es) (auto split: if_splits)
  with none show ?thesis
    by (simp add: ledger_inv_def order_inv_def pend_inv_def disc_inv_def credit_inv_def announcements_def under_way_def ledger_def link_new_def
        attach_def add_sender_def client_queue_new_def no_credits_def has_credit_def)
qed

lemma reachable_account:
  assumes "fifo_channel chan_send chan_recv contents" and "no_events_of c (contents events)"
    and "(link_step chan_send chan_recv c)\<^sup>*\<^sup>* (link_new events) st"
  shows "ledger_inv c (ledger contents st)"
proof -
  have "quiet_inv (link_new events)"
    by (simp add: quiet_inv_def quiet_queue_def link_new_def attach_def add_sender_def client_queue_new_def)
  moreover have "(\<lambda>st st'. fifo_channel chan_send chan_recv contents \<and> link_step chan_send chan_recv c st st')\<^sup>*\<^sup>* (link_new events) st"
    using assms(1,3) by simp
  ultimately have "(ledger_step c)\<^sup>*\<^sup>* (ledger contents (link_new events)) (ledger contents st)" by (rule link_account.run_refines [rotated])
  then show ?thesis using ledger_inv_new [of c contents events] assms(2) by (auto intro: ledger_run.run_keeps)
qed

lemma accounts: "lg_accepted (ledger contents st) = cl_accepted st" "lg_taken_up (ledger contents st) = cl_taken_up st"
  "lg_pending (ledger contents st) = cq_pending_events (cl_queue st)" "lg_member (ledger contents st) = cl_member st"
  by (simp_all add: ledger_def)

section \<open>The last word of a client\<close>

text \<open>
  C21. However the threads interleave, the server takes up the events of a client in the order in
  which they were accepted.  At most one disconnect is under way; when the server comes to it, every
  accepted event has been taken up and acknowledged, so that the removal is not put off, and when the client
  has been removed no event of it is left behind.
\<close>

theorem disconnect_is_last:
  assumes "fifo_channel chan_send chan_recv contents" and "no_events_of c (contents events)"
    and "(link_step chan_send chan_recv c)\<^sup>*\<^sup>* (link_new events) st"
  shows "prefix (cl_taken_up st) (cl_accepted st) \<and> announcements c (ledger contents st) \<le> 1 \<and>
    (\<forall>event a. cl_dispatch st = Handling event a \<longrightarrow> is_disconnect c event \<longrightarrow> cl_member st = Member \<longrightarrow>
       cl_taken_up st = cl_accepted st \<and> cq_pending_events (cl_queue st) = 0) \<and>
    (cl_member st = Removed \<longrightarrow> cl_taken_up st = cl_accepted st \<and> cq_pending_events (cl_queue st) = 0)"
proof -
  let ?l = "ledger contents st"
  have inv: "order_inv c ?l" "pend_inv c ?l" "disc_inv c ?l"
    using reachable_account [OF assms] by (simp_all add: ledger_inv_def)
  obtain conn rest where o: "under_way c ?l = conn @ map (ClientEvent c) rest" "cl_accepted st = cl_taken_up st @ rest"
    using inv(1) accounts [of contents st] unfolding order_inv_def by auto
  have handled: "cl_taken_up st = cl_accepted st \<and> cq_pending_events (cl_queue st) = 0"
    if d: "cl_dispatch st = Handling event a" "is_disconnect c event" "cl_member st = Member" for event a
  proof -
    have "filter (own c) (contents (cl_events st)) = []" using inv(3) d by (simp add: disc_inv_def ledger_def)
    moreover have "\<not> own c event" using d(2) by (rule disconnect_not_own)
    ultimately show ?thesis using inv(2) d o by (simp add: pend_inv_def ledger_def under_way_def)
  qed
  have "cl_taken_up st = cl_accepted st \<and> cq_pending_events (cl_queue st) = 0" if "cl_member st = Removed"
    using inv(2) that o by (simp add: pend_inv_def accounts)
  then show ?thesis using handled o(2) inv(3) by (auto simp: disc_inv_def)
qed

section \<open>Credits\<close>

text \<open>An endpoint frame that was refused for lack of room is owed a credit as soon as there is room again.\<close>

definition waiting_ok :: "bool \<Rightarrow> client_queue \<Rightarrow> bool" where
  "waiting_ok claimed q \<longleftrightarrow> (cq_endpoint_waiting q \<and> cq_phase q = Open \<longrightarrow> cq_control q \<noteq> [] \<or> claimed)"

lemma refused_only_behind_others:
  assumes "queue_ok q" and "length frame \<le> endpoint_frame_limit"
    and "control_full (MAX_CLIENT_CONTROL_BACKLOG_BYTES - ENDPOINT_RESERVED_CONTROL_BYTES)
      (MAX_CLIENT_CONTROL_BACKLOG_MESSAGES - ENDPOINT_RESERVED_CONTROL_MESSAGES) frame q"
  shows "cq_control q \<noteq> []"
proof
  assume "cq_control q = []"
  moreover from this have "cq_control_bytes q = 0" using assms(1) by (simp add: queue_ok_def)
  ultimately show False using assms(2,3)
    by (auto simp: control_full_def endpoint_frame_limit_def backlog_limits MAX_FRAME_SIZE_def sat_add_def min_def split: if_splits)
qed

lemma perform_waiting:
  assumes "queue_ok q" and "may_call m call" and "waiting_ok b q"
  shows "waiting_ok b (perform call q)"
proof (cases call)
  case (SendEndpointFrame frame)
  then show ?thesis using assms refused_only_behind_others [of q frame]
    by (auto simp: waiting_ok_def try_send_endpoint_frame_def notify_all_def push_control_def)
qed (use assms(3) in \<open>auto simp: waiting_ok_def send_control_def shutdown_def seal_def abort_locked_def add_sender_def remove_sender_def
      try_send_render_def send_ordered_def discard_pending_render_def defer_endpoint_credit_def publish_notifications_def
      notify_all_def io_do_def push_control_def Let_def split: sum.split option.split\<close>)

lemma ops_waiting: "(queue_op m)\<^sup>*\<^sup>* q q' \<Longrightarrow> queue_ok q \<Longrightarrow> waiting_ok b q \<Longrightarrow> waiting_ok b q'"
proof (induction rule: rtranclp_induct)
  case (step q' q'')
  have "queue_ok q'" using step(1,4) queue_run.run_keeps by blast
  from step(2) show ?case
    by cases (use step(3) [OF step(4,5)] perform_waiting [OF \<open>queue_ok q'\<close>] in \<open>auto simp: frames_part_eq waiting_ok_def\<close>)
qed

fun claimed_control :: "writer_place \<Rightarrow> bool" where
  "claimed_control (Claimed (Control frame)) = True"
| "claimed_control _ = False"

definition credit_owed_inv :: "('c, 'e) client_link \<Rightarrow> bool" where
  "credit_owed_inv st \<longleftrightarrow> frames_inv st \<and> waiting_ok (claimed_control (cl_writer st)) (cl_queue st)"

lemma writer_waiting:
  assumes "credit_owed_inv st"
  shows "waiting_ok (claimed_control (cl_writer (writer_turn chan_send c written finished st)))
    (cl_queue (writer_turn chan_send c written finished st))"
proof (cases "cl_writer st")
  case AtRecv
  then show ?thesis using assms
    by (auto simp: credit_owed_inv_def waiting_ok_def writer_turn_def recv_turn_def notify_all_def Let_def split: list.split option.split)
next
  case (Claimed item)
  obtain q' ch where n: "notify_credit chan_send c True (cl_queue st, cl_events st) = (q', ch)" by fastforce
  show ?thesis using assms Claimed n frames_part_sends(1) [OF n]
    by (cases item) (auto simp: credit_owed_inv_def waiting_ok_def writer_turn_def frames_part_eq Let_def)
next
  case (Crediting frame)
  obtain q' ch where n: "notify_credit chan_send c False (cl_queue st, cl_events st) = (q', ch)" by fastforce
  show ?thesis using assms Crediting n frames_part_sends(1) [OF n]
    by (auto simp: credit_owed_inv_def waiting_ok_def writer_turn_def frames_part_eq)
next
  case WriterNotifying
  obtain q' ch where n: "notify_disconnect chan_send c False (cl_queue st, cl_events st) = (q', ch)" by fastforce
  show ?thesis using assms WriterNotifying n frames_part_sends(2) [OF n]
    by (auto simp: credit_owed_inv_def waiting_ok_def writer_turn_def frames_part_eq)
qed (use assms in \<open>auto simp: credit_owed_inv_def waiting_ok_def writer_turn_def abort_locked_def mark_closed_def worker_done_def
    notify_all_def io_do_def Let_def\<close>)

lemma credit_owed_kept:
  assumes "link_step chan_send chan_recv c st st'" and "credit_owed_inv st"
  shows "credit_owed_inv st'"
proof -
  have "frames_inv st'" using assms link_frames.step_keeps by (auto simp: credit_owed_inv_def)
  moreover have "waiting_ok (claimed_control (cl_writer st')) (cl_queue st')"
    using other_threads_queue [OF assms(1)] writer_waiting [OF assms(2)] assms(2) ops_waiting
    by (auto simp: credit_owed_inv_def frames_inv_def)
  ultimately show ?thesis by (simp add: credit_owed_inv_def)
qed

interpretation credit_run: kept_by_steps "link_step chan_send chan_recv c" credit_owed_inv
  by unfold_locales (rule credit_owed_kept)

text \<open>
  C22. No credit is lost, however the threads interleave: as long as the client is a member and has not been
  announced as gone, a credit that the server has not taken is announced in the channel, at the
  server, or with the flag that the server polls; and a refused endpoint frame waits behind a control frame
  that the write thread will claim, or has claimed and is about to give the credit for.
\<close>

theorem no_credit_is_lost:
  assumes "fifo_channel chan_send chan_recv contents" and "no_events_of c (contents events)"
    and "(link_step chan_send chan_recv c)\<^sup>*\<^sup>* (link_new events) st"
    and "cl_member st = Member" and "\<not> cq_disconnect_notified (cl_queue st)"
  shows "(has_credit (cq_credits (cl_queue st)) \<longrightarrow>
      cq_drained_pending (cl_queue st) \<and> cq_notification_pending (cl_queue st) \<or>
      ClientWriterDrained c \<in> set (handling (cl_dispatch st) @ contents (cl_events st))) \<and>
    (cq_endpoint_waiting (cl_queue st) \<and> cq_phase (cl_queue st) = Open \<longrightarrow>
      cq_control (cl_queue st) \<noteq> [] \<or> (\<exists>frame. cl_writer st = Claimed (Control frame)))"
proof -
  have "credit_inv c (ledger contents st)" using reachable_account [OF assms(1-3)] by (simp add: ledger_inv_def)
  moreover have "credit_owed_inv (link_new events :: ('a, 'b) client_link)"
    using frames_inv_new by (simp add: credit_owed_inv_def waiting_ok_def link_new_def attach_def add_sender_def client_queue_new_def)
  then have "waiting_ok (claimed_control (cl_writer st)) (cl_queue st)"
    using credit_run.run_keeps [OF assms(3)] by (simp add: credit_owed_inv_def)
  moreover have "claimed_control w \<longleftrightarrow> (\<exists>frame. w = Claimed (Control frame))" for w
    by (cases w rule: claimed_control.cases) auto
  ultimately show ?thesis using assms(4,5) by (auto simp: credit_inv_def ledger_def waiting_ok_def)
qed

section \<open>A client that comes and goes\<close>

lemma ex_fifo: "fifo_channel ex_send ex_recv (\<lambda>ch. ch)"
proof -
  have "ch = event # ch'" if "ex_recv ch = Some (event, ch')" for ch event ch' using that by (cases ch) auto
  then show ?thesis by (auto simp: fifo_channel_def ex_send_def split: if_splits)
qed

definition ex_read :: "unit client_input \<Rightarrow> (unit server_event list, unit) client_link \<Rightarrow> (unit server_event list, unit) client_link" where
  "ex_read input st = reader_turn ex_send 7 False False (Inr []) input st"

text \<open>An event is accepted; the server takes it up and acknowledges it.\<close>

definition ex_event_accepted :: "(unit server_event list, unit) client_link" where
  "ex_event_accepted = ex_read MessageIgnored (ex_read (MessageEvent ()) (ex_read MessageIgnored ex_member))"

definition ex_event_done :: "(unit server_event list, unit) client_link" where
  "ex_event_done = server_complete (server_handle 7 False (Inr []) (server_receive ex_recv 7 ex_event_accepted))"

text \<open>Reading fails, the read thread aborts and announces it, and the server comes to the announcement.\<close>

definition ex_announced :: "(unit server_event list, unit) client_link" where
  "ex_announced = ex_read MessageIgnored (ex_read MessageIgnored (ex_read ReadFailed (ex_read MessageIgnored ex_event_done)))"

definition ex_gone :: "(unit server_event list, unit) client_link" where
  "ex_gone = server_receive ex_recv 7 ex_announced"

definition ex_credited :: "(unit server_event list, unit) client_link" where
  "ex_credited = ex_write (ex_write (ex_call (SendRender [3]) ex_member))"

lemma ex_event_accepted_eq:
  "ex_event_accepted = ex_member\<lparr>cl_queue := (cl_queue ex_member)\<lparr>cq_pending_events := 1\<rparr>, cl_events := [ClientEvent 7 ()], cl_accepted := [()]\<rparr>"
  by (simp add: ex_event_accepted_def ex_read_def ex_member_eq reader_turn_def send_client_event_def ex_send_def client_queue_new_def)

lemma ex_event_done_eq: "ex_event_done = ex_member\<lparr>cl_accepted := [()], cl_taken_up := [()]\<rparr>"
  by (simp add: ex_event_done_def ex_event_accepted_eq ex_member_eq ex_link_defs)

lemma ex_read_run: "(link_step ex_send ex_recv 7)\<^sup>*\<^sup>* s st \<Longrightarrow> (link_step ex_send ex_recv 7)\<^sup>*\<^sup>* s (ex_read input st)"
  unfolding ex_read_def by (erule rtranclp.rtrancl_into_rtrancl) (rule reader_acts)

lemma ex_receive_run:
  "(link_step ex_send ex_recv 7)\<^sup>*\<^sup>* s st \<Longrightarrow> cl_dispatch st = Idle \<Longrightarrow> (link_step ex_send ex_recv 7)\<^sup>*\<^sup>* s (server_receive ex_recv 7 st)"
  by (erule rtranclp.rtrancl_into_rtrancl) (rule event_received)

lemma ex_event_done_run: "(link_step ex_send ex_recv 7)\<^sup>*\<^sup>* (link_new []) ex_event_done"
proof -
  have "(link_step ex_send ex_recv 7)\<^sup>*\<^sup>* (link_new []) ex_event_accepted"
    unfolding ex_event_accepted_def by (intro ex_read_run ex_member_run)
  then have "(link_step ex_send ex_recv 7)\<^sup>*\<^sup>* (link_new []) (server_receive ex_recv 7 ex_event_accepted)"
    by (rule ex_receive_run) (simp add: ex_event_accepted_eq ex_member_eq)
  then show ?thesis unfolding ex_event_done_def by (meson event_completed event_handled rtranclp.rtrancl_into_rtrancl)
qed

lemma ex_gone_run: "(link_step ex_send ex_recv 7)\<^sup>*\<^sup>* (link_new []) ex_gone"
  unfolding ex_gone_def
proof (rule ex_receive_run)
  show "(link_step ex_send ex_recv 7)\<^sup>*\<^sup>* (link_new []) ex_announced"
    unfolding ex_announced_def by (intro ex_read_run ex_event_done_run)
  show "cl_dispatch ex_announced = Idle"
    by (simp add: ex_announced_def ex_read_def ex_event_done_eq ex_member_eq client_queue_new_def reader_turn_def abort_locked_def
        notify_disconnect_def ex_send_def notify_all_def io_do_def)
qed

lemma ex_gone_state:
  "cl_dispatch ex_gone = Handling (ClientDisconnected 7) False" "cl_member ex_gone = Member" "cl_accepted ex_gone = [()]"
  by (simp_all add: ex_gone_def ex_announced_def ex_read_def ex_event_done_eq ex_member_eq client_queue_new_def reader_turn_def
      abort_locked_def notify_disconnect_def ex_send_def notify_all_def io_do_def server_receive_def)

theorem disconnect_is_last_witness: "cl_taken_up ex_gone = [()] \<and> cq_pending_events (cl_queue ex_gone) = 0"
proof -
  have "no_events_of 7 ([] :: unit server_event list)" by (simp add: no_events_of_def)
  from disconnect_is_last [OF ex_fifo this ex_gone_run] ex_gone_state show ?thesis by (auto simp: is_disconnect_def)
qed

theorem no_credit_is_lost_witness:
  "has_credit (cq_credits (cl_queue ex_credited)) \<and> ClientWriterDrained 7 \<in> set (cl_events ex_credited)"
proof -
  have run: "(link_step ex_send ex_recv 7)\<^sup>*\<^sup>* (link_new []) ex_credited"
    unfolding ex_credited_def by (intro ex_turns ex_member_run) (simp add: ex_member_eq)
  have state: "cl_member ex_credited = Member" "\<not> cq_disconnect_notified (cl_queue ex_credited)" "cl_dispatch ex_credited = Idle"
      "has_credit (cq_credits (cl_queue ex_credited))" "\<not> cq_drained_pending (cl_queue ex_credited)"
    by (simp_all add: ex_credited_def ex_write_def ex_call_def ex_member_eq client_queue_new_def try_send_render_def notify_all_def
        writer_turn_def recv_turn_def notify_credit_def ex_send_def no_credits_def has_credit_def)
  have "no_events_of 7 ([] :: unit server_event list)" by (simp add: no_events_of_def)
  from no_credit_is_lost [OF ex_fifo this run state(1,2)] state(3-5) show ?thesis by simp
qed

end
