(* ===== verification/ClientMessages.thy ===== *)
theory ClientMessages
  imports ClientLink InputLease
begin

section \<open>The messages of a client\<close>

text \<open>
  The messages a client sends (\<open>ClientMessage\<close> in \<open>src/src/protocol/wire.rs\<close>) and what the server makes of them in
  \<open>src/src/server/client_transport.rs\<close>: the first one, the hello, admits the client or is answered with a refusal;
  each later one becomes an event for the server thread, a reply, or the end of the connection.  The
  limits on what a client may ask for are checked here, before anything reaches the server's state.

  A \<open>String\<close> is the list of its bytes.  The JSON library is an argument (\<open>message_lib\<close>), and so is the table of methods a client
  may call.
\<close>

definition MAX_INPUT_PAYLOAD :: usize where
  "MAX_INPUT_PAYLOAD = 1024 * 1024"

definition MAX_INPUT_EVENT_BATCH :: usize where
  "MAX_INPUT_EVENT_BATCH = 4096"

definition MAX_CLIENT_SHELL_DIMENSION :: u16 where
  "MAX_CLIENT_SHELL_DIMENSION = 4096"

definition MAX_CLIENT_SHELL_CELLS :: u32 where
  "MAX_CLIENT_SHELL_CELLS = 1000000"

definition MAX_CLIENT_CELL_SIZE_PX :: u32 where
  "MAX_CLIENT_CELL_SIZE_PX = 4096"

definition MAX_CLIPBOARD_IMAGE_PAYLOAD :: usize where
  "MAX_CLIPBOARD_IMAGE_PAYLOAD = 16 * 1024 * 1024"

definition MAX_ENDPOINT_COMMAND_BYTES :: usize where
  "MAX_ENDPOINT_COMMAND_BYTES = 1024 * 1024"

definition MAX_ENDPOINT_BOOT_ID_BYTES :: usize where
  "MAX_ENDPOINT_BOOT_ID_BYTES = 128"

definition MAX_ENDPOINT_REQUEST_ID_BYTES :: usize where
  "MAX_ENDPOINT_REQUEST_ID_BYTES = 128"

definition MIN_CLIENT_COLS :: u16 where
  "MIN_CLIENT_COLS = 1"

definition MIN_CLIENT_ROWS :: u16 where
  "MIN_CLIENT_ROWS = 1"

lemmas message_limits =
  MAX_INPUT_PAYLOAD_def MAX_INPUT_EVENT_BATCH_def MAX_CLIENT_SHELL_DIMENSION_def MAX_CLIENT_SHELL_CELLS_def MAX_CLIENT_CELL_SIZE_PX_def
  MAX_CLIPBOARD_IMAGE_PAYLOAD_def MAX_ENDPOINT_COMMAND_BYTES_def MAX_ENDPOINT_BOOT_ID_BYTES_def MAX_ENDPOINT_REQUEST_ID_BYTES_def

subsection \<open>Wire types\<close>

record client_surface_size =
  css_cols :: u16
  css_rows :: u16

datatype client_key_code =
    Backspace | Enter | KeyLeft | KeyRight | KeyUp | KeyDown | Home | End | PageUp | PageDown | Tab | BackTab | Delete | Insert | Esc
  | Char nat | F nat | KeyNull

datatype client_mouse_button = LeftButton | RightButton | MiddleButton

datatype client_mouse_kind =
    MouseDown client_mouse_button | MouseUp client_mouse_button | Drag client_mouse_button | Moved
  | ScrollUp | ScrollDown | ScrollLeft | ScrollRight

datatype client_mouse_position = CellPosition u16 u16 | PixelPosition u32 u32 u16 u16

record client_mouse_geometry =
  cmg_cols :: u16
  cmg_rows :: u16
  cmg_width_px :: u32
  cmg_height_px :: u32

record client_key =
  ck_code :: client_key_code
  ck_modifiers :: nat
  ck_kind :: key_event_kind
  ck_repeat_count :: u16
  ck_shifted_codepoint :: "u32 option"
  ck_generated_text :: "string option"
  ck_tracks_release :: bool
  ck_physical_key_id :: "physical_key_id option"
  ck_windows_record :: "windows_key_record option"

record client_mouse =
  cm_kind :: client_mouse_kind
  cm_position :: client_mouse_position
  cm_geometry :: "client_mouse_geometry option"
  cm_modifiers :: nat
  cm_lines :: u16

datatype client_pane_input_event =
    KeyInput client_key
  | TextCommit string
  | MouseInput client_mouse
  | PasteInput string

type_synonym client_host_color = "nat \<times> nat \<times> nat"

datatype client_host_theme_update =
    DefaultForeground client_host_color
  | DefaultBackground client_host_color
  | PaletteColors "(nat \<times> client_host_color) list"
  | AppearanceDark
  | AppearanceLight

datatype client_clipboard_image_target = DirectTerminal | PaneTarget string | PopupTarget string

datatype attach_scroll_direction = ScrollsUp | ScrollsDown

datatype attach_scroll_source = Wheel | PageKey "byte list"

record attach_scroll =
  as_source :: attach_scroll_source
  as_direction :: attach_scroll_direction
  as_lines :: u16
  as_column :: "u16 option"
  as_row :: "u16 option"
  as_modifiers :: nat

record client_geometry =
  cg_cols :: u16
  cg_rows :: u16
  cg_cell_width_px :: u32
  cg_cell_height_px :: u32
  cg_pixel_mouse :: bool

datatype client_msg =
    TerminalHello u32 client_geometry
  | InputMessage "byte list"
  | ClipboardImage client_clipboard_image_target string "byte list"
  | Resize client_geometry
  | DetachRequest
  | AttachTerminal string bool
  | AttachScroll attach_scroll
  | ObserveTerminal string
  | ControlTerminal string bool
  | GraphicsTransmissionResult u64 u32 bool
  | GraphicsTransmissionStarted u64 u32
  | ClientShellHello u32 client_geometry bool bool bool
  | ClientShellResize client_geometry
  | ClientShellPaneInput string "client_pane_input_event list"
  | ClientShellPopupInput string "client_pane_input_event list"
  | ClientShellEndpointRequest string string
  | AttachMouse client_mouse
  | ClientShellHostTheme client_host_theme_update
  | ClientShellFocus bool
  | ClientShellMouseCapture bool
  | EndpointControl string string

record view_input =
  vi_boot_id :: string
  vi_views_revision :: u64
  vi_view_id :: string
  vi_tab_id :: string
  vi_pane_id :: string
  vi_events :: "client_pane_input_event list"

text \<open>The variants of \<open>ServerEvent\<close> that the messages of a client give rise to, without its identity.\<close>

datatype 'r message_event =
    EvViewInput view_input
  | EvInput "byte list"
  | EvGraphicsResult u64 u32 bool
  | EvGraphicsStarted u64 u32
  | EvPasteRejected usize usize
  | EvClipboardImage client_clipboard_image_target string "byte list"
  | EvAttachTerminal string bool
  | EvObserveTerminal string
  | EvControlTerminal string bool
  | EvAttachScroll attach_scroll
  | EvAttachMouse client_mouse
  | EvResize client_geometry
  | EvShellResize client_geometry
  | EvShellPaneInput string "client_pane_input_event list"
  | EvShellPopupInput string "client_pane_input_event list"
  | EvShellHostTheme client_host_theme_update
  | EvShellFocus bool
  | EvShellMouseCapture bool
  | EvShellPresentationSync string
  | EvShellEndpointRequest string 'r
  | EvShellEndpointRequestError string string string string

subsection \<open>Limits\<close>

definition client_shell_geometry_error :: "u16 \<Rightarrow> u16 \<Rightarrow> u32 \<Rightarrow> u32 \<Rightarrow> string option" where
  "client_shell_geometry_error cols rows cell_width_px cell_height_px =
     (if cols = 0 \<or> rows = 0 then Some ''client shell requires a non-empty pane surface''
      else if cols > MAX_CLIENT_SHELL_DIMENSION \<or> rows > MAX_CLIENT_SHELL_DIMENSION \<or>
        (cols * rows) mod 4294967296 > MAX_CLIENT_SHELL_CELLS
      then Some ''client shell pane surface exceeds the safe geometry limit''
      else if cell_width_px > MAX_CLIENT_CELL_SIZE_PX \<or> cell_height_px > MAX_CLIENT_CELL_SIZE_PX
      then Some ''client shell cell pixel size exceeds the safe geometry limit''
      else None)"

definition clamp_terminal_size :: "u16 \<Rightarrow> u16 \<Rightarrow> u16 \<times> u16" where
  "clamp_terminal_size cols rows = (max cols MIN_CLIENT_COLS, max rows MIN_CLIENT_ROWS)"

datatype input_event_limit =
    WithinLimits
  | TooManyEvents
  | PasteTooLarge usize
  | InputPayloadTooLarge usize

definition classify_input_event_size :: "usize \<Rightarrow> usize \<Rightarrow> usize \<Rightarrow> input_event_limit" where
  "classify_input_event_size expanded_events paste_bytes input_bytes =
     (if expanded_events > MAX_INPUT_EVENT_BATCH then TooManyEvents
      else let payload_bytes = sat_add u64_max paste_bytes input_bytes in
           if payload_bytes \<le> MAX_INPUT_PAYLOAD then WithinLimits
           else if input_bytes = 0 then PasteTooLarge payload_bytes
           else InputPayloadTooLarge payload_bytes)"

fun expanded_count :: "client_pane_input_event \<Rightarrow> usize" where
  "expanded_count (KeyInput k) = max (ck_repeat_count k) 1"
| "expanded_count (MouseInput m) =
     (if cm_kind m = ScrollUp \<or> cm_kind m = ScrollDown then max (cm_lines m) 1 else 1)"
| "expanded_count (TextCommit t) = 1"
| "expanded_count (PasteInput t) = 1"

fun add_event_size :: "client_pane_input_event \<Rightarrow> usize \<times> usize \<times> usize \<Rightarrow> usize \<times> usize \<times> usize" where
  "add_event_size event (expanded_events, paste_bytes, input_bytes) =
     (sat_add u64_max expanded_events (expanded_count event),
      case event of
        KeyInput k \<Rightarrow>
          (case ck_generated_text k of
             Some t \<Rightarrow> (paste_bytes, sat_add u64_max input_bytes (sat_mul u64_max (length t) (max (ck_repeat_count k) 1)))
           | None \<Rightarrow> (paste_bytes, input_bytes))
      | TextCommit t \<Rightarrow> (paste_bytes, sat_add u64_max input_bytes (length t))
      | MouseInput m \<Rightarrow> (paste_bytes, input_bytes)
      | PasteInput t \<Rightarrow> (sat_add u64_max paste_bytes (length t), input_bytes))"

definition pane_input_event_limit :: "client_pane_input_event list \<Rightarrow> input_event_limit" where
  "pane_input_event_limit events =
     (case fold add_event_size events (0, 0, 0) of
        (expanded_events, paste_bytes, input_bytes) \<Rightarrow> classify_input_event_size expanded_events paste_bytes input_bytes)"

subsection \<open>Pastes\<close>

text \<open>\<open>str::from_utf8\<close>: the well-formed byte sequences of the Unicode standard.\<close>

definition continuation :: "nat \<Rightarrow> nat \<Rightarrow> byte \<Rightarrow> bool" where
  "continuation low high b \<longleftrightarrow> low \<le> unat b \<and> unat b \<le> high"

fun valid_utf8 :: "byte list \<Rightarrow> bool" where
  "valid_utf8 [] = True"
| "valid_utf8 (a # rest) =
     (let n = unat a in
      if n < 128 then valid_utf8 rest
      else case rest of
        [] \<Rightarrow> False
      | b # rest \<Rightarrow>
          if 194 \<le> n \<and> n \<le> 223 then continuation 128 191 b \<and> valid_utf8 rest
          else case rest of
            [] \<Rightarrow> False
          | c # rest \<Rightarrow>
              if 224 \<le> n \<and> n \<le> 239
              then continuation (if n = 224 then 160 else 128) (if n = 237 then 159 else 191) b \<and> continuation 128 191 c \<and> valid_utf8 rest
              else case rest of
                [] \<Rightarrow> False
              | d # rest \<Rightarrow>
                  240 \<le> n \<and> n \<le> 244 \<and> continuation (if n = 240 then 144 else 128) (if n = 244 then 143 else 191) b \<and>
                  continuation 128 191 c \<and> continuation 128 191 d \<and> valid_utf8 rest)"

definition BRACKETED_PASTE_START :: "byte list" where
  "BRACKETED_PASTE_START = [27, 91, 50, 48, 48, 126]"

definition BRACKETED_PASTE_END :: "byte list" where
  "BRACKETED_PASTE_END = [27, 91, 50, 48, 49, 126]"

text \<open>The first place at which a sequence of bytes occurs.\<close>

fun find_subsequence :: "byte list \<Rightarrow> byte list \<Rightarrow> nat option" where
  "find_subsequence data pat =
     (if take (length pat) data = pat then Some 0
      else case data of [] \<Rightarrow> None | d # rest \<Rightarrow> map_option Suc (find_subsequence rest pat))"

declare find_subsequence.simps [simp del]

definition complete_text_bracketed_paste :: "byte list \<Rightarrow> byte list option" where
  "complete_text_bracketed_paste data =
     (if take (length BRACKETED_PASTE_START) data \<noteq> BRACKETED_PASTE_START then None
      else case find_subsequence data BRACKETED_PASTE_END of
             None \<Rightarrow> None
           | Some stop \<Rightarrow>
               if stop + length BRACKETED_PASTE_END \<noteq> length data then None
               else let payload = take (stop - length BRACKETED_PASTE_START) (drop (length BRACKETED_PASTE_START) data) in
                    if valid_utf8 payload then Some payload else None)"

definition is_complete_text_bracketed_paste :: "byte list \<Rightarrow> bool" where
  "is_complete_text_bracketed_paste data \<longleftrightarrow> complete_text_bracketed_paste data \<noteq> None"

subsection \<open>From a message to an event\<close>

text \<open>
  What the JSON library makes of a string, with the error as text; \<open>ml_debug\<close> is how a string is quoted in a message for people.
\<close>

record 'r message_lib =
  ml_request_head :: "string \<Rightarrow> string + string \<times> string"
  ml_request :: "string \<Rightarrow> string + 'r"
  ml_request_id :: "'r \<Rightarrow> string"
  ml_view_input :: "string \<Rightarrow> string + view_input"
  ml_supports_method :: "string \<Rightarrow> bool"
  ml_debug :: "string \<Rightarrow> string"

datatype 'r decoded_endpoint_request =
    DispatchRequest 'r
  | RequestError string string string

definition decode_endpoint_request :: "'r message_lib \<Rightarrow> string \<Rightarrow> string + 'r decoded_endpoint_request" where
  "decode_endpoint_request lib request =
     (case ml_request_head lib request of
        Inl e \<Rightarrow> Inl e
      | Inr (request_id, method) \<Rightarrow>
          if \<not> ml_supports_method lib method
          then Inr (RequestError request_id ''unsupported_method'' (''method '' @ ml_debug lib method @ '' is not available on this machine''))
          else case ml_request lib request of
                 Inr r \<Rightarrow> Inr (DispatchRequest r)
               | Inl e \<Rightarrow> Inr (RequestError request_id ''invalid_request'' (''invalid endpoint request: '' @ e)))"

definition HEALTH_PING_KIND :: string where
  "HEALTH_PING_KIND = ''endpoint.health.ping.v1''"

definition HEALTH_PONG_KIND :: string where
  "HEALTH_PONG_KIND = ''endpoint.health.pong.v1''"

definition VIEW_INPUT_KIND :: string where
  "VIEW_INPUT_KIND = ''endpoint.view-input.v1''"

definition PRESENTATION_EFFECTS_SYNC_KIND :: string where
  "PRESENTATION_EFFECTS_SYNC_KIND = ''endpoint.presentation.sync.v1''"

text \<open>The server answers a health probe without troubling its state; the answer is a control message of a kind and its data.\<close>

definition control_response :: "string \<Rightarrow> string \<Rightarrow> (string \<times> string) option" where
  "control_response kind payload = (if kind = HEALTH_PING_KIND then Some (HEALTH_PONG_KIND, payload) else None)"

definition input_event_for ::
    "(client_pane_input_event list \<Rightarrow> 'r message_event) \<Rightarrow> client_pane_input_event list \<Rightarrow> 'r message_event client_input" where
  "input_event_for event_of events =
     (case pane_input_event_limit events of
        WithinLimits \<Rightarrow> MessageEvent (event_of events)
      | TooManyEvents \<Rightarrow> ReadFailed
      | PasteTooLarge bytes \<Rightarrow> MessageEvent (EvPasteRejected bytes MAX_INPUT_PAYLOAD)
      | InputPayloadTooLarge bytes \<Rightarrow> ReadFailed)"

definition endpoint_request_input :: "'r message_lib \<Rightarrow> string \<Rightarrow> string \<Rightarrow> 'r message_event client_input" where
  "endpoint_request_input lib boot_id request =
     (if MAX_ENDPOINT_BOOT_ID_BYTES < length boot_id \<or> MAX_ENDPOINT_COMMAND_BYTES < length request then ReadFailed
      else case decode_endpoint_request lib request of
             Inl e \<Rightarrow> ReadFailed
           | Inr decoded \<Rightarrow>
               let request_id = (case decoded of DispatchRequest r \<Rightarrow> ml_request_id lib r | RequestError request_id _ _ \<Rightarrow> request_id) in
               if MAX_ENDPOINT_REQUEST_ID_BYTES < length request_id then ReadFailed
               else case decoded of
                      DispatchRequest r \<Rightarrow> MessageEvent (EvShellEndpointRequest boot_id r)
                    | RequestError request_id code message \<Rightarrow> MessageEvent (EvShellEndpointRequestError boot_id request_id code message))"

definition endpoint_control_input ::
    "'r message_lib \<Rightarrow> (string \<times> string \<Rightarrow> string + byte list) \<Rightarrow> bool \<Rightarrow> string \<Rightarrow> string \<Rightarrow> 'r message_event client_input" where
  "endpoint_control_input lib enc has_control_writer kind payload =
     (if kind = VIEW_INPUT_KIND
      then case ml_view_input lib payload of
             Inl e \<Rightarrow> MessageIgnored
           | Inr input \<Rightarrow>
               if MAX_INPUT_PAYLOAD < length payload \<or> pane_input_event_limit (vi_events input) \<noteq> WithinLimits then MessageIgnored
               else MessageEvent (EvViewInput input)
      else if kind = PRESENTATION_EFFECTS_SYNC_KIND then MessageEvent (EvShellPresentationSync payload)
      else case control_response kind payload of
             None \<Rightarrow> MessageIgnored
           | Some response \<Rightarrow>
               if \<not> has_control_writer then MessageIgnored
               else case write_message enc [] response of
                      Inl e \<Rightarrow> ReadFailed
                    | Inr framed \<Rightarrow> ControlReply framed)"

text \<open>
  The body of the read loop.  \<open>ReadFailed\<close> disconnects, as a failed read does; \<open>observe_configured\<close> says whether the socket could
  be prepared for an observer.
\<close>

fun message_input ::
    "'r message_lib \<Rightarrow> (string \<times> string \<Rightarrow> string + byte list) \<Rightarrow> bool \<Rightarrow> bool \<Rightarrow> client_msg \<Rightarrow> 'r message_event client_input" where
  "message_input lib enc w observe_configured (InputMessage input) =
     (if length input > MAX_INPUT_PAYLOAD
      then if is_complete_text_bracketed_paste input then MessageEvent (EvPasteRejected (length input) MAX_INPUT_PAYLOAD) else ReadFailed
      else MessageEvent (EvInput input))"
| "message_input lib enc w observe_configured (ObserveTerminal target) =
     (if observe_configured then MessageEvent (EvObserveTerminal target) else ObserveFailed)"
| "message_input lib enc w observe_configured (ControlTerminal target takeover) = MessageEvent (EvControlTerminal target takeover)"
| "message_input lib enc w observe_configured (GraphicsTransmissionResult transfer_id image_id success) =
     MessageEvent (EvGraphicsResult transfer_id image_id success)"
| "message_input lib enc w observe_configured (GraphicsTransmissionStarted transfer_id image_id) =
     MessageEvent (EvGraphicsStarted transfer_id image_id)"
| "message_input lib enc w observe_configured (ClipboardImage target extension bytes) =
     (if length bytes > MAX_CLIPBOARD_IMAGE_PAYLOAD then ReadFailed else MessageEvent (EvClipboardImage target extension bytes))"
| "message_input lib enc w observe_configured (Resize g) =
     (let (cols, rows) = clamp_terminal_size (cg_cols g) (cg_rows g) in MessageEvent (EvResize (g\<lparr>cg_cols := cols, cg_rows := rows\<rparr>)))"
| "message_input lib enc w observe_configured (ClientShellResize g) =
     (case client_shell_geometry_error (cg_cols g) (cg_rows g) (cg_cell_width_px g) (cg_cell_height_px g) of
        Some reason \<Rightarrow> ReadFailed
      | None \<Rightarrow> MessageEvent (EvShellResize g))"
| "message_input lib enc w observe_configured (ClientShellHostTheme update) =
     (if (case update of PaletteColors colors \<Rightarrow> length colors > 256 | _ \<Rightarrow> False) then ReadFailed
      else MessageEvent (EvShellHostTheme update))"
| "message_input lib enc w observe_configured (ClientShellFocus focused) = MessageEvent (EvShellFocus focused)"
| "message_input lib enc w observe_configured (ClientShellMouseCapture enabled) = MessageEvent (EvShellMouseCapture enabled)"
| "message_input lib enc w observe_configured (ClientShellPaneInput pane_id events) = input_event_for (EvShellPaneInput pane_id) events"
| "message_input lib enc w observe_configured (ClientShellPopupInput terminal_id events) = input_event_for (EvShellPopupInput terminal_id) events"
| "message_input lib enc w observe_configured (ClientShellEndpointRequest boot_id request) = endpoint_request_input lib boot_id request"
| "message_input lib enc w observe_configured (EndpointControl kind payload) = endpoint_control_input lib enc w kind payload"
| "message_input lib enc w observe_configured DetachRequest = DetachMessage"
| "message_input lib enc w observe_configured (AttachTerminal terminal_id takeover) = MessageEvent (EvAttachTerminal terminal_id takeover)"
| "message_input lib enc w observe_configured (AttachScroll scroll) = MessageEvent (EvAttachScroll scroll)"
| "message_input lib enc w observe_configured (AttachMouse mouse) = MessageEvent (EvAttachMouse mouse)"
| "message_input lib enc w observe_configured (TerminalHello version g) = MessageIgnored"
| "message_input lib enc w observe_configured (ClientShellHello version g direct keys mouse) = MessageIgnored"

subsection \<open>The hello\<close>

text \<open>
  The match on the first message in \<open>handle_client_handshake_with_permit\<close>: the geometry and options a client is admitted with,
  or the error it is answered with.
\<close>

definition ENDPOINT_PROTOCOL_GENERATION :: u32 where
  "ENDPOINT_PROTOCOL_GENERATION = 1"

definition ENDPOINT_HELLO_KIND :: string where
  "ENDPOINT_HELLO_KIND = ''endpoint.hello.v1''"

definition SNAPSHOT_CODEC_V1 :: string where
  "SNAPSHOT_CODEC_V1 = ''shell.snapshot.v1''"

definition SURFACE_CODEC_V1 :: string where
  "SURFACE_CODEC_V1 = ''shell.surface.v1''"

definition INPUT_CODEC_V1 :: string where
  "INPUT_CODEC_V1 = ''shell.input.semantic.v1''"

definition BLOB_CODEC_V1 :: string where
  "BLOB_CODEC_V1 = ''shell.blob.v1''"

record shell_hello_options =
  so_pixel_mouse :: bool
  so_direct_graphics :: bool
  so_endpoint_keybindings :: bool
  so_mouse_capture :: bool
  so_surface_active :: bool
  so_surface_reuse :: bool
  so_surface_delta :: bool
  so_ssh_auth_sock :: "string option"
  so_surface_scroll :: bool

record endpoint_client_hello =
  eh_generation :: u32
  eh_cell_width_px :: u32
  eh_cell_height_px :: u32
  eh_surface_size :: client_surface_size
  eh_options :: shell_hello_options
  eh_snapshot_codecs :: "string list"
  eh_surface_codecs :: "string list"
  eh_input_codecs :: "string list"
  eh_blob_codecs :: "string list"

definition supports_required_codecs :: "endpoint_client_hello \<Rightarrow> bool" where
  "supports_required_codecs hello \<longleftrightarrow>
     SNAPSHOT_CODEC_V1 \<in> set (eh_snapshot_codecs hello) \<and> SURFACE_CODEC_V1 \<in> set (eh_surface_codecs hello) \<and>
     INPUT_CODEC_V1 \<in> set (eh_input_codecs hello) \<and> BLOB_CODEC_V1 \<in> set (eh_blob_codecs hello)"

definition endpoint_incompatibility :: "endpoint_client_hello \<Rightarrow> (string \<times> string) option" where
  "endpoint_incompatibility hello =
     (if eh_generation hello \<noteq> ENDPOINT_PROTOCOL_GENERATION
      then Some (''unsupported_generation'', ''endpoint generation '' @ show_nat (eh_generation hello) @
             '' is unsupported; this server supports generation '' @ show_nat ENDPOINT_PROTOCOL_GENERATION)
      else if \<not> supports_required_codecs hello
      then Some (''no_common_core'', ''client and server have no compatible endpoint core codecs'')
      else map_option (\<lambda>reason. (''invalid_surface'', reason))
             (client_shell_geometry_error (css_cols (eh_surface_size hello)) (css_rows (eh_surface_size hello))
                (eh_cell_width_px hello) (eh_cell_height_px hello)))"

datatype render_encoding = SemanticFrame | TerminalAnsi

datatype hello_outcome =
    HelloAdmitted client_geometry "shell_hello_options option"
  | WelcomeError render_encoding string
  | EndpointRejection string string

fun admit_hello :: "(string \<Rightarrow> string + endpoint_client_hello) \<Rightarrow> client_msg \<Rightarrow> hello_outcome" where
  "admit_hello parse (TerminalHello version g) =
     (case check_client_version version of
        Incompatible reason \<Rightarrow> WelcomeError TerminalAnsi reason
      | Compatible \<Rightarrow>
          let (cols, rows) = clamp_terminal_size (cg_cols g) (cg_rows g) in HelloAdmitted (g\<lparr>cg_cols := cols, cg_rows := rows\<rparr>) None)"
| "admit_hello parse (EndpointControl kind payload) =
     (if kind = ENDPOINT_HELLO_KIND
      then case parse payload of
             Inl e \<Rightarrow> EndpointRejection ''invalid_hello'' (''invalid endpoint hello: '' @ e)
           | Inr hello \<Rightarrow>
               (case endpoint_incompatibility hello of
                  Some (code, reason) \<Rightarrow> EndpointRejection code reason
                | None \<Rightarrow>
                    HelloAdmitted \<lparr>cg_cols = css_cols (eh_surface_size hello), cg_rows = css_rows (eh_surface_size hello),
                      cg_cell_width_px = eh_cell_width_px hello, cg_cell_height_px = eh_cell_height_px hello, cg_pixel_mouse = False\<rparr>
                      (Some (eh_options hello)))
      else WelcomeError SemanticFrame ''expected TerminalHello or ClientShellHello as first message'')"
| "admit_hello parse (ClientShellHello version g direct keys mouse) =
     WelcomeError SemanticFrame ''this client predates the stable endpoint protocol; upgrade the Herdr client''"
| "admit_hello parse _ = WelcomeError SemanticFrame ''expected TerminalHello or ClientShellHello as first message''"

section \<open>What reaches the server is bounded\<close>

text \<open>The sizes of a batch without limits on the arithmetic.\<close>

fun typed_bytes :: "client_pane_input_event \<Rightarrow> nat" where
  "typed_bytes (KeyInput k) = (case ck_generated_text k of Some t \<Rightarrow> length t * max (ck_repeat_count k) 1 | None \<Rightarrow> 0)"
| "typed_bytes (TextCommit t) = length t"
| "typed_bytes _ = 0"

fun pasted_bytes :: "client_pane_input_event \<Rightarrow> nat" where
  "pasted_bytes (PasteInput t) = length t"
| "pasted_bytes _ = 0"

text \<open>How many single events an event stands for: a key that is not repeated is one, and so is a wheel that does not say how far.\<close>

fun deliveries :: "client_pane_input_event \<Rightarrow> nat" where
  "deliveries (KeyInput k) = (if ck_repeat_count k = 0 then 1 else ck_repeat_count k)"
| "deliveries (MouseInput m) = (if cm_kind m \<in> {ScrollUp, ScrollDown} \<and> cm_lines m \<noteq> 0 then cm_lines m else 1)"
| "deliveries _ = 1"

definition batch_events :: "client_pane_input_event list \<Rightarrow> nat" where
  "batch_events events = sum_list (map deliveries events)"

lemma expanded_count_deliveries [simp]: "expanded_count event = deliveries event"
  by (cases event) auto

definition batch_bytes :: "client_pane_input_event list \<Rightarrow> nat" where
  "batch_bytes events = sum_list (map pasted_bytes events) + sum_list (map typed_bytes events)"

lemma sat_add_min: "sat_add cap (min cap a) b = min cap (a + b)" "sat_add cap (min cap a) (min cap b) = min cap (a + b)"
  by (auto simp: sat_add_def min_def)

lemma min_add_mul: "min cap (a + sat_mul cap b c) = min cap (a + b * c)"
  by (auto simp: sat_mul_def min_def)

lemma add_event_size_min:
  "add_event_size event (min u64_max a, min u64_max b, min u64_max c) =
     (min u64_max (a + expanded_count event), min u64_max (b + pasted_bytes event), min u64_max (c + typed_bytes event))"
  by (cases event) (simp_all add: sat_add_min min_add_mul split: option.split)

lemma fold_event_size:
  "fold add_event_size events (min u64_max a, min u64_max b, min u64_max c) =
     (min u64_max (a + batch_events events), min u64_max (b + sum_list (map pasted_bytes events)),
      min u64_max (c + sum_list (map typed_bytes events)))"
proof (induction events arbitrary: a b c)
  case (Cons event events)
  then show ?case by (simp add: batch_events_def add_event_size_min add.assoc del: add_event_size.simps)
qed (simp add: batch_events_def)

lemma pane_input_event_limit_exact:
  "pane_input_event_limit events =
     (if batch_events events > MAX_INPUT_EVENT_BATCH then TooManyEvents
      else if batch_bytes events \<le> MAX_INPUT_PAYLOAD then WithinLimits
      else if sum_list (map typed_bytes events) = 0 then PasteTooLarge (min u64_max (batch_bytes events))
      else InputPayloadTooLarge (min u64_max (batch_bytes events)))"
proof -
  have zero: "(0 :: nat) = min u64_max 0" by simp
  have sizes: "fold add_event_size events (0, 0, 0) =
      (min u64_max (batch_events events), min u64_max (sum_list (map pasted_bytes events)), min u64_max (sum_list (map typed_bytes events)))"
    using fold_event_size [of events 0 0 0] by simp
  have "sat_add u64_max (min u64_max p) (min u64_max t) = min u64_max (p + t)" for p t by (rule sat_add_min)
  moreover have "min u64_max t = 0 \<longleftrightarrow> t = 0" for t by (auto simp: min_def u64_max_def)
  moreover have "limit < min u64_max n \<longleftrightarrow> limit < n" "min u64_max n \<le> limit \<longleftrightarrow> n \<le> limit" if "limit < u64_max" for limit n
    using that by auto
  ultimately show ?thesis
    by (simp add: pane_input_event_limit_def sizes classify_input_event_size_def batch_bytes_def message_limits u64_max_def Let_def)
qed

fun geometry_bounded :: "client_geometry \<Rightarrow> bool" where
  "geometry_bounded g \<longleftrightarrow> 1 \<le> cg_cols g \<and> cg_cols g \<le> 4096 \<and> 1 \<le> cg_rows g \<and> cg_rows g \<le> 4096 \<and> cg_cols g * cg_rows g \<le> 1000000 \<and>
     cg_cell_width_px g \<le> 4096 \<and> cg_cell_height_px g \<le> 4096"

definition batch_bounded :: "client_pane_input_event list \<Rightarrow> bool" where
  "batch_bounded events \<longleftrightarrow> batch_events events \<le> 4096 \<and> batch_bytes events \<le> 1048576"

fun event_bounded :: "'r message_lib \<Rightarrow> 'r message_event \<Rightarrow> bool" where
  "event_bounded lib (EvInput input) \<longleftrightarrow> length input \<le> 1048576"
| "event_bounded lib (EvViewInput input) \<longleftrightarrow> batch_bounded (vi_events input)"
| "event_bounded lib (EvShellPaneInput pane_id events) \<longleftrightarrow> batch_bounded events"
| "event_bounded lib (EvShellPopupInput terminal_id events) \<longleftrightarrow> batch_bounded events"
| "event_bounded lib (EvPasteRejected bytes limit) \<longleftrightarrow> limit = 1048576 \<and> limit < bytes"
| "event_bounded lib (EvClipboardImage target extension bytes) \<longleftrightarrow> length bytes \<le> 16777216"
| "event_bounded lib (EvResize g) \<longleftrightarrow> 1 \<le> cg_cols g \<and> 1 \<le> cg_rows g"
| "event_bounded lib (EvShellResize g) \<longleftrightarrow> geometry_bounded g"
| "event_bounded lib (EvShellHostTheme (PaletteColors colors)) \<longleftrightarrow> length colors \<le> 256"
| "event_bounded lib (EvShellEndpointRequest boot_id r) \<longleftrightarrow> length boot_id \<le> 128 \<and> length (ml_request_id lib r) \<le> 128"
| "event_bounded lib (EvShellEndpointRequestError boot_id request_id code message) \<longleftrightarrow> length boot_id \<le> 128 \<and> length request_id \<le> 128"
| "event_bounded lib _ \<longleftrightarrow> True"

lemma geometry_error_None:
  "client_shell_geometry_error cols rows w h = None \<longleftrightarrow>
     1 \<le> cols \<and> cols \<le> 4096 \<and> 1 \<le> rows \<and> rows \<le> 4096 \<and> cols * rows \<le> 1000000 \<and> w \<le> 4096 \<and> h \<le> 4096"
proof -
  have "cols * rows < 4294967296" if "cols \<le> 4096" "rows \<le> 4096"
    using mult_le_mono [OF that] by simp
  then show ?thesis by (auto simp: client_shell_geometry_error_def message_limits)
qed

lemma within_limits_bounded: "pane_input_event_limit events = WithinLimits \<longleftrightarrow> batch_bounded events"
  by (simp add: pane_input_event_limit_exact batch_bounded_def message_limits)

lemma paste_rejected_oversized:
  "pane_input_event_limit events = PasteTooLarge bytes \<Longrightarrow> 1048576 < bytes"
  by (auto simp: pane_input_event_limit_exact message_limits u64_max_def split: if_splits)

lemma input_event_for_bounded:
  assumes "\<And>es. event_bounded lib (event_of es) = batch_bounded es" and "input_event_for event_of events = MessageEvent event"
  shows "event_bounded lib event"
  using assms(2) within_limits_bounded [of events] paste_rejected_oversized [of events]
  by (auto simp: input_event_for_def assms(1) message_limits split: input_event_limit.splits)

lemma endpoint_request_bounded: "endpoint_request_input lib boot_id request = MessageEvent event \<Longrightarrow> event_bounded lib event"
  by (auto simp: endpoint_request_input_def message_limits Let_def split: if_splits sum.splits decoded_endpoint_request.splits)

lemma endpoint_control_bounded: "endpoint_control_input lib enc w kind payload = MessageEvent event \<Longrightarrow> event_bounded lib event"
  by (auto simp: endpoint_control_input_def within_limits_bounded split: if_splits sum.splits option.splits)


definition ex_lib :: "unit message_lib" where
  "ex_lib = \<lparr>ml_request_head = (\<lambda>_. Inl ''json''), ml_request = (\<lambda>_. Inl ''json''), ml_request_id = (\<lambda>_. []), ml_view_input = (\<lambda>_. Inl ''json''),
     ml_supports_method = (\<lambda>_. False), ml_debug = (\<lambda>s. s)\<rparr>"

definition ex_batch :: "client_pane_input_event list" where
  "ex_batch = [TextCommit ''ab'', PasteInput ''cde'']"


text \<open>A hello with a surface is admitted within the same limits.\<close>

theorem admitted_hello_bounded:
  "admit_hello parse msg = HelloAdmitted g (Some options) \<Longrightarrow> geometry_bounded g"
  by (cases msg) (auto simp: endpoint_incompatibility_def geometry_error_None clamp_terminal_size_def Let_def
      split: if_splits sum.splits option.splits version_check.splits)

text \<open>The closing sequence of a paste cannot overlap the opening one, so the slice between them exists.\<close>

lemma find_subsequence_at: "find_subsequence ds pat = Some i \<Longrightarrow> take (length pat) (drop i ds) = pat"
proof (induction ds arbitrary: i)
  case (Cons d ds)
  then show ?case by (subst (asm) find_subsequence.simps) (auto split: if_splits)
qed (subst (asm) find_subsequence.simps, auto split: if_splits)

lemma paste_end_behind_start:
  assumes "take 6 ds = BRACKETED_PASTE_START" and "find_subsequence ds BRACKETED_PASTE_END = Some stop"
  shows "6 \<le> stop"
proof (rule ccontr)
  assume "\<not> 6 \<le> stop"
  then have stop: "stop = 0 \<or> stop = 1 \<or> stop = 2 \<or> stop = 3 \<or> stop = 4 \<or> stop = 5" by auto
  have "length (take 6 ds) = 6" using assms(1) by (simp add: BRACKETED_PASTE_START_def)
  then have "6 \<le> length ds" by simp
  then obtain a b c d e f rest where ds: "ds = a # b # c # d # e # f # rest"
    by (auto simp: Suc_le_length_iff numeral_eq_Suc)
  have "length BRACKETED_PASTE_END = 6" by (simp add: BRACKETED_PASTE_END_def)
  then have "take 6 (drop stop ds) = BRACKETED_PASTE_END" using find_subsequence_at [OF assms(2)] by simp
  with assms(1) stop show False
    unfolding ds BRACKETED_PASTE_START_def BRACKETED_PASTE_END_def by (elim disjE) (simp_all add: take_Cons' drop_Cons')
qed

end
