(* ===== verification/ClientAdmission.thy ===== *)
theory ClientAdmission
  imports EndpointWriter
begin

section \<open>Admitting clients\<close>

text \<open>
  \<open>ClientHandshakeLimiter\<close> of \<open>src/src/server/client_transport.rs\<close>.  Each connection that is accepted gets a thread of its own; only a limited
  number of them may be in the handshake, counted by an atomic counter that is raised with compare-and-exchange.  A
  connection that has passed the handshake is registered under the identity of its queue, so that a shutdown of the server can
  reach it, until both its threads have ended.

  The connections are a list, and the identity of a connection is its position.  \<open>Loaded n\<close> is inside the loop of
  \<open>try_acquire\<close> with the value \<open>n\<close> it last saw; \<open>Inside\<close> holds a permit or not, and is registered or not.  Each atomic operation
  and each critical section is one step.  \<open>ad_handed\<close> is what \<open>close_transports\<close> has returned.
\<close>

definition MAX_CONCURRENT_CLIENT_HANDSHAKES :: usize where
  "MAX_CONCURRENT_CLIENT_HANDSHAKES = 32"

record handshake_limiter =
  hl_active :: usize
  hl_limit :: usize
  hl_transports :: "nat set option"

definition limiter_new :: handshake_limiter where
  "limiter_new = \<lparr>hl_active = 0, hl_limit = MAX_CONCURRENT_CLIENT_HANDSHAKES, hl_transports = Some {}\<rparr>"

datatype registration = Unregistered | Registered | Deregistered

datatype candidate = Arriving | Loaded usize | TurnedAway | Inside bool registration

record admission =
  ad_limiter :: handshake_limiter
  ad_clients :: "candidate list"
  ad_handed :: "nat set option"

definition admission_new :: admission where
  "admission_new = \<lparr>ad_limiter = limiter_new, ad_clients = [], ad_handed = None\<rparr>"

definition put_client :: "nat \<Rightarrow> candidate \<Rightarrow> admission \<Rightarrow> admission" where
  "put_client i c st = st\<lparr>ad_clients := (ad_clients st)[i := c]\<rparr>"

definition set_active_count :: "usize \<Rightarrow> admission \<Rightarrow> admission" where
  "set_active_count n st = st\<lparr>ad_limiter := (ad_limiter st)\<lparr>hl_active := n\<rparr>\<rparr>"

definition set_transports :: "nat set option \<Rightarrow> admission \<Rightarrow> admission" where
  "set_transports ts st = st\<lparr>ad_limiter := (ad_limiter st)\<lparr>hl_transports := ts\<rparr>\<rparr>"

text \<open>One turn of \<open>try_acquire\<close>; a weak exchange may fail for no reason.\<close>

definition try_acquire_turn :: "bool \<Rightarrow> nat \<Rightarrow> admission \<Rightarrow> admission" where
  "try_acquire_turn spurious i st =
     (let l = ad_limiter st in
      case ad_clients st ! i of
        Arriving \<Rightarrow> put_client i (Loaded (hl_active l)) st
      | Loaded n \<Rightarrow>
          if hl_limit l \<le> n then put_client i TurnedAway st
          else if hl_active l = n \<and> \<not> spurious
          then put_client i (Inside True Unregistered) (set_active_count (sat_add u64_max n 1) st)
          else put_client i (Loaded (hl_active l)) st
      | _ \<Rightarrow> st)"

definition drop_permit :: "nat \<Rightarrow> admission \<Rightarrow> admission" where
  "drop_permit i st =
     (case ad_clients st ! i of
        Inside True r \<Rightarrow> put_client i (Inside False r) (set_active_count (fetch_sub (hl_active (ad_limiter st)) 1) st)
      | _ \<Rightarrow> st)"

text \<open>The thread of a connection that is refused by \<open>register\<close> ends.\<close>

definition register_client :: "nat \<Rightarrow> admission \<Rightarrow> admission" where
  "register_client i st =
     (case ad_clients st ! i of
        Inside True Unregistered \<Rightarrow>
          (case hl_transports (ad_limiter st) of
             None \<Rightarrow> put_client i (Inside True Deregistered) st
           | Some ts \<Rightarrow> put_client i (Inside True Registered) (set_transports (Some (insert i ts)) st))
      | _ \<Rightarrow> st)"

text \<open>When both threads have ended the registration is dropped, which removes it from its owner.\<close>

definition drop_registration :: "nat \<Rightarrow> admission \<Rightarrow> admission" where
  "drop_registration i st =
     (case ad_clients st ! i of
        Inside p Registered \<Rightarrow>
          put_client i (Inside p Deregistered) (set_transports (map_option (\<lambda>ts. ts - {i}) (hl_transports (ad_limiter st))) st)
      | _ \<Rightarrow> st)"

definition close_transports :: "admission \<Rightarrow> admission" where
  "close_transports st =
     (case hl_transports (ad_limiter st) of
        None \<Rightarrow> st
      | Some ts \<Rightarrow> set_transports None (st\<lparr>ad_handed := Some ts\<rparr>))"

inductive admission_step :: "admission \<Rightarrow> admission \<Rightarrow> bool" where
  arrives: "admission_step st (st\<lparr>ad_clients := ad_clients st @ [Arriving]\<rparr>)"
| acquires: "i < length (ad_clients st) \<Longrightarrow> admission_step st (try_acquire_turn spurious i st)"
| registers: "i < length (ad_clients st) \<Longrightarrow> admission_step st (register_client i st)"
| releases: "i < length (ad_clients st) \<Longrightarrow> admission_step st (drop_permit i st)"
| ends: "i < length (ad_clients st) \<Longrightarrow> admission_step st (drop_registration i st)"
| closes: "admission_step st (close_transports st)"

section \<open>The limit holds, and a shutdown reaches everyone\<close>

fun holds_permit :: "candidate \<Rightarrow> bool" where
  "holds_permit (Inside p r) = p"
| "holds_permit _ = False"

fun registered :: "candidate \<Rightarrow> bool" where
  "registered (Inside p r) \<longleftrightarrow> r = Registered"
| "registered _ = False"

definition permits :: "candidate list \<Rightarrow> nat" where
  "permits cs = length (filter holds_permit cs)"

lemma permits_update:
  "i < length cs \<Longrightarrow>
     permits (cs[i := c]) + (if holds_permit (cs ! i) then 1 else 0) = permits cs + (if holds_permit c then 1 else 0)"
proof (induction cs arbitrary: i)
  case (Cons d cs)
  then show ?case by (cases i) (auto simp: permits_def split: if_splits)
qed simp

definition limit_inv :: "admission \<Rightarrow> bool" where
  "limit_inv st \<longleftrightarrow> hl_limit (ad_limiter st) = MAX_CONCURRENT_CLIENT_HANDSHAKES \<and>
     hl_active (ad_limiter st) = permits (ad_clients st) \<and> permits (ad_clients st) \<le> MAX_CONCURRENT_CLIENT_HANDSHAKES"

definition within_reach :: "admission \<Rightarrow> nat set" where
  "within_reach st = (case hl_transports (ad_limiter st) of Some ts \<Rightarrow> ts | None \<Rightarrow> (case ad_handed st of Some H \<Rightarrow> H | None \<Rightarrow> {}))"

definition reach_inv :: "admission \<Rightarrow> bool" where
  "reach_inv st \<longleftrightarrow> (hl_transports (ad_limiter st) = None \<longrightarrow> ad_handed st \<noteq> None) \<and>
     (\<forall>i<length (ad_clients st). registered (ad_clients st ! i) \<longrightarrow> i \<in> within_reach st)"

lemma within_reach_simps [simp]:
  "within_reach (st\<lparr>ad_clients := cs\<rparr>) = within_reach st"
  "within_reach (st\<lparr>ad_limiter := (ad_limiter st)\<lparr>hl_active := n\<rparr>\<rparr>) = within_reach st"
  "within_reach (st\<lparr>ad_limiter := l, ad_clients := cs\<rparr>) = within_reach (st\<lparr>ad_limiter := l\<rparr>)"
  by (simp_all add: within_reach_def split: option.split)

lemmas admission_fields = put_client_def set_active_count_def set_transports_def

lemma limit_kept: "limit_inv st \<Longrightarrow> admission_step st st' \<Longrightarrow> limit_inv st'"
proof (erule admission_step.cases; clarify)
  fix i spurious assume inv: "limit_inv st" and i: "i < length (ad_clients st)"
  note update = permits_update [OF i]
  show "limit_inv (try_acquire_turn spurious i st)"
  proof (cases "ad_clients st ! i")
    case (Loaded n)
    then show ?thesis using inv update [of "Inside True Unregistered"] update [of "Loaded (hl_active (ad_limiter st))"] update [of TurnedAway]
      by (auto simp: limit_inv_def try_acquire_turn_def admission_fields Let_def sat_add_def u64_max_def MAX_CONCURRENT_CLIENT_HANDSHAKES_def)
  qed (use inv update [of "Loaded (hl_active (ad_limiter st))"] in \<open>auto simp: limit_inv_def try_acquire_turn_def admission_fields Let_def\<close>)
  show "limit_inv (register_client i st)"
    using inv update [of "Inside True Deregistered"] update [of "Inside True Registered"]
    by (auto simp: limit_inv_def register_client_def admission_fields split: candidate.split bool.split registration.split option.split)
  show "limit_inv (drop_permit i st)"
  proof (cases "\<exists>r. ad_clients st ! i = Inside True r")
    case True
    then obtain r where r: "ad_clients st ! i = Inside True r" by blast
    then have less: "Suc (permits ((ad_clients st)[i := Inside False r])) = permits (ad_clients st)" using update [of "Inside False r"] by simp
    have "fetch_sub (permits (ad_clients st)) 1 = permits ((ad_clients st)[i := Inside False r])"
      using inv unfolding less [symmetric] by (simp add: limit_inv_def fetch_sub_def MAX_CONCURRENT_CLIENT_HANDSHAKES_def flip: less)
    then show ?thesis using inv r less by (simp add: limit_inv_def drop_permit_def admission_fields)
  next
    case False
    then have "drop_permit i st = st" by (auto simp: drop_permit_def split: candidate.split bool.split)
    then show ?thesis using inv by simp
  qed
  show "limit_inv (drop_registration i st)"
  proof (cases "\<exists>p. ad_clients st ! i = Inside p Registered")
    case True
    then obtain p where p: "ad_clients st ! i = Inside p Registered" by blast
    then show ?thesis using inv update [of "Inside p Deregistered"] by (cases p) (simp_all add: limit_inv_def drop_registration_def admission_fields)
  next
    case False
    then have "drop_registration i st = st" by (auto simp: drop_registration_def split: candidate.split registration.split)
    then show ?thesis using inv by simp
  qed
next
  assume "limit_inv st"
  then show "limit_inv (st\<lparr>ad_clients := ad_clients st @ [Arriving]\<rparr>)" "limit_inv (close_transports st)"
    by (auto simp: limit_inv_def permits_def close_transports_def admission_fields split: option.split)
qed

lemma reach_kept:
  assumes "reach_inv st" and "admission_step st st'"
  shows "reach_inv st'"
  using assms(2)
proof cases
  case arrives
  then show ?thesis using assms(1) by (auto simp: reach_inv_def nth_append less_Suc_eq)
next
  case (acquires i spurious)
  then show ?thesis using assms(1)
    by (auto simp: reach_inv_def try_acquire_turn_def admission_fields nth_list_update Let_def split: candidate.split)
next
  case (registers i)
  then show ?thesis using assms(1)
    by (auto simp: reach_inv_def register_client_def admission_fields nth_list_update within_reach_def
        split: candidate.split bool.split registration.split option.splits)
next
  case (releases i)
  then show ?thesis using assms(1)
    by (auto simp: reach_inv_def drop_permit_def admission_fields nth_list_update split: candidate.split bool.split)
next
  case (ends i)
  then show ?thesis using assms(1)
    by (auto simp: reach_inv_def drop_registration_def admission_fields nth_list_update within_reach_def
        split: candidate.split registration.split option.splits)
next
  case closes
  then show ?thesis using assms(1)
    by (auto simp: reach_inv_def close_transports_def admission_fields within_reach_def split: option.splits)
qed

interpretation admission_run: kept_by_steps admission_step "\<lambda>st. limit_inv st \<and> reach_inv st"
  by unfold_locales (use limit_kept reach_kept in blast)

text \<open>Once closed, the registry stays closed.\<close>

lemma closed_stays:
  "admission_step\<^sup>*\<^sup>* st st' \<Longrightarrow> hl_transports (ad_limiter st) = None \<Longrightarrow> hl_transports (ad_limiter st') = None \<and> ad_handed st' = ad_handed st"
proof (induction rule: rtranclp_induct)
  case (step st' st'')
  from step(2) step(3) [OF step(4)] show ?case
    by cases (auto simp: try_acquire_turn_def register_client_def drop_permit_def drop_registration_def close_transports_def admission_fields Let_def
        split: candidate.split bool.split registration.split)
qed simp

text \<open>
  C7. However the connections interleave, at most thirty-two of them are in the handshake and the counter is exactly their number; and
  from the moment the registry is closed, every connection that is registered, then or at any later time, is among those
  handed to the shutdown: none slips in behind it.
\<close>

theorem admission_limited_and_closable:
  assumes "admission_step\<^sup>*\<^sup>* admission_new st"
  shows "hl_active (ad_limiter st) = length (filter holds_permit (ad_clients st)) \<and> hl_active (ad_limiter st) \<le> 32 \<and>
    (\<forall>st'. admission_step\<^sup>*\<^sup>* (close_transports st) st' \<longrightarrow>
       (\<exists>H. ad_handed (close_transports st) = Some H \<and>
          (\<forall>i<length (ad_clients st'). registered (ad_clients st' ! i) \<longrightarrow> i \<in> H)))"
proof -
  have "limit_inv admission_new \<and> reach_inv admission_new"
    by (simp add: limit_inv_def reach_inv_def admission_new_def limiter_new_def permits_def)
  then have inv: "limit_inv st" "reach_inv st" using admission_run.run_keeps [OF assms] by simp_all
  let ?c = "close_transports st"
  have closed: "hl_transports (ad_limiter ?c) = None" by (simp add: close_transports_def admission_fields split: option.split)
  have "limit_inv ?c \<and> reach_inv ?c" using inv limit_kept reach_kept closes by blast
  moreover from this obtain H where H: "ad_handed ?c = Some H" using closed by (auto simp: reach_inv_def)
  ultimately have "\<forall>i<length (ad_clients st'). registered (ad_clients st' ! i) \<longrightarrow> i \<in> H" if "admission_step\<^sup>*\<^sup>* ?c st'" for st'
    using admission_run.run_keeps [OF that] closed_stays [OF that closed] by (auto simp: reach_inv_def within_reach_def)
  with H inv(1) show ?thesis by (auto simp: limit_inv_def permits_def MAX_CONCURRENT_CLIENT_HANDSHAKES_def)
qed

text \<open>One connection is registered when the registry is closed; a second one is refused.\<close>

definition ex_admitted :: admission where
  "ex_admitted = register_client 0 (try_acquire_turn False 0 (try_acquire_turn False 0 (admission_new\<lparr>ad_clients := [Arriving]\<rparr>)))"

lemma ex_admitted_eq: "ex_admitted = \<lparr>ad_limiter = \<lparr>hl_active = 1, hl_limit = 32, hl_transports = Some {0}\<rparr>,
    ad_clients = [Inside True Registered], ad_handed = None\<rparr>"
  by (simp add: ex_admitted_def register_client_def try_acquire_turn_def admission_new_def limiter_new_def admission_fields
      MAX_CONCURRENT_CLIENT_HANDSHAKES_def sat_add_def u64_max_def)

lemma ex_admitted_run: "admission_step\<^sup>*\<^sup>* admission_new ex_admitted"
proof -
  let ?a = "admission_new\<lparr>ad_clients := [Arriving]\<rparr>"
  let ?b = "try_acquire_turn False 0 ?a"
  let ?c = "try_acquire_turn False 0 ?b"
  have "admission_step admission_new ?a" using arrives [of admission_new] by (simp add: admission_new_def)
  moreover have "admission_step ?a ?b" by (rule acquires) simp
  moreover have "admission_step ?b ?c" by (rule acquires) (simp add: try_acquire_turn_def admission_fields)
  moreover have "admission_step ?c ex_admitted" unfolding ex_admitted_def
    by (rule registers) (simp add: try_acquire_turn_def admission_fields admission_new_def limiter_new_def MAX_CONCURRENT_CLIENT_HANDSHAKES_def)
  ultimately show ?thesis by (meson rtranclp.rtrancl_refl rtranclp.rtrancl_into_rtrancl)
qed

theorem admission_limited_and_closable_witness:
  "hl_active (ad_limiter ex_admitted) = 1 \<and> (\<exists>H. ad_handed (close_transports ex_admitted) = Some H \<and> 0 \<in> H)"
proof -
  from admission_limited_and_closable [OF ex_admitted_run] obtain H where
    "ad_handed (close_transports ex_admitted) = Some H"
    "\<forall>i<length (ad_clients (close_transports ex_admitted)). registered (ad_clients (close_transports ex_admitted) ! i) \<longrightarrow> i \<in> H"
    by blast
  then show ?thesis by (simp add: ex_admitted_eq close_transports_def admission_fields)
qed

end
