(* ===== verification/TerminalBytes.thy ===== *)
theory TerminalBytes
  imports Framing
begin

section \<open>Byte strings of a terminal\<close>

text \<open>
  What the observers of a terminal's output share: byte string literals, \<open>slice::split\<close>, decimal
  numbers as they are printed by \<open>format!\<close> and read by \<open>str::parse::<u16>\<close>.
\<close>

definition ascii :: "string \<Rightarrow> byte list" where
  "ascii s = map (\<lambda>c. of_nat (of_char c)) s"

lemma ascii_append [simp]: "ascii (s @ t) = ascii s @ ascii t" and ascii_Nil [simp]: "ascii [] = []"
  by (simp_all add: ascii_def)

text \<open>\<open>slice::split\<close>: the parts between the separators, one more than there are separators.\<close>

fun slice_split :: "byte \<Rightarrow> byte list \<Rightarrow> byte list list" where
  "slice_split sep [] = [[]]"
| "slice_split sep (b # bs) =
     (if b = sep then [] # slice_split sep bs
      else (case slice_split sep bs of [] \<Rightarrow> [[b]] | part # parts \<Rightarrow> (b # part) # parts))"

lemma slice_split_not_Nil [simp]: "slice_split sep bs \<noteq> []"
  by (cases bs) (auto split: list.split)

lemma slice_split_none: "sep \<notin> set bs \<Longrightarrow> slice_split sep bs = [bs]"
  by (induction bs) auto

lemma slice_split_at: "sep \<notin> set as \<Longrightarrow> slice_split sep (as @ sep # bs) = as # slice_split sep bs"
  by (induction as) auto

text \<open>\<open>slice::strip_prefix\<close> for a prefix of one byte.\<close>

definition strip_byte :: "byte \<Rightarrow> byte list \<Rightarrow> byte list option" where
  "strip_byte b bs = (case bs of [] \<Rightarrow> None | c # rest \<Rightarrow> if c = b then Some rest else None)"

subsection \<open>Decimal numbers\<close>

definition is_digit :: "byte \<Rightarrow> bool" where
  "is_digit b \<longleftrightarrow> 48 \<le> unat b \<and> unat b \<le> 57"

definition decimal_value :: "byte list \<Rightarrow> nat" where
  "decimal_value bs = foldl (\<lambda>acc b. 10 * acc + (unat b - 48)) 0 bs"

text \<open>\<open>str::parse::<u16>\<close>: an optional plus sign, at least one digit, no overflow.\<close>

definition parse_u16 :: "byte list \<Rightarrow> u16 option" where
  "parse_u16 bs =
     (let digits = (case strip_byte 43 bs of Some rest \<Rightarrow> rest | None \<Rightarrow> bs) in
      if digits \<noteq> [] \<and> list_all is_digit digits \<and> decimal_value digits \<le> u16_max then Some (decimal_value digits) else None)"

lemma decimal_value_snoc: "decimal_value (bs @ [b]) = 10 * decimal_value bs + (unat b - 48)"
  by (simp add: decimal_value_def)

lemma digit_byte: "d < 10 \<Longrightarrow> of_char (char_of (48 + d)) = (48 + d :: nat)"
  by simp

lemma digit_word: "d < 10 \<Longrightarrow> unat (of_nat (48 + d) :: byte) = 48 + d"
  by (simp add: unat_of_nat take_bit_eq_mod del: of_nat_add)

lemma show_nat_digits:
  "list_all is_digit (ascii (show_nat n)) \<and> ascii (show_nat n) \<noteq> [] \<and> decimal_value (ascii (show_nat n)) = n"
proof (induction n rule: show_nat.induct)
  case (1 n)
  have one: "ascii [char_of (48 + d)] = [of_nat (48 + d)]" "is_digit (of_nat (48 + d))" "unat (of_nat (48 + d) :: byte) - 48 = d"
    if "d < 10" for d :: nat
    using that by (simp_all only: ascii_def is_digit_def digit_word digit_byte list.map) simp_all
  show ?case
  proof (cases "n < 10")
    case True
    then show ?thesis by (subst (1 2 3) show_nat.simps) (simp add: one decimal_value_def del: of_nat_add)
  next
    case False
    then have "n mod 10 < 10" by simp
    with 1 False show ?thesis
      by (subst (1 2 3) show_nat.simps) (simp add: one decimal_value_snoc del: of_nat_add)
  qed
qed

lemma digits_not_byte: "\<not> is_digit b \<Longrightarrow> b \<notin> set (ascii (show_nat n))"
  using show_nat_digits [of n] by (auto simp: list_all_iff)

lemma strip_byte_digits: "strip_byte 43 (ascii (show_nat n)) = None"
  using digits_not_byte [of 43 n] by (auto simp: strip_byte_def is_digit_def split: list.split)

lemma parse_u16_show [simp]: "n \<le> u16_max \<Longrightarrow> parse_u16 (ascii (show_nat n)) = Some n"
  using show_nat_digits [of n] by (simp add: parse_u16_def strip_byte_digits)

lemma parse_u16_bound: "parse_u16 bs = Some n \<Longrightarrow> n \<le> u16_max"
  by (auto simp: parse_u16_def Let_def split: if_splits)

end
