(* ===== verification/KittyKeyboard.thy ===== *)
theory KittyKeyboard
  imports TerminalBytes
begin

section \<open>Keyboard modes a program has requested\<close>

text \<open>
  \<open>KittyKeyboardTracker\<close> of \<open>src/src/pane/kitty_keyboard.rs\<close>: it reads the output of a program in
  chunks, follows the stack of Kitty keyboard flags and the level of \<open>modifyOtherKeys\<close>,
  keeps an unfinished escape sequence of at most 64 bytes for the next chunk, and prints the sequences
  that bring another terminal into the same modes.  The buffer \<open>scratch\<close> only saves an
  allocation (it is cleared before every use) and has no field here.
\<close>

record kitty_tracker =
  kt_pending :: "byte list"
  kt_stack :: "u16 list"
  kt_flags :: u16
  kt_modify_other_keys_level :: nat

definition kitty_default :: kitty_tracker where
  "kitty_default = \<lparr>kt_pending = [], kt_stack = [], kt_flags = 0, kt_modify_other_keys_level = 0\<rparr>"

definition parse_kitty_keyboard_flags :: "byte list \<Rightarrow> u16" where
  "parse_kitty_keyboard_flags bytes =
     (case parse_u16 (hd (slice_split 0x3b bytes)) of Some v \<Rightarrow> v | None \<Rightarrow> 0)"

definition store_pending :: "byte list \<Rightarrow> kitty_tracker \<Rightarrow> kitty_tracker" where
  "store_pending bytes t = t\<lparr>kt_pending := if length bytes \<le> 64 then bytes else []\<rparr>"

text \<open>\<open>self.flags = self.stack.pop().unwrap_or(0)\<close>; the top of the stack is the end of the list.\<close>

definition pop_flags :: "kitty_tracker \<Rightarrow> kitty_tracker" where
  "pop_flags t = (if kt_stack t = [] then t\<lparr>kt_flags := 0\<rparr>
     else t\<lparr>kt_flags := List.last (kt_stack t), kt_stack := butlast (kt_stack t)\<rparr>)"

definition observe_csi_u :: "byte list \<Rightarrow> kitty_tracker \<Rightarrow> kitty_tracker" where
  "observe_csi_u params t =
     (case params of
        [] \<Rightarrow> t
      | kind # rest \<Rightarrow>
          if kind = 0x3e then t\<lparr>kt_stack := kt_stack t @ [kt_flags t], kt_flags := parse_kitty_keyboard_flags rest\<rparr>
          else if kind = 0x3d then t\<lparr>kt_flags := parse_kitty_keyboard_flags rest\<rparr>
          else if kind = 0x3c then (pop_flags ^^ max (parse_kitty_keyboard_flags rest) 1) t
          else t)"

definition observe_modify_other_keys :: "byte list \<Rightarrow> kitty_tracker \<Rightarrow> kitty_tracker" where
  "observe_modify_other_keys params t =
     (case strip_byte 0x3e params of
        None \<Rightarrow> t
      | Some [] \<Rightarrow> t\<lparr>kt_modify_other_keys_level := 0\<rparr>
      | Some params \<Rightarrow>
          (case slice_split 0x3b params of
             [resource] \<Rightarrow>
               if parse_kitty_keyboard_flags resource = 4 then t\<lparr>kt_modify_other_keys_level := 0\<rparr> else t
           | [resource, val] \<Rightarrow>
               if parse_kitty_keyboard_flags resource = 4
               then t\<lparr>kt_modify_other_keys_level := min (parse_kitty_keyboard_flags val) 2\<rparr> else t
           | _ \<Rightarrow> t))"

definition disables_modify_other_keys :: "byte list \<Rightarrow> bool" where
  "disables_modify_other_keys params =
     (case strip_byte 0x3e params of
        None \<Rightarrow> False
      | Some params \<Rightarrow> 0x3b \<notin> set params \<and> parse_kitty_keyboard_flags params = 4)"

text \<open>The final byte of a control sequence and its parameters.\<close>

definition observe_csi :: "byte \<Rightarrow> byte list \<Rightarrow> kitty_tracker \<Rightarrow> kitty_tracker" where
  "observe_csi final params t =
     (if final = 0x75 then observe_csi_u params t
      else if final = 0x6d then observe_modify_other_keys params t
      else if final = 0x6e \<and> disables_modify_other_keys params then t\<lparr>kt_modify_other_keys_level := 0\<rparr>
      else t)"

definition is_final :: "byte \<Rightarrow> bool" where
  "is_final b \<longleftrightarrow> 0x40 \<le> unat b \<and> unat b \<le> 0x7e"

definition terminal_reset :: "kitty_tracker \<Rightarrow> kitty_tracker" where
  "terminal_reset t = t\<lparr>kt_stack := [], kt_flags := 0, kt_modify_other_keys_level := 0\<rparr>"

text \<open>The loop that looks for the end of a control sequence.\<close>

function csi_end :: "byte list \<Rightarrow> nat \<Rightarrow> nat" where
  "csi_end bytes e = (if e < length bytes \<and> \<not> is_final (bytes ! e) then csi_end bytes (Suc e) else e)"
  by pat_completeness auto
termination
  by (relation "measure (\<lambda>(bytes, e). length bytes - e)") auto

declare csi_end.simps [simp del]

lemma csi_end_ge: "e \<le> csi_end bytes e"
  by (induction bytes e rule: csi_end.induct) (subst csi_end.simps, auto)

lemma position_pos: "position P (x # xs) = Some n \<Longrightarrow> \<not> P x \<Longrightarrow> 0 < n"
  by (auto split: if_splits)

text \<open>The loop of \<open>observe\<close> over an index into the bytes.\<close>

function observe_loop :: "byte list \<Rightarrow> nat \<Rightarrow> kitty_tracker \<Rightarrow> kitty_tracker" where
  "observe_loop bytes index t =
     (if index \<ge> length bytes then t
      else if bytes ! index \<noteq> 0x1b then
        (case position (\<lambda>b. b = 0x1b) (drop index bytes) of
           Some offset \<Rightarrow> observe_loop bytes (index + offset) t
         | None \<Rightarrow> t)
      else if index + 1 \<ge> length bytes then store_pending (drop index bytes) t
      else
        let t = (if bytes ! (index + 1) = 0x63 then terminal_reset t else t) in
        if bytes ! (index + 1) \<noteq> 0x5b then observe_loop bytes (index + 1) t
        else
          let e = csi_end bytes (index + 2) in
          if e \<ge> length bytes then store_pending (drop index bytes) t
          else observe_loop bytes (e + 1) (observe_csi (bytes ! e) (take (e - (index + 2)) (drop (index + 2) bytes)) t))"
  by pat_completeness auto
termination
proof (relation "measure (\<lambda>(bytes, index, t). length bytes - index)")
  fix bytes :: "byte list" and index offset and t :: kitty_tracker
  assume "\<not> length bytes \<le> index" "bytes ! index \<noteq> 0x1b" "position (\<lambda>b. b = 0x1b) (drop index bytes) = Some offset"
  then have "0 < offset"
    using position_pos [of "\<lambda>b. b = 0x1b" "bytes ! index" "drop (Suc index) bytes"] by (simp add: Cons_nth_drop_Suc)
  with \<open>\<not> length bytes \<le> index\<close> show "((bytes, index + offset, t), bytes, index, t) \<in> measure (\<lambda>(bytes, index, t). length bytes - index)"
    by simp
next
  fix bytes :: "byte list" and index e and t t' :: kitty_tracker
  assume "\<not> length bytes \<le> index" "e = csi_end bytes (index + 2)" "\<not> length bytes \<le> e"
  with csi_end_ge [of "index + 2" bytes]
  show "((bytes, e + 1, observe_csi (bytes ! e) (take (e - (index + 2)) (drop (index + 2) bytes)) t'), bytes, index, t)
      \<in> measure (\<lambda>(bytes, index, t). length bytes - index)" by simp
qed auto

declare observe_loop.simps [simp del]

definition kitty_observe :: "byte list \<Rightarrow> kitty_tracker \<Rightarrow> kitty_tracker" where
  "kitty_observe bytes t =
     (if kt_pending t = [] then observe_loop bytes 0 t
      else observe_loop (kt_pending t @ bytes) 0 (t\<lparr>kt_pending := []\<rparr>))"

subsection \<open>Replay\<close>

definition set_flags_ansi :: "u16 \<Rightarrow> byte list" where
  "set_flags_ansi flags = [0x1b, 0x5b, 0x3d] @ ascii (show_nat flags) @ [0x75]"

definition push_flags_ansi :: "u16 \<Rightarrow> byte list" where
  "push_flags_ansi flags = [0x1b, 0x5b, 0x3e] @ ascii (show_nat flags) @ [0x75]"

definition modify_other_keys_ansi :: "nat \<Rightarrow> byte list" where
  "modify_other_keys_ansi level = [0x1b, 0x5b, 0x3e, 0x34, 0x3b] @ ascii (show_nat level) @ [0x6d]"

definition replay_ansi :: "kitty_tracker \<Rightarrow> byte list option" where
  "replay_ansi t =
     (let keyboard = (case kt_stack t of
            [] \<Rightarrow> if kt_flags t \<noteq> 0 then set_flags_ansi (kt_flags t) else []
          | baseline # pushed \<Rightarrow>
              (if baseline \<noteq> 0 then set_flags_ansi baseline else []) @ concat (map push_flags_ansi (pushed @ [kt_flags t])));
          ansi = keyboard @ (if kt_modify_other_keys_level t > 0 then modify_other_keys_ansi (kt_modify_other_keys_level t) else [])
      in if ansi = [] then None else Some ansi)"

section \<open>The tracker as a scanner\<close>

text \<open>The reference: one pass over a list, which returns the unfinished sequence at its end.\<close>

function kitty_scan :: "byte list \<Rightarrow> kitty_tracker \<Rightarrow> kitty_tracker \<times> byte list" where
  "kitty_scan [] t = (t, [])"
| "kitty_scan (b # bs) t =
     (if b \<noteq> 0x1b then kitty_scan bs t
      else if bs = [] then (t, [b])
      else if hd bs \<noteq> 0x5b then kitty_scan bs (if hd bs = 0x63 then terminal_reset t else t)
      else if dropWhile (\<lambda>c. \<not> is_final c) (tl bs) = [] then (t, b # bs)
      else kitty_scan (tl (dropWhile (\<lambda>c. \<not> is_final c) (tl bs)))
             (observe_csi (hd (dropWhile (\<lambda>c. \<not> is_final c) (tl bs))) (takeWhile (\<lambda>c. \<not> is_final c) (tl bs)) t))"
  by pat_completeness auto
termination
proof (relation "measure (length \<circ> fst)")
  fix b and bs :: "byte list" and t u :: kitty_tracker
  have "length (dropWhile (\<lambda>c. \<not> is_final c) (tl bs)) \<le> length bs"
    using length_dropWhile_le [of "\<lambda>c. \<not> is_final c" "tl bs"] by simp
  then show "((tl (dropWhile (\<lambda>c. \<not> is_final c) (tl bs)), u), b # bs, t) \<in> measure (length \<circ> fst)" by simp
qed auto

declare kitty_scan.simps(2) [simp del]

lemma kitty_scan_skip [simp]: "b \<noteq> 0x1b \<Longrightarrow> kitty_scan (b # bs) t = kitty_scan bs t"
  by (simp add: kitty_scan.simps)

lemma kitty_scan_position:
  "position (\<lambda>b. b = 0x1b) bs = Some n \<Longrightarrow> kitty_scan bs t = kitty_scan (drop n bs) t"
  "position (\<lambda>b. b = 0x1b) bs = None \<Longrightarrow> kitty_scan bs t = (t, [])"
  by (induction bs arbitrary: n) (auto split: if_splits)

lemma csi_end_eq: "e \<le> length bytes \<Longrightarrow> csi_end bytes e = e + length (takeWhile (\<lambda>c. \<not> is_final c) (drop e bytes))"
proof (induction bytes e rule: csi_end.induct)
  case (1 bytes e)
  show ?case
  proof (cases "e < length bytes")
    case True
    then have "drop e bytes = bytes ! e # drop (Suc e) bytes" by (simp add: Cons_nth_drop_Suc)
    with 1 True show ?thesis by (subst csi_end.simps) simp
  next
    case False
    with 1 show ?thesis by (subst csi_end.simps) simp
  qed
qed

definition scanned :: "kitty_tracker \<times> byte list \<Rightarrow> kitty_tracker" where
  "scanned r = (if snd r = [] then fst r else store_pending (snd r) (fst r))"

lemma drop_two: "index + 1 < length bytes \<Longrightarrow> drop index bytes = bytes ! index # bytes ! (index + 1) # drop (index + 2) bytes"
  by (simp add: Cons_nth_drop_Suc)

lemma csi_parts:
  assumes "i \<le> length bytes"
  defines "e \<equiv> csi_end bytes i" and "ps \<equiv> takeWhile (\<lambda>c. \<not> is_final c) (drop i bytes)"
    and "rest \<equiv> dropWhile (\<lambda>c. \<not> is_final c) (drop i bytes)"
  shows "rest = [] \<longleftrightarrow> length bytes \<le> e" "e < length bytes \<Longrightarrow> hd rest = bytes ! e \<and> tl rest = drop (e + 1) bytes"
    "take (e - i) (drop i bytes) = ps"
proof -
  have e: "e = i + length ps" unfolding e_def ps_def using assms(1) by (rule csi_end_eq)
  have rest: "rest = drop e bytes" unfolding e ps_def rest_def dropWhile_eq_drop by (simp add: add.commute)
  show "rest = [] \<longleftrightarrow> length bytes \<le> e" unfolding rest by simp
  show "e < length bytes \<Longrightarrow> hd rest = bytes ! e \<and> tl rest = drop (e + 1) bytes"
    unfolding rest using Cons_nth_drop_Suc [of e bytes] by (metis Suc_eq_plus1 list.sel(1,3))
  show "take (e - i) (drop i bytes) = ps" unfolding e ps_def by (simp add: takeWhile_eq_take [symmetric])
qed

lemma observe_loop_scan: "observe_loop bytes index t = scanned (kitty_scan (drop index bytes) t)"
proof (induction bytes index t rule: observe_loop.induct)
  case (1 bytes index t)
  note unfold = observe_loop.simps [of bytes index t]
  consider (over) "length bytes \<le> index" | (plain) "index < length bytes" "bytes ! index \<noteq> 0x1b"
    | (cut) "Suc index = length bytes" "bytes ! index = 0x1b" | (esc) "index + 1 < length bytes" "bytes ! index = 0x1b"
    by linarith
  then show ?case
  proof cases
    case over
    then show ?thesis by (simp add: unfold scanned_def)
  next
    case plain
    with "1.IH"(1) show ?thesis
      by (cases "position (\<lambda>b. b = 0x1b) (drop index bytes)")
        (simp_all add: unfold kitty_scan_position scanned_def add.commute)
  next
    case cut
    then have "drop index bytes = [0x1b]" using Cons_nth_drop_Suc [of index bytes] by simp
    with cut show ?thesis by (simp add: unfold kitty_scan.simps scanned_def)
  next
    case esc
    let ?e = "csi_end bytes (index + 2)"
    note whole = drop_two [OF esc(1)] and parts = csi_parts [of "index + 2" bytes]
    have tail: "drop (index + 1) bytes = bytes ! (index + 1) # drop (index + 2) bytes"
      using esc(1) by (simp add: Cons_nth_drop_Suc)
    consider (other) "bytes ! (index + 1) \<noteq> 0x5b" | (unended) "bytes ! (index + 1) = 0x5b" "length bytes \<le> ?e"
      | (csi) "bytes ! (index + 1) = 0x5b" "?e < length bytes" by linarith
    then show ?thesis
    proof cases
      case other
      with "1.IH"(2) esc tail show ?thesis
        unfolding whole by (simp add: unfold kitty_scan.simps(2) [of "0x1b"] Let_def)
    next
      case unended
      with esc parts(1) show ?thesis by (simp add: unfold whole kitty_scan.simps scanned_def del: dropWhile_eq_Nil_conv)
    next
      case csi
      then have "observe_loop bytes index t = scanned (kitty_scan (drop (?e + 1) bytes)
          (observe_csi (bytes ! ?e) (take (?e - (index + 2)) (drop (index + 2) bytes)) t))"
        using "1.IH"(3) esc by (simp add: unfold Let_def)
      with csi esc parts show ?thesis
        unfolding whole by (simp add: kitty_scan.simps(2) [of "0x1b"] del: dropWhile_eq_Nil_conv)
    qed
  qed
qed

lemma kitty_observe_scan: "kitty_observe bytes t = scanned (kitty_scan (kt_pending t @ bytes) (t\<lparr>kt_pending := []\<rparr>))"
proof (cases "kt_pending t = []")
  case True
  then have same: "t\<lparr>kt_pending := []\<rparr> = t" by (cases t) simp
  show ?thesis unfolding same by (simp add: kitty_observe_def observe_loop_scan True)
qed (simp add: kitty_observe_def observe_loop_scan)

subsection \<open>What the steps keep\<close>

text \<open>The widths of the fields, and the bound on the sequence that is kept.\<close>

definition kitty_ok :: "kitty_tracker \<Rightarrow> bool" where
  "kitty_ok t \<longleftrightarrow> length (kt_pending t) \<le> 64 \<and> list_all (\<lambda>f. f \<le> u16_max) (kt_stack t) \<and> kt_flags t \<le> u16_max \<and>
     kt_modify_other_keys_level t \<le> 2"

lemma parse_flags_bound [simp]: "parse_kitty_keyboard_flags bs \<le> u16_max"
  using parse_u16_bound by (auto simp: parse_kitty_keyboard_flags_def split: option.split)

lemma pop_flags_keeps [simp]: "kitty_ok t \<Longrightarrow> kitty_ok (pop_flags t)" "kt_pending (pop_flags t) = kt_pending t"
  by (auto simp: kitty_ok_def pop_flags_def list_all_iff dest: in_set_butlastD)

lemma pop_many_keeps [simp]: "kitty_ok t \<Longrightarrow> kitty_ok ((pop_flags ^^ n) t)" "kt_pending ((pop_flags ^^ n) t) = kt_pending t"
  by (induction n) auto

lemma set_modes_ok:
  "kitty_ok t \<Longrightarrow> f \<le> u16_max \<Longrightarrow> kitty_ok (t\<lparr>kt_flags := f\<rparr>)"
  "kitty_ok t \<Longrightarrow> f \<le> u16_max \<Longrightarrow> kitty_ok (t\<lparr>kt_stack := kt_stack t @ [kt_flags t], kt_flags := f\<rparr>)"
  "kitty_ok t \<Longrightarrow> l \<le> 2 \<Longrightarrow> kitty_ok (t\<lparr>kt_modify_other_keys_level := l\<rparr>)"
  by (simp_all add: kitty_ok_def)

lemma observe_csi_u_keeps [simp]:
  "kitty_ok t \<Longrightarrow> kitty_ok (observe_csi_u ps t)" "kt_pending (observe_csi_u ps t) = kt_pending t"
  unfolding observe_csi_u_def by (cases ps; simp add: set_modes_ok)+

lemma observe_modify_other_keys_keeps [simp]:
  "kitty_ok t \<Longrightarrow> kitty_ok (observe_modify_other_keys ps t)" "kt_pending (observe_modify_other_keys ps t) = kt_pending t"
  by (simp_all add: observe_modify_other_keys_def set_modes_ok split: option.split list.split)

lemma observe_csi_keeps [simp]: "kitty_ok t \<Longrightarrow> kitty_ok (observe_csi f ps t)" "kt_pending (observe_csi f ps t) = kt_pending t"
  by (simp_all add: observe_csi_def set_modes_ok)

lemma reset_keeps [simp]: "kitty_ok t \<Longrightarrow> kitty_ok (terminal_reset t)" "kt_pending (terminal_reset t) = kt_pending t"
  by (simp_all add: kitty_ok_def terminal_reset_def)

lemma kitty_scan_keeps:
  "kitty_ok t \<Longrightarrow> kitty_ok (fst (kitty_scan bs t))" "kt_pending (fst (kitty_scan bs t)) = kt_pending t"
  by (induction bs t rule: kitty_scan.induct) (simp_all add: kitty_scan.simps)

lemma kitty_observe_keeps: "kitty_ok t \<Longrightarrow> kitty_ok (kitty_observe bytes t)"
proof -
  assume "kitty_ok t"
  then have "kitty_ok (t\<lparr>kt_pending := []\<rparr>)" by (simp add: kitty_ok_def)
  from kitty_scan_keeps(1) [OF this, of "kt_pending t @ bytes"] show ?thesis
    by (auto simp: kitty_observe_scan scanned_def store_pending_def kitty_ok_def)
qed

lemma kitty_run_keeps: "kitty_ok t \<Longrightarrow> kitty_ok (fold kitty_observe chunks t)"
  by (induction chunks arbitrary: t) (auto intro: kitty_observe_keeps)

subsection \<open>Chunks\<close>

lemma kitty_scan_append: "kitty_scan (a @ b) t = (case kitty_scan a t of (t', tail) \<Rightarrow> kitty_scan (tail @ b) t')"
proof (induction a t rule: kitty_scan.induct)
  case (2 x xs t)
  let ?P = "\<lambda>c. \<not> is_final c"
  have cut: "takeWhile ?P (tl xs @ b) = takeWhile ?P (tl xs)" "dropWhile ?P (tl xs @ b) = dropWhile ?P (tl xs) @ b"
    if "dropWhile ?P (tl xs) \<noteq> []"
    using that by (auto simp: takeWhile_append dropWhile_append)
  show ?case
  proof (cases "x = 0x1b \<and> xs \<noteq> [] \<and> hd xs = 0x5b \<and> dropWhile ?P (tl xs) \<noteq> []")
    case True
    then have "kitty_scan ((x # xs) @ b) t = kitty_scan (tl (dropWhile ?P (tl xs)) @ b)
        (observe_csi (hd (dropWhile ?P (tl xs))) (takeWhile ?P (tl xs)) t)"
      by (simp add: kitty_scan.simps cut del: dropWhile_eq_Nil_conv)
    with True "2.IH"(3) show ?thesis by (simp add: kitty_scan.simps(2) [of "0x1b" xs] del: dropWhile_eq_Nil_conv)
  next
    case False
    then consider "x \<noteq> 0x1b" | "x = 0x1b" "xs = []" | "x = 0x1b" "xs \<noteq> []" "hd xs = 0x5b" "dropWhile ?P (tl xs) = []"
      | "x = 0x1b" "xs \<noteq> []" "hd xs \<noteq> 0x5b" by blast
    then show ?thesis
      using "2.IH"(1,2)
      by cases (simp_all add: kitty_scan.simps(2) [of "0x1b" "[]"] kitty_scan.simps(2) [of "0x1b" xs] kitty_scan.simps(2) [of "0x1b" "xs @ b"])
  qed
qed simp

text \<open>The unfinished escape sequence after some output.\<close>

definition unfinished :: "kitty_tracker \<Rightarrow> byte list \<Rightarrow> byte list" where
  "unfinished t bytes = snd (kitty_scan (kt_pending t @ bytes) (t\<lparr>kt_pending := []\<rparr>))"

text \<open>
  C37. How the output of a program is cut into chunks does not matter: observing two
  chunks is observing them joined, whatever sequence they split, as long as the sequence that
  is unfinished at the cut has at most 64 bytes.
\<close>

theorem observing_chunks_is_observing_all:
  assumes "length (unfinished t a) \<le> 64"
  shows "kitty_observe b (kitty_observe a t) = kitty_observe (a @ b) t"
proof -
  let ?t = "t\<lparr>kt_pending := []\<rparr>"
  obtain t' tail where scan: "kitty_scan (kt_pending t @ a) ?t = (t', tail)" by fastforce
  have tail: "length tail \<le> 64" using assms by (simp add: scan unfinished_def)
  have empty: "kt_pending t' = []" using kitty_scan_keeps(2) [of "kt_pending t @ a" ?t] by (simp add: scan)
  then have same: "t'\<lparr>kt_pending := []\<rparr> = t'" by simp
  have first: "kitty_observe a t = t'\<lparr>kt_pending := tail\<rparr>"
    using tail empty by (simp add: kitty_observe_scan scan scanned_def store_pending_def)
  have "kitty_scan (kt_pending t @ a @ b) ?t = kitty_scan (tail @ b) t'"
    using kitty_scan_append [of "kt_pending t @ a" b ?t] by (simp add: scan)
  then show ?thesis unfolding first by (simp add: kitty_observe_scan same)
qed

theorem observing_chunks_is_observing_all_witness:
  "kitty_observe [0x31, 0x75] (kitty_observe [0x1b, 0x5b, 0x3e] kitty_default) =
     kitty_observe [0x1b, 0x5b, 0x3e, 0x31, 0x75] kitty_default"
proof -
  have "length (unfinished kitty_default [0x1b, 0x5b, 0x3e]) \<le> 64"
    by (simp add: unfinished_def kitty_default_def kitty_scan.simps is_final_def)
  from observing_chunks_is_observing_all [OF this, of "[0x31, 0x75]"] show ?thesis by simp
qed

subsection \<open>Replaying the modes\<close>

lemma kitty_scan_csi:
  assumes "list_all (\<lambda>c. \<not> is_final c) ps" and "is_final f"
  shows "kitty_scan (0x1b # 0x5b # ps @ f # rest) t = kitty_scan rest (observe_csi f ps t)"
proof -
  let ?P = "\<lambda>c. \<not> is_final c"
  have "takeWhile ?P (ps @ f # rest) = ps" "dropWhile ?P (ps @ f # rest) = f # rest"
    using assms by (auto simp: list_all_iff takeWhile_tail dropWhile_append)
  then show ?thesis by (simp add: kitty_scan.simps(2) [of "0x1b"] del: dropWhile_eq_Nil_conv)
qed

lemma digits_not_final: "list_all (\<lambda>c. \<not> is_final c) (ascii (show_nat n))"
  using show_nat_digits [of n] by (auto simp: list_all_iff is_digit_def is_final_def)

lemma digits_no_semicolon: "0x3b \<notin> set (ascii (show_nat n))"
  by (rule digits_not_byte) (simp add: is_digit_def)

lemma parse_flags_show [simp]: "n \<le> u16_max \<Longrightarrow> parse_kitty_keyboard_flags (ascii (show_nat n)) = n"
  by (simp add: parse_kitty_keyboard_flags_def slice_split_none [OF digits_no_semicolon])

lemma scan_set_flags [simp]:
  assumes "n \<le> u16_max"
  shows "kitty_scan (set_flags_ansi n @ rest) t = kitty_scan rest (t\<lparr>kt_flags := n\<rparr>)"
  using kitty_scan_csi [of "0x3d # ascii (show_nat n)" "0x75" rest t] digits_not_final [of n] assms
  by (simp add: set_flags_ansi_def is_final_def observe_csi_def observe_csi_u_def)

lemma scan_push_flags [simp]:
  assumes "n \<le> u16_max"
  shows "kitty_scan (push_flags_ansi n @ rest) t = kitty_scan rest (t\<lparr>kt_stack := kt_stack t @ [kt_flags t], kt_flags := n\<rparr>)"
  using kitty_scan_csi [of "0x3e # ascii (show_nat n)" "0x75" rest t] digits_not_final [of n] assms
  by (simp add: push_flags_ansi_def is_final_def observe_csi_def observe_csi_u_def)

lemma scan_push_many:
  "list_all (\<lambda>n. n \<le> u16_max) ns \<Longrightarrow> kitty_scan (concat (map push_flags_ansi (ns @ [f])) @ rest) t =
     kitty_scan (push_flags_ansi f @ rest) (fold (\<lambda>n u. u\<lparr>kt_stack := kt_stack u @ [kt_flags u], kt_flags := n\<rparr>) ns t)"
  by (induction ns arbitrary: t) auto

lemma push_many_stack:
  "fold (\<lambda>n u. u\<lparr>kt_stack := kt_stack u @ [kt_flags u], kt_flags := n\<rparr>) ns t =
     (if ns = [] then t else t\<lparr>kt_stack := kt_stack t @ kt_flags t # butlast ns, kt_flags := List.last ns\<rparr>)"
  by (induction ns arbitrary: t) auto

lemma scan_modify_other_keys [simp]:
  assumes "n \<le> 2"
  shows "kitty_scan (modify_other_keys_ansi n @ rest) t = kitty_scan rest (t\<lparr>kt_modify_other_keys_level := n\<rparr>)"
proof -
  have four: "parse_kitty_keyboard_flags [0x34] = 4"
    by (simp add: parse_kitty_keyboard_flags_def parse_u16_def strip_byte_def is_digit_def decimal_value_def u16_max_def)
  have "slice_split 0x3b ([0x34] @ 0x3b # ascii (show_nat n)) = [[0x34], ascii (show_nat n)]"
    by (subst slice_split_at) (simp_all add: slice_split_none [OF digits_no_semicolon])
  then show ?thesis
    using kitty_scan_csi [of "0x3e # 0x34 # 0x3b # ascii (show_nat n)" "0x6d" rest t] digits_not_final [of n] assms
    by (simp add: modify_other_keys_ansi_def is_final_def observe_csi_def observe_modify_other_keys_def strip_byte_def four u16_max_def)
qed

text \<open>What another terminal needs to know of the tracker.\<close>

definition keyboard_modes :: "kitty_tracker \<Rightarrow> u16 list \<times> u16 \<times> nat" where
  "keyboard_modes t = (kt_stack t, kt_flags t, kt_modify_other_keys_level t)"

lemma replay_scan:
  assumes "kitty_ok t"
  defines "ansi \<equiv> case replay_ansi t of None \<Rightarrow> [] | Some ansi \<Rightarrow> ansi"
  shows "kitty_scan ansi kitty_default = (kitty_default\<lparr>kt_stack := kt_stack t, kt_flags := kt_flags t,
      kt_modify_other_keys_level := kt_modify_other_keys_level t\<rparr>, [])"
proof -
  let ?d = "kitty_default\<lparr>kt_stack := kt_stack t, kt_flags := kt_flags t\<rparr>"
  define keys where "keys = (if kt_modify_other_keys_level t > 0 then modify_other_keys_ansi (kt_modify_other_keys_level t) else [])"
  have keys: "kitty_scan keys u = (u\<lparr>kt_modify_other_keys_level := kt_modify_other_keys_level t\<rparr>, [])"
    if "kt_modify_other_keys_level u = 0" for u
  proof -
    have "kt_modify_other_keys_level t = 0 \<Longrightarrow> u\<lparr>kt_modify_other_keys_level := 0\<rparr> = u" using that by (cases u) simp
    then show ?thesis using assms(1) scan_modify_other_keys [of "kt_modify_other_keys_level t" "[]" u]
      by (auto simp: keys_def kitty_ok_def)
  qed
  have "kitty_scan ansi kitty_default = kitty_scan keys ?d"
  proof (cases "kt_stack t")
    case Nil
    then have "ansi = (if kt_flags t \<noteq> 0 then set_flags_ansi (kt_flags t) else []) @ keys"
      by (simp add: ansi_def replay_ansi_def keys_def Let_def)
    then show ?thesis using Nil assms(1) by (simp add: kitty_ok_def kitty_default_def)
  next
    case (Cons base pushed)
    have ok: "base \<le> u16_max" "list_all (\<lambda>n. n \<le> u16_max) pushed" "kt_flags t \<le> u16_max"
      using assms(1) Cons by (simp_all add: kitty_ok_def)
    have ansi: "ansi = (if base \<noteq> 0 then set_flags_ansi base else []) @ concat (map push_flags_ansi (pushed @ [kt_flags t])) @ keys"
      using Cons by (simp add: ansi_def replay_ansi_def keys_def Let_def)
    have "kitty_scan ansi kitty_default =
        kitty_scan (concat (map push_flags_ansi (pushed @ [kt_flags t])) @ keys) (kitty_default\<lparr>kt_flags := base\<rparr>)"
      unfolding ansi using ok(1) by (simp add: kitty_default_def)
    also have "\<dots> = kitty_scan keys ?d"
      unfolding scan_push_many [OF ok(2)] push_many_stack using ok(3) Cons by (simp add: kitty_default_def)
    finally show ?thesis .
  qed
  then show ?thesis by (simp add: keys kitty_default_def)
qed

text \<open>
  C38. Replaying restores the modes: whatever a program has sent, in whatever chunks, a fresh
  tracker that reads what \<open>replay_ansi\<close> prints has the same stack of flags, the same flags and the
  same level of \<open>modifyOtherKeys\<close>, and waits for nothing more.
\<close>

theorem replay_restores_keyboard_modes:
  "keyboard_modes (kitty_observe (case replay_ansi (fold kitty_observe chunks kitty_default) of None \<Rightarrow> [] | Some ansi \<Rightarrow> ansi) kitty_default)
     = keyboard_modes (fold kitty_observe chunks kitty_default) \<and>
   kt_pending (kitty_observe (case replay_ansi (fold kitty_observe chunks kitty_default) of None \<Rightarrow> [] | Some ansi \<Rightarrow> ansi) kitty_default) = []"
proof -
  have "kitty_ok (fold kitty_observe chunks kitty_default)"
    by (rule kitty_run_keeps) (simp add: kitty_ok_def kitty_default_def)
  from replay_scan [OF this] show ?thesis
    by (simp add: kitty_observe_scan scanned_def keyboard_modes_def kitty_default_def)
qed

end
