(* ===== verification/Xtgettcap.thy ===== *)
theory Xtgettcap
  imports TerminalBytes
begin

section \<open>Capability queries with C1 controls\<close>

text \<open>
  \<open>C1XtgettcapQueryTracker\<close> of \<open>src/src/pane/xtgettcap.rs\<close>: a state machine over the bytes a program
  writes, which answers \<open>XTGETTCAP\<close> queries in the raw C1 form and records where in the chunk
  each answer belongs.  The loop of \<open>observe\<close> skips bytes that cannot matter in two of the
  states; the machine without the skipping is the reference.
\<close>

unbundle bit_operations_syntax

record xt_response =
  xr_end_offset :: usize
  xr_bytes :: "byte list"
  xr_suppress_native :: bool

datatype xt_state =
    Ground | Escape | DcsIntro | DcsIntroPlus | DcsBody | DcsEscape | IgnoreOsc | IgnoreOscEscape
  | IgnoreString | IgnoreStringEscape | OversizedDcs | OversizedDcsEscape

record xt_tracker =
  xt_at :: xt_state
  xt_raw_c1_intro :: bool
  xt_native_dcs_pending :: bool
  xt_body :: "byte list"
  xt_pending :: "xt_response list"

definition xt_default :: xt_tracker where
  "xt_default = \<lparr>xt_at = Ground, xt_raw_c1_intro = False, xt_native_dcs_pending = False, xt_body = [], xt_pending = []\<rparr>"

subsection \<open>Answers\<close>

definition hex_digit :: "nat \<Rightarrow> byte" where
  "hex_digit n = ascii ''0123456789ABCDEF'' ! n"

definition append_upper_hex :: "byte list \<Rightarrow> byte list \<Rightarrow> byte list" where
  "append_upper_hex bytes output = output @ concat (map (\<lambda>b. [hex_digit (unat (drop_bit 4 b)), hex_digit (unat (b AND 0x0f))]) bytes)"

definition xtgettcap_value :: "byte list \<Rightarrow> byte list option option" where
  "xtgettcap_value cap_hex =
     (if cap_hex = ascii ''5463'' then Some None
      else if cap_hex = ascii ''524742'' then Some (Some (ascii ''8''))
      else if cap_hex = ascii ''73657472676266'' then Some (Some ([0x5c] @ ascii ''E[38:2:%p1%d:%p2%d:%p3%dm''))
      else if cap_hex = ascii ''73657472676262'' then Some (Some ([0x5c] @ ascii ''E[48:2:%p1%d:%p2%d:%p3%dm''))
      else if cap_hex = ascii ''4D73'' then Some (Some ([0x5c] @ ascii ''E]52;%p1%s;%p2%s'' @ [0x5c] @ ascii ''007''))
      else if cap_hex = ascii ''5375'' then Some None
      else if cap_hex = ascii ''536D756C78'' then Some (Some ([0x5c] @ ascii ''E[4:%p1%dm''))
      else if cap_hex = ascii ''536574756C63'' then
        Some (Some ([0x5c] @ ascii ''E[58:2::%p1%{65536}%/%d:%p1%{256}%/%{255}%&%d:%p1%{255}%&%d%;m''))
      else None)"

definition build_xtgettcap_response :: "byte list \<Rightarrow> byte list option \<Rightarrow> byte list" where
  "build_xtgettcap_response cap_hex value =
     (let response = [0x1b] @ ascii ''P1+r'' @ cap_hex;
          response = (case value of None \<Rightarrow> response | Some v \<Rightarrow> append_upper_hex v (response @ [0x3d]))
      in response @ [0x1b, 0x5c])"

definition is_ascii_hexdigit :: "byte \<Rightarrow> bool" where
  "is_ascii_hexdigit b \<longleftrightarrow> (let n = unat b in 48 \<le> n \<and> n \<le> 57 \<or> 65 \<le> n \<and> n \<le> 70 \<or> 97 \<le> n \<and> n \<le> 102)"

definition to_ascii_uppercase :: "byte \<Rightarrow> byte" where
  "to_ascii_uppercase b = (if 97 \<le> unat b \<and> unat b \<le> 122 then b - 32 else b)"

definition xtgettcap_response :: "byte list \<Rightarrow> byte list option" where
  "xtgettcap_response cap_hex =
     (if cap_hex = [] \<or> length cap_hex mod 2 \<noteq> 0 then None
      else if \<not> list_all is_ascii_hexdigit cap_hex then None
      else
        let normalized = map to_ascii_uppercase cap_hex in
        case xtgettcap_value normalized of
          None \<Rightarrow> None
        | Some v \<Rightarrow> Some (build_xtgettcap_response normalized v))"

subsection \<open>One byte\<close>

definition finalize :: "usize \<Rightarrow> xt_tracker \<Rightarrow> xt_tracker" where
  "finalize end_offset t =
     t\<lparr>xt_pending := xt_pending t @ List.map_filter (\<lambda>cap. map_option (\<lambda>bytes. \<lparr>xr_end_offset = end_offset,
         xr_bytes = bytes, xr_suppress_native = False\<rparr>) (xtgettcap_response cap)) (slice_split 0x3b (xt_body t)),
       xt_body := []\<rparr>"

definition native_dispatch :: "usize \<Rightarrow> byte \<Rightarrow> xt_tracker \<Rightarrow> xt_tracker" where
  "native_dispatch index b t =
     (if xt_native_dcs_pending t \<and> b \<in> {0x1b, 0x18, 0x1a}
      then t\<lparr>xt_pending := xt_pending t @ [\<lparr>xr_end_offset = index + 1, xr_bytes = [], xr_suppress_native = True\<rparr>],
             xt_native_dcs_pending := False\<rparr>
      else t)"

definition xt_transition :: "usize \<Rightarrow> byte \<Rightarrow> xt_tracker \<Rightarrow> xt_tracker" where
  "xt_transition index b t =
     (case xt_at t of
        Ground \<Rightarrow>
          if b = 0x1b then t\<lparr>xt_at := Escape\<rparr>
          else if b = 0x90 then t\<lparr>xt_body := [], xt_raw_c1_intro := True, xt_at := DcsIntro\<rparr>
          else if b = 0x9d then t\<lparr>xt_at := IgnoreOsc\<rparr>
          else if b \<in> {0x98, 0x9e, 0x9f} then t\<lparr>xt_at := IgnoreString\<rparr>
          else t
      | Escape \<Rightarrow>
          if b = 0x50 then t\<lparr>xt_raw_c1_intro := False, xt_body := [], xt_at := DcsIntro\<rparr>
          else if b = 0x5d then t\<lparr>xt_body := [], xt_at := IgnoreOsc\<rparr>
          else if b \<in> {0x5f, 0x5e, 0x58} then t\<lparr>xt_body := [], xt_at := IgnoreString\<rparr>
          else if b = 0x1b then t\<lparr>xt_at := Escape\<rparr>
          else t\<lparr>xt_at := Ground\<rparr>
      | DcsIntro \<Rightarrow>
          if b = 0x2b then t\<lparr>xt_at := DcsIntroPlus\<rparr>
          else if b = 0x1b then t\<lparr>xt_at := IgnoreStringEscape\<rparr>
          else if b = 0x9c then t\<lparr>xt_at := Ground\<rparr>
          else t\<lparr>xt_at := IgnoreString\<rparr>
      | DcsIntroPlus \<Rightarrow>
          if b = 0x71 then t\<lparr>xt_at := DcsBody\<rparr>
          else if b = 0x1b then t\<lparr>xt_at := IgnoreStringEscape\<rparr>
          else if b = 0x9c then t\<lparr>xt_at := Ground\<rparr>
          else t\<lparr>xt_at := IgnoreString\<rparr>
      | DcsBody \<Rightarrow>
          if b = 0x1b then t\<lparr>xt_at := DcsEscape\<rparr>
          else if b = 0x9c then
            (finalize (index + 1) (t\<lparr>xt_native_dcs_pending := (xt_native_dcs_pending t \<or> \<not> xt_raw_c1_intro t)\<rparr>))\<lparr>xt_at := Ground\<rparr>
          else t\<lparr>xt_body := xt_body t @ [b]\<rparr>
      | DcsEscape \<Rightarrow>
          if b = 0x5c then
            (if xt_raw_c1_intro t then finalize (index + 1) t else t\<lparr>xt_body := []\<rparr>)\<lparr>xt_at := Ground\<rparr>
          else if b \<noteq> 0x1b then t\<lparr>xt_body := [], xt_at := IgnoreString\<rparr>
          else t
      | IgnoreOsc \<Rightarrow>
          if b = 0x1b then t\<lparr>xt_at := IgnoreOscEscape\<rparr>
          else if b \<in> {0x07, 0x9c} then t\<lparr>xt_at := Ground\<rparr>
          else t
      | IgnoreOscEscape \<Rightarrow>
          if b = 0x5c then t\<lparr>xt_at := Ground\<rparr> else if b \<noteq> 0x1b then t\<lparr>xt_at := IgnoreOsc\<rparr> else t
      | IgnoreString \<Rightarrow>
          if b = 0x1b then t\<lparr>xt_at := IgnoreStringEscape\<rparr> else if b = 0x9c then t\<lparr>xt_at := Ground\<rparr> else t
      | IgnoreStringEscape \<Rightarrow>
          if b = 0x5c then t\<lparr>xt_at := Ground\<rparr> else if b \<noteq> 0x1b then t\<lparr>xt_at := IgnoreString\<rparr> else t
      | OversizedDcs \<Rightarrow>
          if b = 0x1b then t\<lparr>xt_at := OversizedDcsEscape\<rparr> else if b = 0x9c then t\<lparr>xt_at := Ground\<rparr> else t
      | OversizedDcsEscape \<Rightarrow>
          if b = 0x5c then t\<lparr>xt_at := Ground\<rparr> else if b \<noteq> 0x1b then t\<lparr>xt_at := OversizedDcs\<rparr> else t)"

definition limit_body :: "xt_tracker \<Rightarrow> xt_tracker" where
  "limit_body t = (if 1024 < length (xt_body t) then t\<lparr>xt_body := [], xt_at := OversizedDcs\<rparr> else t)"

definition xt_byte :: "usize \<Rightarrow> byte \<Rightarrow> xt_tracker \<Rightarrow> xt_tracker" where
  "xt_byte index b t = limit_body (xt_transition index b (native_dispatch index b t))"

subsection \<open>The loop with skipping\<close>

definition ground_hit :: "byte \<Rightarrow> bool" where
  "ground_hit b \<longleftrightarrow> b \<in> {0x1b, 0x90, 0x98, 0x9d, 0x9e, 0x9f}"

definition string_hit :: "bool \<Rightarrow> byte \<Rightarrow> bool" where
  "string_hit native_pending b \<longleftrightarrow> b \<in> {0x1b, 0x9c} \<or> native_pending \<and> b \<in> {0x18, 0x1a}"

text \<open>How far the loop jumps from a position, \<open>None\<close> when it ends there.\<close>

definition skip_distance :: "xt_tracker \<Rightarrow> byte list \<Rightarrow> nat option" where
  "skip_distance t rest =
     (if \<not> xt_native_dcs_pending t \<and> xt_at t = Ground then position ground_hit rest
      else if xt_at t = IgnoreString then position (string_hit (xt_native_dcs_pending t)) rest
      else Some 0)"

function xt_loop :: "byte list \<Rightarrow> nat \<Rightarrow> xt_tracker \<Rightarrow> xt_tracker" where
  "xt_loop bytes index t =
     (if index \<ge> length bytes then t
      else case skip_distance t (drop index bytes) of
             None \<Rightarrow> t
           | Some offset \<Rightarrow> xt_loop bytes (index + offset + 1) (xt_byte (index + offset) (bytes ! (index + offset)) t))"
  by pat_completeness auto
termination
  by (relation "measure (\<lambda>(bytes, index, t). length bytes - index)") auto

declare xt_loop.simps [simp del]

definition xt_observe :: "byte list \<Rightarrow> xt_tracker \<Rightarrow> xt_tracker" where
  "xt_observe bytes t = xt_loop bytes 0 t"

definition drain_pending :: "xt_tracker \<Rightarrow> xt_response list \<times> xt_tracker" where
  "drain_pending t = (xt_pending t, t\<lparr>xt_pending := []\<rparr>)"

section \<open>The loop against the machine\<close>

fun xt_bytes :: "nat \<Rightarrow> byte list \<Rightarrow> xt_tracker \<Rightarrow> xt_tracker" where
  "xt_bytes index [] t = t"
| "xt_bytes index (b # bs) t = xt_bytes (Suc index) bs (xt_byte index b t)"

definition xt_ok :: "xt_tracker \<Rightarrow> bool" where
  "xt_ok t \<longleftrightarrow> length (xt_body t) \<le> 1024"

lemma xt_byte_ok [simp]: "xt_ok (xt_byte index b t)"
  by (simp add: xt_byte_def limit_body_def xt_ok_def)

lemma xt_bytes_ok: "xt_ok t \<Longrightarrow> xt_ok (xt_bytes index bs t)"
  by (induction bs arbitrary: index t) auto

text \<open>A byte that is passed over would have changed nothing.\<close>

lemma ground_skip: "xt_ok t \<Longrightarrow> \<not> xt_native_dcs_pending t \<Longrightarrow> xt_at t = Ground \<Longrightarrow> \<not> ground_hit b \<Longrightarrow> xt_byte index b t = t"
  by (auto simp: xt_byte_def native_dispatch_def xt_transition_def limit_body_def xt_ok_def ground_hit_def)

lemma string_skip: "xt_ok t \<Longrightarrow> xt_at t = IgnoreString \<Longrightarrow> \<not> string_hit (xt_native_dcs_pending t) b \<Longrightarrow> xt_byte index b t = t"
  by (auto simp: xt_byte_def native_dispatch_def xt_transition_def limit_body_def xt_ok_def string_hit_def)

lemma xt_bytes_still: "\<forall>b\<in>set bs. \<forall>i. xt_byte i b t = t \<Longrightarrow> xt_bytes index bs t = t"
  by (induction bs arbitrary: index) auto

lemma xt_bytes_append: "xt_bytes index (as @ bs) t = xt_bytes (index + length as) bs (xt_bytes index as t)"
  by (induction as arbitrary: index t) auto

text \<open>What is jumped over has no effect; when the loop ends early, all the rest has none.\<close>

lemma skip_distance_None: "xt_ok t \<Longrightarrow> skip_distance t rest = None \<Longrightarrow> xt_bytes index rest t = t"
  by (rule xt_bytes_still)
    (auto simp: skip_distance_def position_None_iff ground_skip string_skip split: if_splits)

lemma skip_distance_Some:
  assumes "xt_ok t" and "skip_distance t rest = Some n" and "rest \<noteq> []"
  shows "n < length rest" "xt_bytes index (take n rest) t = t"
proof -
  have still: "(\<forall>i. xt_byte i (rest ! j) t = t)" if "j < n" for j
    using that assms by (auto simp: skip_distance_def ground_skip string_skip dest!: position_SomeD split: if_splits)
  show len: "n < length rest" using assms(2,3) by (auto simp: skip_distance_def dest: position_SomeD split: if_splits)
  with still show "xt_bytes index (take n rest) t = t"
    by (intro xt_bytes_still) (auto simp: in_set_conv_nth)
qed

lemma xt_loop_is_machine: "xt_ok t \<Longrightarrow> xt_loop bytes index t = xt_bytes index (drop index bytes) t"
proof (induction bytes index t rule: xt_loop.induct)
  case (1 bytes index t)
  note unfold = xt_loop.simps [of bytes index t]
  let ?rest = "drop index bytes"
  show ?case
  proof (cases "length bytes \<le> index")
    case False
    show ?thesis
    proof (cases "skip_distance t ?rest")
      case None
      with False "1.prems" show ?thesis by (simp add: unfold skip_distance_None)
    next
      case (Some n)
      note skip = skip_distance_Some [OF "1.prems" Some]
      have split: "?rest = take n ?rest @ bytes ! (index + n) # drop (index + n + 1) bytes"
        using skip(1) False id_take_nth_drop [of n ?rest] by (simp add: add.commute add.left_commute)
      have "xt_bytes index ?rest t = xt_bytes (index + n + 1) (drop (index + n + 1) bytes) (xt_byte (index + n) (bytes ! (index + n)) t)"
        using skip False by (subst split) (simp add: xt_bytes_append del: take_drop)
      then show ?thesis using "1.IH" [OF False Some] False Some by (simp add: unfold)
    qed
  qed (simp add: unfold)
qed

subsection \<open>Chunks\<close>

definition shift_response :: "nat \<Rightarrow> xt_response \<Rightarrow> xt_response" where
  "shift_response k r = r\<lparr>xr_end_offset := xr_end_offset r + k\<rparr>"

text \<open>The same tracker in a longer input: earlier answers before, and offsets from an earlier start.\<close>

definition lift_tracker :: "xt_response list \<Rightarrow> nat \<Rightarrow> xt_tracker \<Rightarrow> xt_tracker" where
  "lift_tracker earlier k t = t\<lparr>xt_pending := earlier @ map (shift_response k) (xt_pending t)\<rparr>"

lemma lift_fields [simp]:
  "xt_at (lift_tracker p k t) = xt_at t" "xt_body (lift_tracker p k t) = xt_body t"
  "xt_raw_c1_intro (lift_tracker p k t) = xt_raw_c1_intro t" "xt_native_dcs_pending (lift_tracker p k t) = xt_native_dcs_pending t"
  by (simp_all add: lift_tracker_def)

lemma lift_updates [simp]:
  "(lift_tracker p k t)\<lparr>xt_at := x\<rparr> = lift_tracker p k (t\<lparr>xt_at := x\<rparr>)"
  "(lift_tracker p k t)\<lparr>xt_body := ys\<rparr> = lift_tracker p k (t\<lparr>xt_body := ys\<rparr>)"
  "(lift_tracker p k t)\<lparr>xt_raw_c1_intro := b\<rparr> = lift_tracker p k (t\<lparr>xt_raw_c1_intro := b\<rparr>)"
  "(lift_tracker p k t)\<lparr>xt_native_dcs_pending := c\<rparr> = lift_tracker p k (t\<lparr>xt_native_dcs_pending := c\<rparr>)"
  by (cases t; simp add: lift_tracker_def)+

lemma finalize_lift [simp]: "finalize (i + k) (lift_tracker p k t) = lift_tracker p k (finalize i t)"
  by (cases t) (auto simp: finalize_def lift_tracker_def shift_response_def List.map_filter_def)

lemma dispatch_lift: "native_dispatch (i + k) b (lift_tracker p k t) = lift_tracker p k (native_dispatch i b t)"
  by (cases t) (simp add: native_dispatch_def lift_tracker_def shift_response_def)

lemma transition_lift: "xt_transition (i + k) b (lift_tracker p k t) = lift_tracker p k (xt_transition i b t)"
  using finalize_lift [of "Suc i" k p] by (cases "xt_at t") (simp_all add: xt_transition_def)

lemma byte_lift: "xt_byte (i + k) b (lift_tracker p k t) = lift_tracker p k (xt_byte i b t)"
  by (simp add: xt_byte_def dispatch_lift transition_lift limit_body_def)

lemma bytes_lift: "xt_bytes (i + k) bs (lift_tracker p k t) = lift_tracker p k (xt_bytes i bs t)"
proof (induction bs arbitrary: i t)
  case (Cons b bs)
  then show ?case using Cons [of "Suc i"] by (simp add: byte_lift)
qed simp

lemma lift_drained: "lift_tracker (xt_pending t) k (t\<lparr>xt_pending := []\<rparr>) = t"
  by (cases t) (simp add: lift_tracker_def)

text \<open>
  C39. Skipping and chunks do not show: from any state whose collected query has at most 1024
  bytes, observing a chunk is feeding its bytes to the state machine one by one, the bound
  holds again afterwards, and observing two chunks, with the answers drained in between and the
  offsets of the second counted from the start of the first, is observing them joined.
\<close>

theorem xtgettcap_chunks_and_skipping:
  assumes "xt_ok t"
  shows "xt_observe a t = xt_bytes 0 a t \<and> xt_ok (xt_observe a t) \<and>
    xt_observe (a @ b) t =
      (let (answers, t1) = drain_pending (xt_observe a t); (later, t2) = drain_pending (xt_observe b t1)
       in t2\<lparr>xt_pending := answers @ map (shift_response (length a)) later\<rparr>)"
proof -
  have machine: "xt_observe bs u = xt_bytes 0 bs u" if "xt_ok u" for bs u
    using xt_loop_is_machine [OF that, of bs 0] by (simp add: xt_observe_def)
  let ?t1 = "xt_bytes 0 a t"
  let ?d1 = "?t1\<lparr>xt_pending := []\<rparr>"
  have ok: "xt_ok ?t1" "xt_ok ?d1" using xt_bytes_ok [OF assms] by (simp_all add: xt_ok_def)
  have "xt_bytes (length a) b ?t1 = lift_tracker (xt_pending ?t1) (length a) (xt_bytes 0 b ?d1)"
    using bytes_lift [of 0 "length a" b "xt_pending ?t1" ?d1] lift_drained [of ?t1 "length a"] by simp
  then show ?thesis
    using assms ok by (simp add: machine drain_pending_def xt_bytes_append lift_tracker_def)
qed

theorem xtgettcap_chunks_and_skipping_witness:
  "xt_ok xt_default \<and> xt_observe [0x41, 0x90, 0x2b] xt_default = xt_default\<lparr>xt_at := DcsIntroPlus, xt_raw_c1_intro := True\<rparr>"
proof -
  have ok: "xt_ok xt_default" by (simp add: xt_ok_def xt_default_def)
  have "xt_observe [0x41, 0x90, 0x2b] xt_default = xt_bytes 0 [0x41, 0x90, 0x2b] xt_default"
    using xtgettcap_chunks_and_skipping [OF ok] by blast
  also have "\<dots> = xt_default\<lparr>xt_at := DcsIntroPlus, xt_raw_c1_intro := True\<rparr>"
    by (simp add: xt_byte_def native_dispatch_def xt_transition_def limit_body_def xt_default_def)
  finally show ?thesis using ok by simp
qed

subsection \<open>Answers are well formed\<close>

text \<open>Every answer echoes a known capability in upper case and gives its value in hexadecimal.\<close>

definition hex_value :: "byte \<Rightarrow> nat" where
  "hex_value b = (if unat b \<le> 57 then unat b - 48 else unat b - 55)"

fun hex_decode :: "byte list \<Rightarrow> byte list" where
  "hex_decode (a # b # rest) = of_nat (16 * hex_value a + hex_value b) # hex_decode rest"
| "hex_decode _ = []"

lemma hex_digit_value: "n < 16 \<Longrightarrow> hex_value (hex_digit n) = n"
proof -
  have all: "\<forall>n\<in>set [0..<16]. hex_value (hex_digit n) = n"
    by (simp add: upt_conv_Cons hex_value_def hex_digit_def ascii_def)
  assume "n < 16"
  with all show ?thesis by simp
qed

lemma nibbles:
  fixes b :: byte
  shows "unat (drop_bit 4 b) = unat b div 16" "unat (b AND 0x0f) = unat b mod 16"
proof -
  show "unat (drop_bit 4 b) = unat b div 16" unfolding unat_drop_bit_eq by (simp add: drop_bit_eq_div)
  have "b AND 0x0f = take_bit 4 b" by (simp add: take_bit_eq_mask mask_eq_exp_minus_1)
  then show "unat (b AND 0x0f) = unat b mod 16" by (simp only: unsigned_take_bit_eq) (simp add: take_bit_eq_mod)
qed

lemma upper_hex_decodes: "hex_decode (append_upper_hex bytes []) = bytes"
proof (induction bytes)
  case (Cons b bytes)
  have "unat b < 256" using unsigned_less [of b, where ?'a = nat] by simp
  then have "unat b div 16 < 16" by linarith
  then have "hex_value (hex_digit (unat b div 16)) = unat b div 16" "hex_value (hex_digit (unat b mod 16)) = unat b mod 16"
    by (simp_all add: hex_digit_value)
  with Cons show ?case by (simp add: append_upper_hex_def nibbles del: of_nat_add of_nat_mult)
qed (simp add: append_upper_hex_def)

end
