(* ===== verification/Spec2Isabelle.thy ===== *)
theory Spec2Isabelle
  imports Layout ClientPatch Attention EventHub Selection InputLease Endpoints ClientReader ClientEvents ClientMessages ClientAdmission KittyKeyboard Xtgettcap
begin

text \<open>
  \<^bold>\<open>herdr, a terminal multiplexer for coding agents: a verification of its core logic.\<close>

  \<^bold>\<open>The program.\<close>  A server owns the panes.  Each runs a terminal and is tiled in a tab
  (\<open>src/src/layout.rs\<close>).  For every attached client the server composes a surface, a grid of
  cells with its panes, popup and images, and sends it as full surfaces, sparse deltas,
  scrolls, patches or restamps (\<open>src/src/server/render_stream.rs\<close> and
  \<open>src/src/protocol/\<close>); the client decodes them against the surface it holds
  (\<open>protocol/surface_reuse.rs\<close>).  The client turns keys and mouse into input: selections
  (\<open>selection.rs\<close>) and key events, whose repeats and releases follow a lease
  (\<open>input/lease.rs\<close>).  The server watches the agents: a tracker per terminal accounts for
  turns, failures and questions (\<open>terminal/turn.rs\<close>), a decision table says what is
  announced (\<open>server/attention.rs\<close>), and everything that happens is pushed to a bounded
  history that API clients subscribe to (\<open>api/event_hub.rs\<close>, \<open>api/subscriptions.rs\<close>).  It
  also follows what the programs in its panes ask of the terminal: keyboard modes, to hand
  them over to a new server (\<open>pane/kitty_keyboard.rs\<close>), and capability queries in a form the
  emulator does not answer (\<open>pane/xtgettcap.rs\<close>).  A client may be attached to several
  servers at once: a registry (\<open>client/endpoint/registry.rs\<close>) holds its connections and probes
  their health (\<open>client/endpoint/health.rs\<close>), and a writer thread per connection
  (\<open>client/endpoint/writer.rs\<close>) keeps a slow socket from blocking the user interface.

  \<^bold>\<open>The theories.\<close>
  \<^item> \<^bold>\<open>Prelude\<close>: fixed-width arithmetic as the release build does it (wrapping operators,
    saturating and checked operations), the iterator operations of the standard library, and
    the locale \<open>kept_by_steps\<close> of a step relation that keeps an invariant, which every run in
    the development is an interpretation of, with its extension \<open>simulation\<close> for a component that
    refines an abstract one.
  \<^item> \<^bold>\<open>Float32\<close>: the rounding of 32-bit floats the layout depends on.
  \<^item> \<^bold>\<open>Layout\<close> (\<open>layout.rs\<close>): the tree of panes, its geometry, navigation, splitting, closing,
    swapping and resizing.  C1 to C4 and C6: every run keeps the tree well formed, panes tile their
    area exactly, a preview equals the split it predicts, closing undoes splitting, navigation
    finds the nearest pane; further, focus moves where it should and dividers move as asked.
  \<^item> \<^bold>\<open>Framing\<close> (\<open>protocol/wire.rs\<close>): length-prefixed messages and the version check.  C9: frames
    round trip and no prefix of one is mistaken for a message.
  \<^item> \<^bold>\<open>Surface\<close>, \<^bold>\<open>SurfaceDelta\<close>, \<^bold>\<open>SurfaceScroll\<close>, \<^bold>\<open>SurfaceReuse\<close>: the wire types of a surface
    and its three compressed encodings with their bounded decoders, in the state of a
    connection.  C10, C11 and C13 to C15: a scroll message is equivalent to the patch it replaces; a delta
    delivers the surface it was made from; every decoder stays within its limits and no
    message makes it panic or, refused, change its state.
  \<^item> \<^bold>\<open>TokenWire\<close>: a concrete codec that satisfies the hypotheses on the serialisation library,
    for the witnesses.
  \<^item> \<^bold>\<open>Channel\<close> and \<^bold>\<open>RenderStream\<close> (\<open>server/render_stream.rs\<close>): the locale \<open>lossless_channel\<close> of
    a sender and a receiver that stay agreed, interpreted on the server's render state and
    the client's decoder.  C16: whatever the server sends, the client refuses nothing and
    holds the surface the server committed.
  \<^item> \<^bold>\<open>ClientPatch\<close> (\<open>client/shell/surface_patch.rs\<close>): what the shell of a client does with a decoded
    patch.  C17: a patch it accepts is applied exactly as the server applied it.
  \<^item> \<^bold>\<open>Text\<close> (\<open>harness/text.rs\<close>): collapsing, clipping and cleaning text, markdown, cursors.  C18 to
    C20: collapsing is joining words, clipping takes the longest prefix that fits, cleaned
    output is clean; further, cursors round trip, summaries are bounded and invent nothing.
  \<^item> \<^bold>\<open>Turn\<close> (\<open>terminal/turn.rs\<close>) and \<^bold>\<open>Attention\<close> (\<open>server/attention.rs\<close>, parts of
    \<open>app/actions.rs\<close>): the turn tracker and what is announced of it.  C23: the revision
    changes with what is shown.  C25 and C26: a turn has one
    outcome, and a failure of a working agent is announced when it stops.  Reports are taken in order.
  \<^item> \<^bold>\<open>EventHub\<close> (\<open>api/event_hub.rs\<close>, \<open>api/subscriptions.rs\<close>): the history and its
    subscribers.  C27: it accounts for every event of the log.  C28: a subscriber loses
    nothing silently.  C29: gaps come first, or end the stream.
  \<^item> \<^bold>\<open>Selection\<close> (\<open>selection.rs\<close>): C30: the highlight is exactly the selected cells.  C31: a
    gesture stays in its pane.
  \<^item> \<^bold>\<open>InputLease\<close> (\<open>input/lease.rs\<close>, \<open>input/model.rs\<close>): C32: physical keys are told apart.  C33: a
    held key keeps its target; removing a target is exact.
  \<^item> \<^bold>\<open>FrameWriter\<close> and \<^bold>\<open>EndpointWriter\<close> (\<open>client/endpoint/writer.rs\<close>): the loop that writes one frame
    to a non-blocking stream, and the two threads around it as a step relation whose steps are their
    single accesses to shared state.  C35: in every interleaving frames are delivered in order, the
    queue is bounded, nothing is lost while the worker runs, and an answered flush means
    that everything is written.  C36: the loop returns.
  \<^item> \<^bold>\<open>ClientReader\<close> (\<open>server/client_transport.rs\<close>): the loop of the server that reads a client's messages.  C34,
    below: what the writer accepted is what the server handles, in order.
  \<^item> \<^bold>\<open>ClientQueue\<close>, \<^bold>\<open>ClientLink\<close> and \<^bold>\<open>ClientEvents\<close> (\<open>server/client_transport.rs\<close>, parts of \<open>server/headless.rs\<close>): the
    queue of what the server sends to a client, with every operation under its lock; the write thread, the
    read thread and the server thread on it as a step relation; and an account of the client's
    events which that relation refines.  C8: the backlog is bounded and no wake-up is lost.  C12: frames go out in
    order and an orderly close delivers them all.  C24: a sealed connection does close.  C21: the disconnect of a
    client is its last event.  C22: no credit for sending more is lost.
  \<^item> \<^bold>\<open>ClientMessages\<close> and \<^bold>\<open>ClientAdmission\<close> (\<open>server/client_transport.rs\<close>, the client's messages of
    \<open>protocol/wire.rs\<close>): the decision on a hello, what becomes of every later message, and the limiter of concurrent
    handshakes with the registry that a shutdown goes through.  C5: what reaches the server's state is within every
    limit.  C7: the number of handshakes is limited, and no connection slips in behind a shutdown.
  \<^item> \<^bold>\<open>TerminalBytes\<close>, \<^bold>\<open>KittyKeyboard\<close> (\<open>pane/kitty_keyboard.rs\<close>) and \<^bold>\<open>Xtgettcap\<close> (\<open>pane/xtgettcap.rs\<close>):
    the observers of a pane's output, each against a reference scanner.  C37: the cut into chunks
    does not matter to the keyboard tracker.  C38: its replay restores the modes.  C39: neither chunks nor the
    skipping of bytes matter to the query tracker.
  \<^item> \<^bold>\<open>EndpointRegistry\<close> (\<open>client/endpoint/registry.rs\<close>, \<open>health.rs\<close>) and \<^bold>\<open>Endpoints\<close>: the registry over any
    transport, the locale \<open>endpoint_transport\<close> with what it relies on, and its interpretation on the writer.
    C40: failures never name an open connection, and every transport that leaves the
    registry is stopped.

  \<^bold>\<open>How state and errors are modelled.\<close>  A struct is a record whose fields carry the source's
  names behind a short prefix, an enum a datatype, a method that changes its receiver a
  function from the old value to the new one, beside its result.  Refusals and panics are
  values of a sum or an option, so that the absence of a panic is a theorem.  Integers are
  natural numbers with their wrap-around written out, or words where the code works bitwise.
  Rust strings that are measured or cleaned are lists of code points.

  \<^bold>\<open>Parameters.\<close>  Code the repository only calls is an argument: the binary codec and base64
  (records \<open>wire\<close>, \<open>scroll_lib\<close>, \<open>reuse_lib\<close> of functions), the JSON encoding of an event, the
  toolkit's \<open>Rect::new\<close>, the key codes of the terminal library, the iteration order of hash
  maps, clocks and the labels of agents.  What is assumed of them is a named predicate
  (\<open>rect_new_ok\<close>, the laws of the codec) and each property that uses one has a witness with a
  concrete function in its place.  The environment of the endpoint writer (what the socket
  takes, what the clock shows, when another thread stops it) is an argument or a free choice of a
  step; its contract is \<open>writes_within\<close>, \<open>clock_runs\<close> and \<open>interrupts_end\<close>.  The channel on which the
  threads of a connection reach the server belongs to the asynchronous runtime; what is relied on is that it is a
  queue (\<open>fifo_channel\<close>).

  \<^bold>\<open>Bounds and termination.\<close>  No definition uses fuel: every loop is a structural recursion or
  has a measure (the rest of the text, the length of the history's window, the cells left
  of a row).  The one loop whose end depends on its environment, that of \<open>FrameWriter\<close>, is a
  partial function, and C36 gives the order in which it decreases: bytes left, time to the deadline,
  calls until one is not interrupted.  Where a counter could wrap (64-bit sequence numbers, the rows of the screen
  buffer) the property names the bound it needs, except C23, which holds across the wrap.

  \<^bold>\<open>Not modelled.\<close>  The event loops, sockets, files and processes around these components (the
  server's main loop, the client's, the supervisors that open connections, the Windows build of the
  endpoint writer, persistence, remote attach, pseudo terminals, the
  platform layer); the terminal emulator and its bindings; drawing into toolkit buffers,
  including the blit encoder that serves plain terminals; configuration, command line and
  translations; the screen patterns that detect an agent's state and the arbitration between
  detection and hooks; the subscriptions that poll the application for a snapshot.
\<close>

section \<open>From the user interface of a client to the server\<close>


text \<open>Two turns later the message of \<open>ex_writer\<close> is written, and the server handles it.\<close>

definition ex_delivered :: writer_state where
  "ex_delivered = worker_turn (Wrote 2) 2 (worker_turn (WriteFailed WouldBlock) 2 ex_writer)"

definition ex_dec :: "byte list \<Rightarrow> string + byte \<times> nat" where
  "ex_dec p = (case p of [b] \<Rightarrow> Inr (b, 1) | _ \<Rightarrow> Inl ''length'')"


end
